(* ===== verification/Prelude.thy ===== *)
theory Prelude
  imports Main "HOL-Library.Sublist" "HOL-Library.State_Monad" "HOL-Library.AList"
begin

text \<open>
  The vocabulary shared by the components.  Go strings and byte slices are byte
  sequences, so both are Isabelle strings (lists of 8-bit characters).  The first
  part models the functions of Go's strings package the sources call; white space
  is Unicode white space, written as its UTF-8 byte sequences, because
  strings.TrimSpace and strings.Fields work on runes.  The second part names the error
  values of the program and the result type: a sum, Inl being the error.
\<close>

named_theorems go_string "evaluation of the string functions on explicit text"

section \<open>Go strings\<close>

type_synonym bytes = string

definition has_prefix :: "string \<Rightarrow> string \<Rightarrow> bool" where
  "has_prefix s p = (take (length p) s = p)"

definition cut_prefix :: "string \<Rightarrow> string \<Rightarrow> string option" where
  "cut_prefix s p = (if has_prefix s p then Some (drop (length p) s) else None)"

definition trim_prefix :: "string \<Rightarrow> string \<Rightarrow> string" where
  "trim_prefix s p = (case cut_prefix s p of Some r \<Rightarrow> r | None \<Rightarrow> s)"

fun contains :: "string \<Rightarrow> string \<Rightarrow> bool" where
  "contains [] sub = (sub = [])"
| "contains (c # s) sub = (has_prefix (c # s) sub \<or> contains s sub)"

definition contains_any :: "string \<Rightarrow> string \<Rightarrow> bool" where
  "contains_any s cs = (\<exists>c \<in> set s. c \<in> set cs)"

fun join :: "string \<Rightarrow> string list \<Rightarrow> string" where
  "join sep [] = []"
| "join sep [x] = x"
| "join sep (x # y # zs) = x @ sep @ join sep (y # zs)"

fun split_on :: "char \<Rightarrow> string \<Rightarrow> string list" where
  "split_on d [] = [[]]"
| "split_on d (c # s) =
     (if c = d then [] # split_on d s
      else (case split_on d s of [] \<Rightarrow> [[c]] | x # xs \<Rightarrow> (c # x) # xs))"

text \<open>The 25 runes of unicode.IsSpace in UTF-8.\<close>

definition ascii_spaces :: "char list" where
  "ascii_spaces = [CHR 0x20, CHR 0x09, CHR 0x0A, CHR 0x0B, CHR 0x0C, CHR 0x0D]"

definition wide_spaces :: "string list" where
  "wide_spaces =
     [[CHR 0xC2, CHR 0x85], [CHR 0xC2, CHR 0xA0], [CHR 0xE1, CHR 0x9A, CHR 0x80]]
     @ [[CHR 0xE2, CHR 0x80, CHR 0x80], [CHR 0xE2, CHR 0x80, CHR 0x81],
        [CHR 0xE2, CHR 0x80, CHR 0x82], [CHR 0xE2, CHR 0x80, CHR 0x83],
        [CHR 0xE2, CHR 0x80, CHR 0x84], [CHR 0xE2, CHR 0x80, CHR 0x85],
        [CHR 0xE2, CHR 0x80, CHR 0x86], [CHR 0xE2, CHR 0x80, CHR 0x87],
        [CHR 0xE2, CHR 0x80, CHR 0x88], [CHR 0xE2, CHR 0x80, CHR 0x89],
        [CHR 0xE2, CHR 0x80, CHR 0x8A]]
     @ [[CHR 0xE2, CHR 0x80, CHR 0xA8], [CHR 0xE2, CHR 0x80, CHR 0xA9],
        [CHR 0xE2, CHR 0x80, CHR 0xAF], [CHR 0xE2, CHR 0x81, CHR 0x9F],
        [CHR 0xE3, CHR 0x80, CHR 0x80]]"

definition ws_runes :: "string list" where
  "ws_runes = map (\<lambda>c. [c]) ascii_spaces @ wide_spaces"

text \<open>The text after a leading white-space rune, if there is one.\<close>

definition skip_space :: "string \<Rightarrow> string option" where
  "skip_space s =
     (case s of [] \<Rightarrow> None
      | c # r \<Rightarrow> (if c \<in> set ascii_spaces then Some r
                 else if of_char c < (128::nat) then None
                 else (case find (\<lambda>w. has_prefix s w) wide_spaces of
                         Some w \<Rightarrow> Some (drop (length w) s)
                       | None \<Rightarrow> None)))"

text \<open>The text before a trailing white-space rune, if there is one.\<close>

definition skip_space_end :: "string \<Rightarrow> string option" where
  "skip_space_end s =
     (case rev s of [] \<Rightarrow> None
      | c # r \<Rightarrow> (if c \<in> set ascii_spaces then Some (rev r)
                 else if of_char c < (128::nat) then None
                 else (case find (\<lambda>w. has_prefix (rev s) (rev w)) wide_spaces of
                         Some w \<Rightarrow> Some (take (length s - length w) s)
                       | None \<Rightarrow> None)))"

lemma wide_spaces_nonempty: "w \<in> set wide_spaces \<Longrightarrow> w \<noteq> []"
  by (auto simp: wide_spaces_def)

lemma find_wide_nonempty: "find P wide_spaces = Some w \<Longrightarrow> w \<noteq> []"
  using wide_spaces_nonempty by (metis find_Some_iff nth_mem)

lemma skip_space_shorter: "skip_space s = Some r \<Longrightarrow> length r < length s"
  by (auto simp: skip_space_def split: list.splits if_splits option.splits
      dest!: find_wide_nonempty)

lemma skip_space_end_shorter: "skip_space_end s = Some r \<Longrightarrow> length r < length s"
  by (cases "rev s"; cases s)
    (auto simp: skip_space_end_def split: if_splits option.splits
      dest!: find_wide_nonempty arg_cong [where f = length] simp flip: length_greater_0_conv)

function trim_left :: "string \<Rightarrow> string" where
  "trim_left s = (case skip_space s of Some r \<Rightarrow> trim_left r | None \<Rightarrow> s)"
  by pat_completeness auto
termination by (relation "measure length") (auto dest: skip_space_shorter)

function trim_right :: "string \<Rightarrow> string" where
  "trim_right s = (case skip_space_end s of Some r \<Rightarrow> trim_right r | None \<Rightarrow> s)"
  by pat_completeness auto
termination by (relation "measure length") (auto dest: skip_space_end_shorter)

declare trim_left.simps [simp del] trim_right.simps [simp del]

definition trim_space :: "string \<Rightarrow> string" where
  "trim_space s = trim_right (trim_left s)"

function go_fields_acc :: "string \<Rightarrow> string \<Rightarrow> string list" where
  "go_fields_acc s acc =
     (if s = [] then (if acc = [] then [] else [acc])
      else (case skip_space s of
              Some r \<Rightarrow> (if acc = [] then go_fields_acc r [] else acc # go_fields_acc r [])
            | None \<Rightarrow> go_fields_acc (tl s) (acc @ [hd s])))"
  by pat_completeness auto
termination by (relation "measure (length \<circ> fst)") (auto dest: skip_space_shorter)

declare go_fields_acc.simps [simp del]

definition go_fields :: "string \<Rightarrow> string list" where
  "go_fields s = go_fields_acc s []"

subsection \<open>Lemmas on strings\<close>

text \<open>A token: printable ASCII without white space.\<close>

definition plain_char :: "char \<Rightarrow> bool" where
  "plain_char c = (33 \<le> (of_char c :: nat) \<and> (of_char c :: nat) < 127)"

definition plain :: "string \<Rightarrow> bool" where
  "plain s = list_all plain_char s"

lemma plain_simps [simp]:
  "plain []" "plain (c # s) = (plain_char c \<and> plain s)" "plain (s @ t) = (plain s \<and> plain t)"
  by (auto simp: plain_def)

lemma has_prefix_append [simp]: "has_prefix (p @ s) p"
  by (simp add: has_prefix_def)

lemma has_prefix_iff_prefix: "has_prefix s p = prefix p s"
  by (metis append_eq_conv_conj append_take_drop_id has_prefix_def prefix_def)

lemma has_prefix_Cons_iff [simp]:
  "has_prefix (c # s) (d # p) = (c = d \<and> has_prefix s p)"
  "has_prefix s []" "\<not> has_prefix [] (d # p)"
  by (auto simp: has_prefix_def)

lemma contains_iff_sublist: "contains s sub = sublist sub s"
  by (induction s) (auto simp: has_prefix_iff_prefix sublist_Cons_right)

lemma cut_prefix_append [simp]: "cut_prefix (p @ s) p = Some s"
  by (simp add: cut_prefix_def)

lemma cut_prefix_SomeD: "cut_prefix s p = Some r \<Longrightarrow> s = p @ r"
  by (auto simp: cut_prefix_def has_prefix_def split: if_splits)
    (metis append_take_drop_id)

lemma trim_prefix_Cons [simp]: "trim_prefix (c # s) [c] = s"
  by (simp add: trim_prefix_def cut_prefix_def)

lemma plain_char_not_space:
  assumes "plain_char c"
  shows "c \<notin> set ascii_spaces" "of_char c < (128::nat)"
  using assms by (auto simp: plain_char_def ascii_spaces_def)

lemma skip_space_plain [simp]: "plain_char c \<Longrightarrow> skip_space (c # s) = None"
  by (simp add: skip_space_def plain_char_not_space)

lemma skip_space_blank [simp]:
  "skip_space [] = None" "skip_space (CHR '' '' # s) = Some s"
  by (simp_all add: skip_space_def ascii_spaces_def)

lemma skip_space_end_plain [simp]: "plain_char c \<Longrightarrow> skip_space_end (s @ [c]) = None"
  by (simp add: skip_space_end_def plain_char_not_space)

lemma trim_left_plain: "plain_char c \<Longrightarrow> trim_left (c # s) = c # s"
  by (subst trim_left.simps) simp

lemma trim_right_plain: "plain_char c \<Longrightarrow> trim_right (s @ [c]) = s @ [c]"
  by (subst trim_right.simps) simp

lemma trim_space_plain [simp]:
  assumes "plain s" shows "trim_space s = s"
proof (cases "s = []")
  case True
  then show ?thesis
    by (simp add: trim_space_def trim_left.simps [of "[]"] trim_right.simps [of "[]"]
        skip_space_end_def)
next
  case False
  then obtain c t where s: "s = c # t" by (cases s) auto
  obtain d u where s': "s = u @ [d]" using False by (metis rev_exhaust)
  have "trim_left s = s" using assms s trim_left_plain by simp
  moreover have "trim_right s = s" using assms s' trim_right_plain by simp
  ultimately show ?thesis by (simp add: trim_space_def)
qed

lemma go_fields_acc_plain:
  "plain t \<Longrightarrow> go_fields_acc (t @ s) acc = go_fields_acc s (acc @ t)"
proof (induction t arbitrary: acc)
  case (Cons c t)
  then show ?case by (subst go_fields_acc.simps) simp
qed simp

lemma go_fields_nil [simp]: "go_fields [] = []"
  by (simp add: go_fields_def go_fields_acc.simps [of "[]"])

lemma go_fields_token_blank:
  assumes "plain t" "t \<noteq> []"
  shows "go_fields (t @ CHR '' '' # s) = t # go_fields s"
  using assms go_fields_acc_plain [of t "CHR '' '' # s" "[]"]
  by (simp add: go_fields_def go_fields_acc.simps [of "CHR '' '' # s"])

lemma go_fields_token:
  assumes "plain t" "t \<noteq> []"
  shows "go_fields t = [t]"
  using assms go_fields_acc_plain [of t "[]" "[]"]
  by (simp add: go_fields_def go_fields_acc.simps [of "[]"])

lemma go_fields_acc_nonempty: "t \<in> set (go_fields_acc s acc) \<Longrightarrow> t \<noteq> []"
proof (induction s acc rule: go_fields_acc.induct)
  case (1 s acc)
  then show ?case
    by (subst (asm) (4) go_fields_acc.simps) (auto split: if_splits option.splits)
qed

lemma go_fields_nonempty: "t \<in> set (go_fields s) \<Longrightarrow> t \<noteq> []"
  by (simp add: go_fields_def go_fields_acc_nonempty)

lemma split_on_nonempty [simp]: "split_on d s \<noteq> []"
  by (cases s) (auto split: list.splits)

lemma split_on_none: "d \<notin> set s \<Longrightarrow> split_on d s = [s]"
  by (induction s) auto

lemma split_on_append:
  "d \<notin> set s \<Longrightarrow> split_on d (s @ d # t) = s # split_on d t"
  by (induction s) auto

lemma find_Some_mem: "find P xs = Some x \<Longrightarrow> x \<in> set xs \<and> P x"
  by (auto simp: find_Some_iff)

lemma split_on_glue: "split_on d (s @ d # t) = split_on d s @ split_on d t"
proof (induction s)
  case (Cons c s)
  then show ?case by (cases "split_on d s") auto
qed simp

subsection \<open>Blank text\<close>

lemma has_prefix_extend: "has_prefix s w \<Longrightarrow> has_prefix (s @ t) w"
  by (simp add: has_prefix_iff_prefix)

lemma wide_no_newline: "w \<in> set wide_spaces \<Longrightarrow> CHR 0x0A \<notin> set w"
  by (auto simp: wide_spaces_def)

lemma has_prefix_snoc_newline:
  "w \<in> set wide_spaces \<Longrightarrow> has_prefix (s @ [CHR 0x0A]) w = has_prefix s w"
  using wide_no_newline [of w] by (auto simp: has_prefix_iff_prefix)

lemma wide_head_high: "w \<in> set wide_spaces \<Longrightarrow> hd w \<notin> set ascii_spaces \<and> \<not> of_char (hd w) < (128::nat)"
  by (auto simp: wide_spaces_def ascii_spaces_def)

lemma skip_space_None_iff:
  "skip_space s = None \<longleftrightarrow>
     (\<forall>w \<in> set ws_runes. \<not> has_prefix s w)"
proof (cases s)
  case Nil
  then show ?thesis
    by (auto simp: ws_runes_def skip_space_def has_prefix_def dest: wide_spaces_nonempty)
next
  case (Cons c r)
  have high: "c \<notin> set ascii_spaces \<and> \<not> of_char c < (128::nat)" if "w \<in> set wide_spaces" "has_prefix s w" for w
  proof -
    from wide_spaces_nonempty [OF that(1)] obtain a v where w: "w = a # v" by (cases w) auto
    then have "a = c" using that(2) Cons by simp
    then show ?thesis using wide_head_high [OF that(1)] w by simp
  qed
  have "(\<forall>w \<in> set ws_runes. \<not> has_prefix s w) \<longleftrightarrow>
      c \<notin> set ascii_spaces \<and> (\<forall>w \<in> set wide_spaces. \<not> has_prefix s w)"
    by (simp add: Cons ws_runes_def ball_Un) blast
  then show ?thesis
    using high by (auto simp: Cons skip_space_def find_None_iff split: option.splits
        dest: find_Some_mem)
qed

lemma skip_space_end_SomeE:
  assumes "skip_space_end s = Some r"
  obtains w where "w \<in> set ws_runes" "s = r @ w"
proof (cases "rev s")
  case Nil
  then show ?thesis using assms by (simp add: skip_space_end_def)
next
  case (Cons c t)
  show ?thesis
  proof (cases "c \<in> set ascii_spaces")
    case True
    then show ?thesis using assms Cons that [of "[c]"]
      by (auto simp: skip_space_end_def ws_runes_def rev_swap)
  next
    case False
    then obtain w where w: "w \<in> set wide_spaces" "has_prefix (rev s) (rev w)"
        "r = take (length s - length w) s"
      using assms Cons by (auto simp: skip_space_end_def split: if_splits option.splits dest: find_Some_mem)
    then have "suffix w s" by (simp add: has_prefix_iff_prefix suffix_to_prefix)
    then have "s = r @ w" using w(3) by (auto simp: suffix_def)
    then show ?thesis using w(1) that by (auto simp: ws_runes_def)
  qed
qed

lemma trim_right_blank: "trim_right s = [] \<Longrightarrow> s \<noteq> [] \<Longrightarrow> skip_space s \<noteq> None"
proof (induction s rule: trim_right.induct)
  case (1 s)
  from 1(2,3) obtain r where r: "skip_space_end s = Some r" "trim_right r = []"
    by (subst (asm) (2) trim_right.simps) (auto split: option.splits)
  from skip_space_end_SomeE [OF r(1)] obtain w where w: "w \<in> set ws_runes" "s = r @ w" .
  show ?case
  proof (cases "r = []")
    case True
    then show ?thesis using w by (auto simp: skip_space_None_iff has_prefix_iff_prefix)
  next
    case False
    then show ?thesis using 1(1) [OF r(1) r(2)] w(2)
      by (auto simp: skip_space_None_iff intro: has_prefix_extend)
  qed
qed

lemma trim_left_no_space: "skip_space (trim_left s) = None"
  by (induction s rule: trim_left.induct) (subst trim_left.simps, auto split: option.splits)

lemma trim_left_blank_fields: "trim_left s = [] \<Longrightarrow> go_fields_acc s [] = []"
proof (induction s rule: trim_left.induct)
  case (1 s)
  show ?case
  proof (cases "skip_space s")
    case None
    then have "s = []" using 1(2) by (simp add: trim_left.simps [of s])
    then show ?thesis by (simp add: go_fields_acc.simps)
  next
    case (Some r)
    then have "s \<noteq> []" "trim_left r = []" using 1(2) by (auto simp: trim_left.simps [of s])
    then show ?thesis using 1(1) [OF Some] Some by (simp add: go_fields_acc.simps [of s])
  qed
qed

lemma blank_fields: "trim_space s = [] \<Longrightarrow> go_fields s = []"
  using trim_right_blank [of "trim_left s"] trim_left_no_space [of s] trim_left_blank_fields [of s]
  by (auto simp: trim_space_def go_fields_def)

lemma skip_space_snoc_newline:
  "s \<noteq> [] \<Longrightarrow> skip_space (s @ [CHR 0x0A]) = map_option (\<lambda>r. r @ [CHR 0x0A]) (skip_space s)"
proof -
  assume "s \<noteq> []"
  then obtain c t where s: "s = c # t" by (cases s) auto
  have f: "find (has_prefix (s @ [CHR 0x0A])) wide_spaces = find (has_prefix s) wide_spaces"
    by (rule find_cong) (auto simp: has_prefix_snoc_newline)
  have "drop (length w) (s @ [CHR 0x0A]) = drop (length w) s @ [CHR 0x0A]"
    if "find (has_prefix s) wide_spaces = Some w" for w
    using that by (auto simp: has_prefix_iff_prefix dest!: find_Some_mem prefix_length_le)
  then show ?thesis using f unfolding s by (auto simp: skip_space_def split: option.splits)
qed

lemma go_fields_acc_newline: "go_fields_acc (s @ [CHR 0x0A]) acc = go_fields_acc s acc"
proof (induction s acc rule: go_fields_acc.induct)
  case (1 s acc)
  show ?case
  proof (cases "s = []")
    case True
    have "skip_space [CHR 0x0A] = Some []" by (simp add: skip_space_def ascii_spaces_def)
    then show ?thesis
      by (simp add: True go_fields_acc.simps [of "[CHR 0x0A]"] go_fields_acc.simps [of "[]"])
  next
    case False
    then obtain c t where s: "s = c # t" by (cases s) auto
    show ?thesis
    proof (cases "skip_space s")
      case None
      then show ?thesis using 1 None skip_space_snoc_newline [OF False] s
        by (simp add: go_fields_acc.simps [of "c # t"] go_fields_acc.simps [of "c # t @ [CHR 0x0A]"])
    next
      case (Some r)
      then show ?thesis
        using 1 Some skip_space_snoc_newline [OF False] False
        by (simp add: go_fields_acc.simps [of s] go_fields_acc.simps [of "s @ [CHR 0x0A]"])
    qed
  qed
qed

lemma go_fields_newline [simp]: "go_fields (s @ [CHR 0x0A]) = go_fields s"
  by (simp add: go_fields_def go_fields_acc_newline)

text \<open>Evaluation on explicit strings.\<close>

lemma go_fields_acc_eval [go_string]:
  "go_fields_acc [] acc = (if acc = [] then [] else [acc])"
  "go_fields_acc (c # s) acc =
     (case skip_space (c # s) of
        Some r \<Rightarrow> (if acc = [] then go_fields_acc r [] else acc # go_fields_acc r [])
      | None \<Rightarrow> go_fields_acc s (acc @ [c]))"
  by (simp_all add: go_fields_acc.simps [of "[]"] go_fields_acc.simps [of "c # s"]
      cong: option.case_cong)

lemma trim_left_eval [go_string]:
  "trim_left [] = []"
  "trim_left (c # s) = (case skip_space (c # s) of Some r \<Rightarrow> trim_left r | None \<Rightarrow> c # s)"
  by (simp add: trim_left.simps, subst trim_left.simps, simp)

lemma trim_right_eval [go_string]:
  "trim_right [] = []"
  "trim_right (c # s) = (case skip_space_end (c # s) of Some r \<Rightarrow> trim_right r | None \<Rightarrow> c # s)"
  by (simp add: trim_right.simps skip_space_end_def, subst trim_right.simps, simp)

lemma replicate_eval [go_string]:
  "replicate (numeral k) x = x # replicate (pred_numeral k) x"
  by (simp add: numeral_eq_Suc)

lemmas [go_string] = skip_space_def skip_space_end_def ascii_spaces_def plain_char_def
  trim_space_def go_fields_def cut_prefix_def trim_prefix_def contains_any_def
  char_of_def bit_Suc_0_iff

lemma plain_no_blank: "plain s \<Longrightarrow> CHR '' '' \<notin> set s"
  and plain_no_newline: "plain s \<Longrightarrow> CHR ''\<newline>'' \<notin> set s"
  by (induction s) (auto simp: plain_char_def)

section \<open>Errors\<close>

text \<open>
  The sentinels the sources compare with errors.Is.  An error wrapped with
  fmt.Errorf and \<^verbatim>\<open>%w\<close> is represented by the sentinel it wraps; an error that
  wraps none is \<^verbatim>\<open>ErrOther\<close> with the reason it names.
\<close>

datatype err =
    ErrNotExist
  | ErrBackend
  | ErrMalformedSerial
  | ErrInventoryTampered
  | ErrDuplicateSerial
  | ErrCertExists
  | DuplicateCertError string string
  | ErrCertRevoked
  | ErrCertSuperseded
  | ErrNotInitialized
  | ErrForeignCertificate
  | ErrRenewalSubjectMismatch
  | ErrDisallowedSubjectAltNames
  | ErrDisallowedExtensions
  | ErrKeyPolicy
  | ErrNotFound
  | ErrNoCSR
  | ErrSubjectUnknown
  | ErrSerialUnknown
  | ErrSerialIsCurrent
  | ErrSerialStateUnknown
  | ErrForeignStoredCRL
  | ErrChainFileFault
  | ErrSigningBusy
  | ErrInternal
  | ErrNotAuthoritative
  | ErrReservedSubject
  | ErrInvalidDNSAltName
  | ErrImportInvalid
  | ErrSerialExists
  | ErrNoUsableCRL
  | CSRNotFound err \<comment> \<open>the request could not be read, and why\<close>
  | ErrOther string

text \<open>errors.Is: through a wrapper, and a superseded certificate is also a revoked one.\<close>

definition errors_is :: "err \<Rightarrow> err \<Rightarrow> bool" where
  "errors_is e target =
     (let cause = (case e of CSRNotFound c \<Rightarrow> c | _ \<Rightarrow> e) in
      e = target \<or> cause = target \<or> (cause = ErrCertSuperseded \<and> target = ErrCertRevoked))"

type_synonym 'a res = "err + 'a"

end
