(* ===== verification/Serial.thy ===== *)
theory Serial
  imports Prelude
begin

text \<open>
  Serial numbers as text (internal/storage/storage.go NormaliseSerial and
  inventorySerial, internal/ca/signing.go serialHexStr, internal/api/serial.go).
  big.Int values are \<^typ>\<open>int\<close>.  The lemmas show that the canonical text is read
  back to the number it was printed from, in every spelling the CA meets.
\<close>

section \<open>math/big text conversion in base 16\<close>

definition hex_val :: "char \<Rightarrow> nat option" where
  "hex_val c =
     (let n = of_char c in
      if 48 \<le> n \<and> n \<le> 57 then Some (n - 48)
      else if 65 \<le> n \<and> n \<le> 70 then Some (n - 55)
      else if 97 \<le> n \<and> n \<le> 102 then Some (n - 87)
      else None)"

fun hex_acc :: "nat \<Rightarrow> string \<Rightarrow> nat option" where
  "hex_acc a [] = Some a"
| "hex_acc a (c # s) =
     (case hex_val c of None \<Rightarrow> None | Some d \<Rightarrow> hex_acc (16 * a + d) s)"

definition hex_nat :: "string \<Rightarrow> nat option" where
  "hex_nat s = (if s = [] then None else hex_acc 0 s)"

text \<open>new(big.Int).SetString(s, 16): an optional sign, then at least one digit.\<close>

definition set_string16 :: "string \<Rightarrow> int option" where
  "set_string16 s =
     (case s of [] \<Rightarrow> None
      | c # r \<Rightarrow> (if c = CHR ''-'' then map_option (\<lambda>n. - int n) (hex_nat r)
                 else if c = CHR ''+'' then map_option int (hex_nat r)
                 else map_option int (hex_nat s)))"

definition hex_digit :: "nat \<Rightarrow> char" where
  "hex_digit d = (if d < 10 then char_of (48 + d) else char_of (55 + d))"

fun hex_text :: "nat \<Rightarrow> string" where
  "hex_text n = (if n < 16 then [hex_digit n] else hex_text (n div 16) @ [hex_digit (n mod 16)])"

declare hex_text.simps [simp del]

definition ascii_lower_char :: "char \<Rightarrow> char" where
  "ascii_lower_char c =
     (let n = (of_char c :: nat) in if 65 \<le> n \<and> n \<le> 90 then char_of (n + 32) else c)"

section \<open>The operations\<close>

definition serialHexStr :: "int \<Rightarrow> string" where
  "serialHexStr n = (if n < 0 then CHR ''-'' # hex_text (nat (- n)) else hex_text (nat n))"

definition NormaliseSerial :: "string \<Rightarrow> string res" where
  "NormaliseSerial serial =
     (let trimmed = trim_space serial;
          trimmed = (case cut_prefix trimmed ''0x'' of Some rest \<Rightarrow> rest
                     | None \<Rightarrow> (case cut_prefix trimmed ''0X'' of Some rest \<Rightarrow> rest
                               | None \<Rightarrow> trimmed))
      in case set_string16 trimmed of
           None \<Rightarrow> Inl ErrMalformedSerial
         | Some n \<Rightarrow> if trimmed = [] \<or> n < 0 then Inl ErrMalformedSerial
                     else Inr (hex_text (nat n)))"

definition inventorySerial :: "string \<Rightarrow> string" where
  "inventorySerial raw = (case NormaliseSerial raw of Inr n \<Rightarrow> n | Inl _ \<Rightarrow> raw)"

subsection \<open>The serial_number field of status responses\<close>

datatype SerialNumberFormat = SerialNumberAsNumber | SerialNumberAsHex

definition ParseSerialNumberFormat :: "string \<Rightarrow> SerialNumberFormat res" where
  "ParseSerialNumberFormat s =
     (let f = map ascii_lower_char (trim_space s) in
      if f = '''' then Inr SerialNumberAsNumber
      else if f = ''number'' then Inr SerialNumberAsNumber
      else if f = ''hex'' then Inr SerialNumberAsHex
      else Inl (ErrOther ''unknown serial number format''))"

text \<open>big.Int.Bytes: the big-endian bytes of the magnitude, empty for zero.\<close>

fun big_bytes :: "nat \<Rightarrow> nat list" where
  "big_bytes n = (if n = 0 then [] else big_bytes (n div 256) @ [n mod 256])"

declare big_bytes.simps [simp del]

definition hex_byte :: "nat \<Rightarrow> string" where
  "hex_byte b = [hex_digit (b div 16), hex_digit (b mod 16)]"

definition colonHex :: "int \<Rightarrow> string" where
  "colonHex n =
     (let b = big_bytes (nat \<bar>n\<bar>);
          b = (if b = [] then [0] else b);
          hex = join '':'' (map hex_byte b)
      in if n < 0 then CHR ''-'' # hex else hex)"

section \<open>Lemmas\<close>

lemma of_char_of_nat: "n < 256 \<Longrightarrow> of_char (char_of n :: char) = (n::nat)"
  by simp

lemma hex_val_digit: "d < 16 \<Longrightarrow> hex_val (hex_digit d) = Some d"
  by (auto simp: hex_val_def hex_digit_def Let_def)

lemma hex_val_lower: "hex_val c = Some d \<Longrightarrow> hex_val (ascii_lower_char c) = Some d"
  by (auto simp: hex_val_def ascii_lower_char_def Let_def split: if_splits)

lemma hex_digit_plain: "d < 16 \<Longrightarrow> plain_char (hex_digit d)"
  by (auto simp: hex_digit_def plain_char_def)

lemma hex_digit_lower_plain: "d < 16 \<Longrightarrow> plain_char (ascii_lower_char (hex_digit d))"
  by (auto simp: hex_digit_def plain_char_def ascii_lower_char_def Let_def)

lemma hex_acc_append:
  "hex_acc a (s @ t) = (case hex_acc a s of None \<Rightarrow> None | Some b \<Rightarrow> hex_acc b t)"
  by (induction s arbitrary: a) (auto split: option.splits)

lemma hex_text_nonempty [simp]: "hex_text n \<noteq> []"
  by (subst hex_text.simps) simp

lemma hex_acc_text: "hex_acc 0 (hex_text n) = Some n"
proof (induction n rule: hex_text.induct)
  case (1 n)
  then show ?case
    by (cases "n < 16") (simp_all add: hex_text.simps [of n] hex_acc_append hex_val_digit)
qed

lemma hex_acc_lower: "hex_acc a s = Some n \<Longrightarrow> hex_acc a (map ascii_lower_char s) = Some n"
  by (induction s arbitrary: a) (auto split: option.splits dest: hex_val_lower)

lemma hex_text_plain [simp]: "plain (hex_text n)"
  by (induction n rule: hex_text.induct)
    (subst hex_text.simps, auto simp: hex_digit_plain)

lemma hex_text_lower_plain [simp]: "plain (map ascii_lower_char (hex_text n))"
  by (induction n rule: hex_text.induct)
    (subst hex_text.simps, auto simp: hex_digit_lower_plain)

lemma hex_text_inject [simp]: "hex_text m = hex_text n \<longleftrightarrow> m = n"
  by (metis hex_acc_text option.inject)

lemma hex_text_no_minus: "hex_text n \<noteq> CHR ''-'' # s"
proof
  assume "hex_text n = CHR ''-'' # s"
  then have "hex_acc 0 (CHR ''-'' # s) = Some n" using hex_acc_text [of n] by simp
  then show False by (simp add: hex_val_def)
qed

lemma serialHexStr_inject [simp]: "serialHexStr m = serialHexStr n \<longleftrightarrow> m = n"
  using hex_text_no_minus hex_text_no_minus [THEN not_sym] by (auto simp: serialHexStr_def)

lemma zeros_value [simp]: "hex_acc 0 (replicate k CHR ''0'' @ s) = hex_acc 0 s"
proof (induction k)
  case (Suc k)
  have "hex_val CHR ''0'' = Some 0" by (simp add: hex_val_def)
  then show ?case using Suc by simp
qed simp

lemma zeros_plain [simp]: "plain (replicate k CHR ''0'')"
  by (induction k) (auto simp: plain_char_def)

text \<open>A text whose first character is a hexadecimal digit carries no sign.\<close>

lemma set_string16_digits:
  assumes "hex_acc 0 s = Some n" "s \<noteq> []"
  shows "set_string16 s = Some (int n)"
proof -
  obtain c r where s: "s = c # r" using assms by (cases s) auto
  have "hex_val c \<noteq> None" using assms s by (auto split: option.splits)
  then have "c \<noteq> CHR ''-''" "c \<noteq> CHR ''+''"
    by (auto simp: hex_val_def split: if_splits)
  then show ?thesis using assms s by (simp add: set_string16_def hex_nat_def)
qed

lemma digits_no_x:
  assumes "hex_acc 0 s = Some n"
  shows "cut_prefix s ''0x'' = None \<and> cut_prefix s ''0X'' = None"
proof -
  have "hex_val CHR ''x'' = None" "hex_val CHR ''X'' = None"
    by (simp_all add: hex_val_def)
  then have "hex_acc 0 (''0x'' @ r) = None" "hex_acc 0 (''0X'' @ r) = None" for r
    by (simp_all split: option.splits)
  then show ?thesis using assms by (metis cut_prefix_SomeD not_Some_eq)
qed

text \<open>Every way a serial is written: a prefix, zero padding, either letter case.\<close>

definition serial_spelling :: "string \<Rightarrow> nat \<Rightarrow> bool \<Rightarrow> int \<Rightarrow> string" where
  "serial_spelling p k lower n =
     p @ replicate k CHR ''0''
       @ (if lower then map ascii_lower_char (hex_text (nat n)) else hex_text (nat n))"

lemma spelling_digits:
  "hex_acc 0 (serial_spelling [] k lower n) = Some (nat n)"
  "plain (serial_spelling [] k lower n)" "serial_spelling [] k lower n \<noteq> []"
  by (auto simp: serial_spelling_def hex_acc_text hex_acc_lower)

lemma NormaliseSerial_digits:
  assumes "hex_acc 0 s = Some n" "plain s" "s \<noteq> []" "p \<in> {[], ''0x'', ''0X''}"
  shows "NormaliseSerial (p @ s) = Inr (hex_text n)"
proof -
  have px: "plain (p @ s)" using assms(2,4) by (auto simp: plain_char_def)
  have c1: "cut_prefix (''0X'' @ s) ''0x'' = None" by (simp add: cut_prefix_def)
  have c2: "cut_prefix (''0x'' @ s) ''0x'' = Some s" "cut_prefix (''0X'' @ s) ''0X'' = Some s"
    by (simp_all only: cut_prefix_append)
  show ?thesis
    using assms(4) px assms(3) set_string16_digits [OF assms(1,3)] digits_no_x [OF assms(1)] c1 c2
    by (auto simp: NormaliseSerial_def Let_def)
qed

lemma NormaliseSerial_canonical:
  assumes "NormaliseSerial s = Inr t"
  obtains n where "0 \<le> n" "t = serialHexStr n" "set_string16 t = Some n"
proof -
  from assms obtain m :: int where m: "0 \<le> m" "t = hex_text (nat m)"
    by (auto simp: NormaliseSerial_def Let_def not_less split: option.splits if_splits)
  then have "set_string16 t = Some m"
    using set_string16_digits [OF hex_acc_text [of "nat m"]] by simp
  then show ?thesis using m that [of m] by (simp add: serialHexStr_def)
qed

lemma NormaliseSerial_hexStr [simp]:
  "0 \<le> n \<Longrightarrow> NormaliseSerial (serialHexStr n) = Inr (serialHexStr n)"
  using NormaliseSerial_digits [OF hex_acc_text, of "nat n" "[]"]
  by (simp add: serialHexStr_def)

lemma NormaliseSerial_idem:
  "NormaliseSerial s = Inr t \<Longrightarrow> NormaliseSerial t = Inr t"
  by (erule NormaliseSerial_canonical) simp

lemma inventorySerial_hexStr [simp]:
  "0 \<le> n \<Longrightarrow> inventorySerial (serialHexStr n) = serialHexStr n"
  by (simp add: inventorySerial_def)

lemma set_string16_hexStr [simp]:
  assumes "0 \<le> n" shows "set_string16 (serialHexStr n) = Some n"
  using assms set_string16_digits [OF hex_acc_text [of "nat n"]] by (simp add: serialHexStr_def)

lemma serialHexStr_plain [simp]: "plain (serialHexStr n)" "serialHexStr n \<noteq> []"
  by (auto simp: serialHexStr_def plain_char_def)

lemma inventorySerial_nonempty: "s \<noteq> [] \<Longrightarrow> inventorySerial s \<noteq> []"
  by (auto simp: inventorySerial_def split: sum.splits elim!: NormaliseSerial_canonical)

section \<open>Properties\<close>

text \<open>
  C39.  Serial spellings.  A serial number written in upper or lower case, with any
  amount of zero padding and with no prefix or one 0x or 0X prefix, normalises to the
  text serialHexStr prints for the number, and that text is read back to the number.
\<close>

theorem serial_spellings_normalise:
  assumes "0 \<le> n" and "p \<in> {[], ''0x'', ''0X''}"
  shows "NormaliseSerial (serial_spelling p k lower n) = Inr (serialHexStr n)
         \<and> set_string16 (serialHexStr n) = Some n"
proof -
  have "NormaliseSerial (p @ serial_spelling [] k lower n) = Inr (hex_text (nat n))"
    using NormaliseSerial_digits [OF spelling_digits(1,2,3) assms(2)] .
  then show ?thesis using assms(1) set_string16_hexStr [of n] by (simp add: serial_spelling_def serialHexStr_def)
qed

theorem serial_spellings_normalise_witness:
  "NormaliseSerial ''0x00ff'' = Inr ''FF'' \<and> set_string16 ''FF'' = Some 255"
proof -
  have "serialHexStr 255 = ''FF''"
    by (simp add: serialHexStr_def hex_text.simps hex_digit_def go_string)
  moreover have "serial_spelling ''0x'' 2 True 255 = ''0x00ff''"
    by (simp add: serial_spelling_def hex_text.simps hex_digit_def ascii_lower_char_def go_string)
  ultimately show ?thesis
    using serial_spellings_normalise [of 255 "''0x''" 2 True] by simp
qed

end
