(* ===== verification/GoTime.thy ===== *)
theory GoTime
  imports Prelude
begin

text \<open>
  The parts of Go's time package the sources use.  A time.Time is an \<^typ>\<open>int\<close>, the
  nanoseconds since the Unix epoch; a time.Duration is an int64 count of
  nanoseconds, kept as an \<^typ>\<open>int\<close> with the wrap-around written out where the sources
  multiply.  The inventory layout \<^verbatim>\<open>2006-01-02T15:04:05UTC\<close> is formatted and parsed
  as Format and Parse do, and the parse reads back what the format printed.
\<close>

type_synonym gotime = int
type_synonym duration = int

definition wrap64 :: "int \<Rightarrow> int" where
  "wrap64 n = (n + 2 ^ 63) mod 2 ^ 64 - 2 ^ 63"

definition second :: duration where "second = 1000000000"
definition hour :: duration where "hour = 3600 * second"

text \<open>The zero time.Time, the first of January of the year 1.\<close>

definition zero_time :: gotime where "zero_time = - 62135596800 * second"

text \<open>Time.Sub saturates at the bounds of int64.\<close>

definition time_sub :: "gotime \<Rightarrow> gotime \<Rightarrow> duration" where
  "time_sub t u = max (- (2 ^ 63)) (min (2 ^ 63 - 1) (t - u))"

text \<open>X.509 times have a resolution of one second.\<close>

definition trunc_sec :: "gotime \<Rightarrow> gotime" where
  "trunc_sec t = (t div second) * second"

section \<open>The civil calendar\<close>

definition leap :: "int \<Rightarrow> bool" where
  "leap y = (y mod 4 = 0 \<and> (y mod 100 \<noteq> 0 \<or> y mod 400 = 0))"

definition year_len :: "int \<Rightarrow> int" where
  "year_len y = (if leap y then 366 else 365)"

definition month_lens :: "int \<Rightarrow> int list" where
  "month_lens y = [31, if leap y then 29 else 28, 31, 30, 31, 30, 31, 31, 30, 31, 30, 31]"

text \<open>Days from 1970-01-01 to the first of January of the year.\<close>

definition leaps_before :: "int \<Rightarrow> int" where
  "leaps_before y = (y - 1) div 4 - (y - 1) div 100 + (y - 1) div 400"

definition year_start :: "int \<Rightarrow> int" where
  "year_start y = 365 * (y - 1970) + leaps_before y - leaps_before 1970"

lemma year_len_bounds: "365 \<le> year_len y" "year_len y \<le> 366"
  by (auto simp: year_len_def)

function year_day :: "int \<Rightarrow> int \<Rightarrow> int \<times> int" where
  "year_day d y =
     (if d < 0 then year_day (d + year_len (y - 1)) (y - 1)
      else if year_len y \<le> d then year_day (d - year_len y) (y + 1)
      else (y, d))"
  by pat_completeness auto
termination
  by (relation "measure (\<lambda>(d, y). if d < 0 then nat (- d) + 366 else nat d)")
    (auto simp: year_len_def split: if_splits)

declare year_day.simps [simp del]

fun month_day :: "int list \<Rightarrow> int \<Rightarrow> nat \<Rightarrow> nat \<times> int" where
  "month_day [] d m = (m, d)"
| "month_day (l # ls) d m = (if d < l then (m, d) else month_day ls (d - l) (Suc m))"

section \<open>Digits\<close>

definition digit :: "nat \<Rightarrow> char" where
  "digit d = char_of (48 + d)"

definition digit_val :: "char \<Rightarrow> nat option" where
  "digit_val c = (let n = of_char c in if 48 \<le> n \<and> n \<le> 57 then Some (n - 48) else None)"

text \<open>Zero-padded decimal with at least the given width.\<close>

fun dec_digits :: "nat \<Rightarrow> string" where
  "dec_digits n = (if n = 0 then [] else dec_digits (n div 10) @ [digit (n mod 10)])"

declare dec_digits.simps [simp del]

fun pad :: "nat \<Rightarrow> nat \<Rightarrow> string" where
  "pad 0 n = dec_digits n"
| "pad (Suc w) n = pad w (n div 10) @ [digit (n mod 10)]"

definition year_text :: "int \<Rightarrow> string" where
  "year_text y = (if y < 0 then CHR ''-'' # pad 4 (nat (- y)) else pad 4 (nat y))"

section \<open>Format and Parse in the inventory layout\<close>

definition format_time :: "gotime \<Rightarrow> string" where
  "format_time t =
     (let s = t div second; d = s div 86400; r = nat (s mod 86400);
          (y, yd) = year_day d 1970; (m, md) = month_day (month_lens y) yd 1
      in year_text y @ ''-'' @ pad 2 m @ ''-'' @ pad 2 (nat md + 1) @ ''T''
         @ pad 2 (r div 3600) @ '':'' @ pad 2 (r div 60 mod 60) @ '':'' @ pad 2 (r mod 60)
         @ ''UTC'')"

text \<open>getnum of package time: one or two digits, exactly two when fixed.\<close>

definition getnum :: "bool \<Rightarrow> string \<Rightarrow> (nat \<times> string) option" where
  "getnum fixed s =
     (case s of [] \<Rightarrow> None
      | a # r \<Rightarrow> (case digit_val a of None \<Rightarrow> None
        | Some x \<Rightarrow> (case r of [] \<Rightarrow> (if fixed then None else Some (x, r))
          | b # r' \<Rightarrow> (case digit_val b of Some z \<Rightarrow> Some (10 * x + z, r')
                      | None \<Rightarrow> if fixed then None else Some (x, r)))))"

definition get_year :: "string \<Rightarrow> (int \<times> string) option" where
  "get_year s =
     (case getnum True s of None \<Rightarrow> None
      | Some (a, r) \<Rightarrow> (case getnum True r of None \<Rightarrow> None
        | Some (b, r') \<Rightarrow> Some (int (100 * a + b), r')))"

text \<open>A fraction after the seconds is accepted although the layout has none.\<close>

definition frac :: "string \<Rightarrow> nat \<times> string" where
  "frac s =
     (case s of c # d # r \<Rightarrow>
        (if (c = CHR ''.'' \<or> c = CHR '','') \<and> digit_val d \<noteq> None
         then (let ds = takeWhile (\<lambda>c. digit_val c \<noteq> None) (d # r);
                   v = foldl (\<lambda>a c. 10 * a + the (digit_val c)) 0 (take 9 ds)
               in (v * 10 ^ (9 - length (take 9 ds)),
                   dropWhile (\<lambda>c. digit_val c \<noteq> None) (d # r)))
         else (0, s))
      | _ \<Rightarrow> (0, s))"

definition civil_time :: "int \<Rightarrow> nat \<Rightarrow> nat \<Rightarrow> nat \<Rightarrow> nat \<Rightarrow> nat \<Rightarrow> nat \<Rightarrow> gotime" where
  "civil_time y m d h mi s ns =
     ((year_start y + sum_list (take (m - 1) (month_lens y)) + int d - 1) * 86400
      + int (3600 * h + 60 * mi + s)) * second + int ns"

definition parse_time :: "string \<Rightarrow> gotime option" where
  "parse_time v =
     Option.bind (get_year v) (\<lambda>(y, v).
     Option.bind (cut_prefix v ''-'') (\<lambda>v.
     Option.bind (getnum True v) (\<lambda>(m, v).
     Option.bind (cut_prefix v ''-'') (\<lambda>v.
     Option.bind (getnum True v) (\<lambda>(d, v).
     Option.bind (cut_prefix v ''T'') (\<lambda>v.
     Option.bind (getnum False v) (\<lambda>(h, v).
     Option.bind (cut_prefix v '':'') (\<lambda>v.
     Option.bind (getnum True v) (\<lambda>(mi, v).
     Option.bind (cut_prefix v '':'') (\<lambda>v.
     Option.bind (getnum True v) (\<lambda>(s, v).
     let (ns, v) = frac v in
     if 1 \<le> m \<and> m \<le> 12 \<and> h < 24 \<and> mi < 60 \<and> s < 60 \<and> v = ''UTC''
        \<and> 1 \<le> d \<and> int d \<le> month_lens y ! (m - 1)
     then Some (civil_time y m d h mi s ns) else None)))))))))))"

section \<open>Lemmas\<close>

lemma div_step:
  fixes y k :: int assumes "0 < k"
  shows "y div k = (y - 1) div k + (if y mod k = 0 then 1 else 0)"
proof (cases "y mod k = 0")
  case True
  then obtain q where q: "y = k * q" by (metis mod_0_imp_dvd dvd_def)
  have "(k * q - 1) div k = q - 1"
    by (rule int_div_pos_eq [where r = "k - 1"]) (use assms in \<open>auto simp: algebra_simps\<close>)
  then show ?thesis using True q assms by simp
next
  case False
  then have "0 < y mod k" using assms by (simp add: order_less_le)
  moreover have "y mod k < k" using assms by simp
  ultimately have "(y - 1) div k = y div k"
    by (intro int_div_pos_eq [where r = "y mod k - 1"]) simp_all
  then show ?thesis using False by simp
qed

lemma leap_nested:
  "y mod 400 = 0 \<Longrightarrow> y mod 100 = 0" "y mod 100 = 0 \<Longrightarrow> y mod 4 = 0" for y :: int
  using mod_mod_cancel [of 100 400 y] mod_mod_cancel [of 4 100 y] by simp_all

lemma leap_count:
  "\<lbrakk>Q \<Longrightarrow> P; R \<Longrightarrow> Q\<rbrakk> \<Longrightarrow> x + (if P then 1 else 0) - (if Q then 1 else 0) + (if R then 1 else 0)
     = x + (if P \<and> (\<not> Q \<or> R) then 1 else (0::int))"
  by auto

lemma year_start_Suc: "year_start (y + 1) = year_start y + year_len y"
proof -
  have "leaps_before (y + 1) = leaps_before y + (if y mod 4 = 0 then 1 else 0)
      - (if y mod 100 = 0 then 1 else 0) + (if y mod 400 = 0 then 1 else 0)"
    unfolding leaps_before_def add_diff_cancel_right'
    by (subst div_step [of 4 y], simp, subst div_step [of 100 y], simp, subst div_step [of 400 y], simp)
      (simp only: algebra_simps)
  then have "leaps_before (y + 1) = leaps_before y + (if leap y then 1 else 0)"
    unfolding leap_def by (simp only: leap_count [OF leap_nested(2,1)])
  then show ?thesis
    unfolding year_start_def year_len_def by (cases "leap y") simp_all
qed

lemma year_start_1970: "year_start 1970 = 0"
  by (simp add: year_start_def)

lemma year_day_spec:
  "year_day d y = (y', d') \<Longrightarrow> year_start y' + d' = year_start y + d \<and> 0 \<le> d' \<and> d' < year_len y'"
proof (induction d y arbitrary: y' d' rule: year_day.induct)
  case (1 d y)
  consider "d < 0" | "0 \<le> d" "year_len y \<le> d" | "0 \<le> d" "d < year_len y" by linarith
  then show ?case
  proof cases
    case 1
    then show ?thesis
      using "1.IH"(1) [OF 1] "1.prems" year_start_Suc [of "y - 1"] by (simp add: year_day.simps [of d])
  next
    case 2
    then show ?thesis
      using "1.IH"(2) [of y' d'] "1.prems" year_start_Suc [of y] by (simp add: year_day.simps [of d])
  next
    case 3
    then show ?thesis using "1.prems" by (simp add: year_day.simps [of d])
  qed
qed

lemma month_day_spec:
  assumes "month_day ls d m = (m', d')" "0 \<le> d" "d < sum_list ls"
  shows "m \<le> m' \<and> m' - m < length ls \<and> 0 \<le> d' \<and> d' < ls ! (m' - m)
         \<and> sum_list (take (m' - m) ls) + d' = d"
  using assms
proof (induction ls d m rule: month_day.induct)
  case (2 l ls d m)
  then show ?case
    by (cases "d < l") (auto simp: Suc_diff_le Suc_le_eq nth_Cons' take_Cons' diff_diff_left
        split: if_splits)
qed simp

lemma month_lens_sum: "sum_list (month_lens y) = year_len y"
  by (simp add: month_lens_def year_len_def)

lemma month_lens_length: "length (month_lens y) = 12"
  by (simp add: month_lens_def)

lemma month_lens_bound: "l \<in> set (month_lens y) \<Longrightarrow> l \<le> 31"
  by (auto simp: month_lens_def split: if_splits)

lemma digit_val_digit [simp]: "d < 10 \<Longrightarrow> digit_val (digit d) = Some d"
  by (simp add: digit_val_def digit_def Let_def)

lemma dec_digits_0 [simp]: "dec_digits 0 = []"
  by (simp add: dec_digits.simps [of 0])

lemma pad2: "n < 100 \<Longrightarrow> pad 2 n = [digit (n div 10), digit (n mod 10)]"
  by (simp add: numeral_2_eq_2 div_mult2_eq [symmetric])

lemma getnum_pad [simp]: "n < 100 \<Longrightarrow> getnum f (pad 2 n @ s) = Some (n, s)"
  by (simp add: pad2 getnum_def)

lemma pad4: "pad 4 n = pad 2 (n div 100) @ pad 2 (n mod 100)" if "n < 10000"
proof -
  have m: "n mod 100 = 10 * (n div 10 mod 10) + n mod 10"
    using mod_mult2_eq [of n 10 10] by simp
  have "n mod 100 div 10 = n div 10 mod 10" "n mod 100 mod 10 = n mod 10"
    unfolding m by simp_all
  then have "pad 2 (n mod 100) = [digit (n div 10 mod 10), digit (n mod 10)]"
    by (simp add: pad2)
  moreover have "pad 4 n = pad 2 (n div 10 div 10) @ [digit (n div 10 mod 10), digit (n mod 10)]"
    using pad.simps(2) [of 3 n] pad.simps(2) [of 2 "n div 10"] by simp
  ultimately show ?thesis by (simp add: div_mult2_eq [symmetric])
qed

lemma get_year_text:
  assumes "0 \<le> y" "y < 10000"
  shows "get_year (year_text y @ s) = Some (y, s)"
proof -
  obtain n where y: "y = int n" using assms(1) nonneg_int_cases by blast
  then have n: "n < 10000" using assms(2) by simp
  then have "n div 100 < 100" "n mod 100 < 100" by auto
  then have "get_year (pad 4 n @ s) = Some (int (100 * (n div 100) + n mod 100), s)"
    by (simp only: pad4 [OF n] get_year_def append_assoc getnum_pad option.case prod.case)
  then show ?thesis by (simp add: year_text_def y del: of_nat_add of_nat_mult)
qed

lemma frac_UTC [simp]: "frac ''UTC'' = (0, ''UTC'')"
  by (simp add: frac_def)

lemma cut_sep [simp]: "cut_prefix (c # s) [c] = Some s"
  using cut_prefix_append [of "[c]" s] by simp

text \<open>The civil fields format_time prints.\<close>

lemma format_fields:
  assumes "year_day (t div second div 86400) 1970 = (y, yd)"
  obtains m d where
    "format_time t = year_text y @ ''-'' @ pad 2 m @ ''-'' @ pad 2 d @ ''T''
       @ pad 2 (nat (t div second mod 86400) div 3600) @ '':''
       @ pad 2 (nat (t div second mod 86400) div 60 mod 60) @ '':''
       @ pad 2 (nat (t div second mod 86400) mod 60) @ ''UTC''"
    "1 \<le> m" "m \<le> 12" "1 \<le> d" "int d \<le> month_lens y ! (m - 1)" "d \<le> 31"
    "year_start y + sum_list (take (m - 1) (month_lens y)) + int d - 1 = t div second div 86400"
proof -
  obtain m md where md: "month_day (month_lens y) yd 1 = (m, md)" by fastforce
  have yd: "year_start y + yd = t div second div 86400" "0 \<le> yd" "yd < year_len y"
    using year_day_spec [OF assms] year_start_1970 by auto
  have *: "1 \<le> m" "m - 1 < 12" "0 \<le> md" "md < month_lens y ! (m - 1)"
      "sum_list (take (m - 1) (month_lens y)) + md = yd"
    using month_day_spec [OF md yd(2)] yd(3) by (auto simp: month_lens_sum month_lens_length)
  have "month_lens y ! (m - 1) \<le> 31"
    using *(2) by (intro month_lens_bound [of _ y] nth_mem) (simp add: month_lens_length)
  then have "nat md + 1 \<le> 31" "int (nat md + 1) \<le> month_lens y ! (m - 1)"
    using *(3,4) by auto
  moreover have "m \<le> 12" using *(1,2) by simp
  moreover have "year_start y + sum_list (take (m - 1) (month_lens y)) + int (nat md + 1) - 1
      = t div second div 86400" using yd(1) *(3,5) by simp
  ultimately show ?thesis
    using that [of m "nat md + 1"] *(1)
    unfolding format_time_def Let_def assms md prod.case by simp
qed

lemma time_of_day:
  fixes r :: nat assumes "r < 86400"
  shows "r div 3600 < 24" "3600 * (r div 3600) + 60 * (r div 60 mod 60) + r mod 60 = r"
proof -
  show "r div 3600 < 24" using assms by (simp add: div_less_iff_less_mult)
  have "r div 3600 = r div 60 div 60" by (simp add: div_mult2_eq [symmetric])
  then show "3600 * (r div 3600) + 60 * (r div 60 mod 60) + r mod 60 = r"
    using div_mult_mod_eq [of "r div 60" 60] div_mult_mod_eq [of r 60] by linarith
qed

lemma parse_format_time:
  assumes "year_day (t div second div 86400) 1970 = (y, yd)" "0 \<le> y" "y < 10000"
  shows "parse_time (format_time t) = Some (trunc_sec t)"
proof -
  obtain m d where f: "format_time t = year_text y @ ''-'' @ pad 2 m @ ''-'' @ pad 2 d @ ''T''
       @ pad 2 (nat (t div second mod 86400) div 3600) @ '':''
       @ pad 2 (nat (t div second mod 86400) div 60 mod 60) @ '':''
       @ pad 2 (nat (t div second mod 86400) mod 60) @ ''UTC''"
    and b: "1 \<le> m" "m \<le> 12" "1 \<le> d" "int d \<le> month_lens y ! (m - 1)" "d \<le> 31"
    and days: "year_start y + sum_list (take (m - 1) (month_lens y)) + int d - 1 = t div second div 86400"
    using format_fields [OF assms(1)] by blast
  define r where "r = nat (t div second mod 86400)"
  have r: "r < 86400" "int r = t div second mod 86400"
    unfolding r_def by (simp_all add: nat_less_iff)
  note tod = time_of_day [OF r(1)]
  have "civil_time y m d (r div 3600) (r div 60 mod 60) (r mod 60) 0
      = (t div second div 86400 * 86400 + int r) * second"
    unfolding civil_time_def days tod(2) by simp
  also have "\<dots> = trunc_sec t"
    unfolding r(2) trunc_sec_def by (simp only: div_mult_mod_eq)
  finally have c: "civil_time y m d (r div 3600) (r div 60 mod 60) (r mod 60) 0 = trunc_sec t" .
  have lt: "m < 100" "d < 100" "r div 3600 < 100" "r div 60 mod 60 < 100" "r mod 60 < 100"
    using b tod(1) by (auto intro: order.strict_trans [OF mod_less_divisor])
  show ?thesis
    using b tod(1) c lt unfolding f r_def [symmetric] parse_time_def get_year_text [OF assms(2,3)]
    by simp
qed

lemma time_text_plain: "plain (pad w n)"
proof (induction w arbitrary: n)
  case 0
  show ?case
    by (induction n rule: dec_digits.induct, subst pad.simps, subst dec_digits.simps)
      (auto simp: digit_def plain_char_def)
qed (auto simp: digit_def plain_char_def)

lemma format_time_plain [simp]: "plain (format_time t)" "format_time t \<noteq> []"
  by (auto simp: format_time_def year_text_def time_text_plain plain_char_def Let_def
      split: prod.splits)

end
