(* ===== verification/Inventory.thy ===== *)
theory Inventory
  imports Serial GoTime
begin

text \<open>
  The inventory of issued certificates, in the two forms storage keeps it
  (internal/storage/storage.go and internal/storage/sql_inventory.go).  A blob
  backend keeps inventory.txt, which it shares with OpenVox Server; a structured
  backend keeps one row per certificate, in a table ordered by row id.  The
  keyed hash, HMAC-SHA256, is the parameter \<^verbatim>\<open>hm\<close> of the definitions that use it.
  Faults of the backend are added by the theory Storage; the functions here are
  what a call that reaches the backend computes.
\<close>

section \<open>Entries and their text\<close>

record InventoryEntry =
  ieSerial :: string
  ieNotBefore :: string
  ieNotAfter :: string
  ieSubject :: string

definition canonicalInventoryLine :: "InventoryEntry \<Rightarrow> string" where
  "canonicalInventoryLine e =
     ieSerial e @ '' '' @ ieNotBefore e @ '' '' @ ieNotAfter e @ '' /'' @ ieSubject e"

definition FormatInventoryLine :: "string \<Rightarrow> gotime \<Rightarrow> gotime \<Rightarrow> string \<Rightarrow> string" where
  "FormatInventoryLine serial notBefore notAfter subject =
     canonicalInventoryLine \<lparr>ieSerial = serial, ieNotBefore = format_time notBefore,
       ieNotAfter = format_time notAfter, ieSubject = subject\<rparr>"

definition parseInventoryEntry :: "string \<Rightarrow> InventoryEntry option" where
  "parseInventoryEntry line =
     (case go_fields line of
        s # nb # na # subj0 # rest \<Rightarrow>
          Some \<lparr>ieSerial = s, ieNotBefore = nb, ieNotAfter = na,
                ieSubject = trim_prefix (join '' '' (subj0 # rest)) ''/''\<rparr>
      | _ \<Rightarrow> None)"

definition inventorySubject :: "string \<Rightarrow> string" where
  "inventorySubject subject =
     (case cut_prefix subject ''CN='' of
        Some cn \<Rightarrow> if cn \<noteq> [] \<and> \<not> contains_any cn ('',+=/'' @ [CHR 0x5C] @ '' '') then cn else subject
      | None \<Rightarrow> subject)"

definition parseBlobInventoryEntry :: "string \<Rightarrow> InventoryEntry option" where
  "parseBlobInventoryEntry line =
     (case parseInventoryEntry line of None \<Rightarrow> None
      | Some e \<Rightarrow> Some (e\<lparr>ieSerial := inventorySerial (ieSerial e),
                         ieSubject := inventorySubject (ieSubject e)\<rparr>))"

text \<open>Sprintf of a big integer with verb \<^verbatim>\<open>%04X\<close>: the sign counts in the width.\<close>

definition hex04 :: "int \<Rightarrow> string" where
  "hex04 n =
     (let d = hex_text (nat \<bar>n\<bar>); sign = (if n < 0 then ''-'' else []) in
      sign @ replicate (4 - length sign - length d) CHR ''0'' @ d)"

definition openVoxInventoryLine :: "InventoryEntry \<Rightarrow> string \<Rightarrow> string" where
  "openVoxInventoryLine e raw =
     (case set_string16 (inventorySerial (ieSerial e)) of
        None \<Rightarrow> raw
      | Some n \<Rightarrow>
          (let subject = (if contains (ieSubject e) ''='' then ieSubject e
                          else ''CN='' @ ieSubject e) in
           ''0x'' @ hex04 n @ '' '' @ ieNotBefore e @ '' '' @ ieNotAfter e @ '' /'' @ subject))"

section \<open>The blob form\<close>

abbreviation nl :: char where "nl \<equiv> CHR 0x0A"

definition parseInventoryBlobCounting :: "bytes \<Rightarrow> InventoryEntry list \<times> nat" where
  "parseInventoryBlobCounting data =
     foldl (\<lambda>(entries, unparseable) line.
              if trim_space line = [] then (entries, unparseable)
              else (case parseBlobInventoryEntry line of
                      Some e \<Rightarrow> (entries @ [e], unparseable)
                    | None \<Rightarrow> (entries, Suc unparseable)))
       ([], 0) (split_on nl data)"

definition parseInventoryBlob :: "bytes \<Rightarrow> InventoryEntry list" where
  "parseInventoryBlob data = fst (parseInventoryBlobCounting data)"

definition latestSerialFromBlob :: "bytes \<Rightarrow> string \<Rightarrow> string res" where
  "latestSerialFromBlob data subject =
     (let last = foldl (\<lambda>last line.
                   if trim_space line = [] then last
                   else (case parseBlobInventoryEntry line of None \<Rightarrow> last
                         | Some e \<Rightarrow> if ieSubject e = subject then ieSerial e else last))
                 [] (split_on nl data)
      in if last = [] then Inl ErrNotExist else Inr last)"

text \<open>The duplicate scan of AppendInventoryRecord, and the line it appends.\<close>

definition blobHasSerial :: "bytes \<Rightarrow> string \<Rightarrow> bool" where
  "blobHasSerial data want =
     list_ex (\<lambda>line. trim_space line \<noteq> [] \<and>
        (case parseBlobInventoryEntry line of Some e \<Rightarrow> ieSerial e = want | None \<Rightarrow> False))
       (split_on nl data)"

definition appendInventoryBlob :: "InventoryEntry \<Rightarrow> string \<Rightarrow> bytes \<Rightarrow> bytes res" where
  "appendInventoryBlob parsed entry data =
     (if blobHasSerial data (inventorySerial (ieSerial parsed)) then Inl ErrDuplicateSerial
      else Inr (data @ openVoxInventoryLine parsed entry @ [nl]))"

text \<open>strings.SplitAfter with a newline, and the rewriting loop of PruneInventory.\<close>

fun split_after :: "char \<Rightarrow> string \<Rightarrow> string list" where
  "split_after d [] = [[]]"
| "split_after d (c # s) =
     (if c = d then [c] # split_after d s
      else (case split_after d s of [] \<Rightarrow> [[c]] | x # xs \<Rightarrow> (c # x) # xs))"

fun pruneLines :: "(InventoryEntry \<Rightarrow> bool) \<Rightarrow> string list \<Rightarrow> bytes \<times> InventoryEntry list" where
  "pruneLines keep [] = ([], [])"
| "pruneLines keep (line # lines) =
     (let (buf, removed) = pruneLines keep lines in
      case parseBlobInventoryEntry line of
        Some e \<Rightarrow> if \<not> keep e then (buf, e # removed) else (line @ buf, removed)
      | None \<Rightarrow> (line @ buf, removed))"

definition pruneInventoryBlob ::
    "(InventoryEntry \<Rightarrow> bool) \<Rightarrow> bytes \<Rightarrow> bytes \<times> InventoryEntry list" where
  "pruneInventoryBlob keep data = pruneLines keep (split_after nl data)"

section \<open>The structured form\<close>

datatype CertState = CertStateSigned | CertStateRevoked

record sqlInventoryRow =
  rowEntry :: InventoryEntry
  rowState :: CertState
  rowRevokedAt :: "gotime option"

record invTable =
  tblRows :: "sqlInventoryRow list"
  tblHead :: "bytes option"

definition inventoryRowFromEntry :: "InventoryEntry \<Rightarrow> sqlInventoryRow" where
  "inventoryRowFromEntry e = \<lparr>rowEntry = e, rowState = CertStateSigned, rowRevokedAt = None\<rparr>"

definition tblEntries :: "invTable \<Rightarrow> InventoryEntry list" where
  "tblEntries t = map rowEntry (tblRows t)"

text \<open>A committed transaction; the serial column has a unique index.\<close>

definition appendEntryOnce ::
    "InventoryEntry \<Rightarrow> (bytes \<Rightarrow> bytes) option \<Rightarrow> invTable \<Rightarrow> invTable res" where
  "appendEntryOnce e newHead t =
     (if ieSerial e \<in> set (map ieSerial (tblEntries t)) then Inl ErrDuplicateSerial
      else Inr \<lparr>tblRows = tblRows t @ [inventoryRowFromEntry e],
                tblHead = (case newHead of None \<Rightarrow> tblHead t
                  | Some f \<Rightarrow> Some (f (case tblHead t of None \<Rightarrow> [] | Some h \<Rightarrow> h)))\<rparr>)"

definition tblLatestSerialForSubject :: "string \<Rightarrow> invTable \<Rightarrow> string res" where
  "tblLatestSerialForSubject subject t =
     (case find (\<lambda>e. ieSubject e = subject) (rev (tblEntries t)) of
        None \<Rightarrow> Inl ErrNotExist | Some e \<Rightarrow> Inr (ieSerial e))"

definition pruneEntriesOnce ::
    "(InventoryEntry \<Rightarrow> bool) \<Rightarrow> (bytes \<Rightarrow> InventoryEntry \<Rightarrow> bytes) option \<Rightarrow> invTable
      \<Rightarrow> invTable \<times> InventoryEntry list" where
  "pruneEntriesOnce keep advanceHead t =
     (let survivors = filter keep (tblEntries t);
          removed = filter (\<lambda>e. \<not> keep e) (tblEntries t)
      in if removed = [] then (t, [])
         else (\<lparr>tblRows = filter (\<lambda>r. keep (rowEntry r)) (tblRows t),
                tblHead = (case advanceHead of None \<Rightarrow> tblHead t
                  | Some f \<Rightarrow> Some (foldl f [] survivors))\<rparr>, removed))"

definition tblSetRevoked :: "string \<Rightarrow> gotime \<Rightarrow> invTable \<Rightarrow> invTable" where
  "tblSetRevoked serial at t =
     t\<lparr>tblRows := map (\<lambda>r. if ieSerial (rowEntry r) = serial \<and> rowState r \<noteq> CertStateRevoked
                           then r\<lparr>rowState := CertStateRevoked, rowRevokedAt := Some at\<rparr> else r)
                     (tblRows t)\<rparr>"

definition tblClearRevoked :: "string \<Rightarrow> invTable \<Rightarrow> invTable" where
  "tblClearRevoked serial t =
     t\<lparr>tblRows := map (\<lambda>r. if ieSerial (rowEntry r) = serial
                           then r\<lparr>rowState := CertStateSigned, rowRevokedAt := None\<rparr> else r)
                     (tblRows t)\<rparr>"

section \<open>Integrity values\<close>

definition wholeBlobInventoryMAC :: "(bytes \<Rightarrow> bytes \<Rightarrow> bytes) \<Rightarrow> bytes \<Rightarrow> bytes \<Rightarrow> bytes" where
  "wholeBlobInventoryMAC hm key blob = hm key blob"

definition chainInventoryMAC ::
    "(bytes \<Rightarrow> bytes \<Rightarrow> bytes) \<Rightarrow> bytes \<Rightarrow> bytes \<Rightarrow> string \<Rightarrow> bytes" where
  "chainInventoryMAC hm key prev line = hm key (prev @ line)"

definition foldInventoryHead ::
    "(bytes \<Rightarrow> bytes \<Rightarrow> bytes) \<Rightarrow> bytes \<Rightarrow> InventoryEntry list \<Rightarrow> bytes \<Rightarrow> bool \<Rightarrow> bytes" where
  "foldInventoryHead hm key entries blob chained =
     (if \<not> chained then wholeBlobInventoryMAC hm key blob
      else foldl (\<lambda>head e. chainInventoryMAC hm key head (canonicalInventoryLine e)) [] entries)"

section \<open>Lemmas on the text\<close>

text \<open>An entry as issuance writes it.\<close>

definition entryOk :: "InventoryEntry \<Rightarrow> bool" where
  "entryOk e =
     (NormaliseSerial (ieSerial e) = Inr (ieSerial e)
      \<and> plain (ieNotBefore e) \<and> ieNotBefore e \<noteq> [] \<and> plain (ieNotAfter e) \<and> ieNotAfter e \<noteq> []
      \<and> plain (ieSubject e) \<and> ieSubject e \<noteq> []
      \<and> \<not> contains_any (ieSubject e) ('',+=/'' @ [CHR 0x5C] @ '' ''))"

lemma parse_four:
  assumes "plain s" "s \<noteq> []" "plain nb" "nb \<noteq> []" "plain na" "na \<noteq> []" "plain subj"
  shows "parseInventoryEntry (s @ '' '' @ nb @ '' '' @ na @ '' /'' @ subj)
         = Some \<lparr>ieSerial = s, ieNotBefore = nb, ieNotAfter = na, ieSubject = subj\<rparr>"
proof -
  have "plain (CHR ''/'' # subj)" using assms by (simp add: plain_char_def)
  then have "go_fields (s @ '' '' @ nb @ '' '' @ na @ '' '' @ (CHR ''/'' # subj))
      = [s, nb, na, CHR ''/'' # subj]"
    using assms by (simp add: go_fields_token_blank go_fields_token)
  then show ?thesis by (simp add: parseInventoryEntry_def)
qed

lemma entryOk_serial:
  assumes "entryOk e"
  obtains n where "0 \<le> n" "ieSerial e = serialHexStr n"
proof -
  have "NormaliseSerial (ieSerial e) = Inr (ieSerial e)" using assms by (simp add: entryOk_def)
  then show ?thesis using that by (metis NormaliseSerial_canonical)
qed

lemma entryOk_plain:
  assumes "entryOk e"
  shows "plain (ieSerial e)" "ieSerial e \<noteq> []" "plain (ieNotBefore e)" "ieNotBefore e \<noteq> []"
    "plain (ieNotAfter e)" "ieNotAfter e \<noteq> []" "plain (ieSubject e)" "ieSubject e \<noteq> []"
proof -
  obtain n where "ieSerial e = serialHexStr n" using entryOk_serial [OF assms] .
  then show "plain (ieSerial e)" "ieSerial e \<noteq> []" by simp_all
qed (use assms in \<open>simp_all add: entryOk_def\<close>)

lemma parse_canonical:
  assumes "entryOk e" shows "parseInventoryEntry (canonicalInventoryLine e) = Some e"
  using parse_four [OF entryOk_plain(1-7) [OF assms]] by (simp add: canonicalInventoryLine_def)

lemma canonical_inject:
  assumes "entryOk e" "entryOk e'" "canonicalInventoryLine e = canonicalInventoryLine e'"
  shows "e = e'"
  using assms parse_canonical by (metis option.inject)

lemma no_eq_contains: "CHR ''='' \<notin> set s \<Longrightarrow> \<not> contains s ''=''"
  by (auto simp: contains_iff_sublist sublist_def)

lemma inventorySubject_CN:
  "s \<noteq> [] \<Longrightarrow> \<not> contains_any s ('',+=/'' @ [CHR 0x5C] @ '' '') \<Longrightarrow>
   inventorySubject (''CN='' @ s) = s"
  unfolding inventorySubject_def by (simp only: cut_prefix_append option.case if_True simp_thms)

lemma inventorySubject_plain:
  assumes "CHR ''='' \<notin> set s" shows "inventorySubject s = s"
  using assms by (auto simp: inventorySubject_def split: option.splits dest!: cut_prefix_SomeD)

lemma hex04_spelling:
  "0 \<le> n \<Longrightarrow> ''0x'' @ hex04 n = serial_spelling ''0x'' (4 - length (hex_text (nat n))) False n"
  by (simp add: hex04_def serial_spelling_def Let_def)

lemma hex04_plain: "0 \<le> n \<Longrightarrow> plain (''0x'' @ hex04 n)"
  by (simp add: hex04_def plain_char_def Let_def)

lemma inventorySerial_hex04:
  assumes "0 \<le> n" shows "inventorySerial (''0x'' @ hex04 n) = serialHexStr n"
proof -
  have "NormaliseSerial (''0x'' @ hex04 n) = Inr (hex_text (nat n))"
    unfolding hex04_spelling [OF assms]
    using NormaliseSerial_digits [OF spelling_digits, of "''0x''" _ False n]
    by (simp add: serial_spelling_def)
  then show ?thesis using assms by (simp add: inventorySerial_def serialHexStr_def)
qed

lemma parse_openVox:
  assumes "entryOk e" shows "parseBlobInventoryEntry (openVoxInventoryLine e raw) = Some e"
proof -
  obtain n where n: "0 \<le> n" "ieSerial e = serialHexStr n" using entryOk_serial [OF assms] .
  have subj: "\<not> contains_any (ieSubject e) ('',+=/'' @ [CHR 0x5C] @ '' '')"
    using assms by (simp add: entryOk_def)
  then have "\<not> contains (ieSubject e) ''=''"
    by (intro no_eq_contains) (auto simp: contains_any_def)
  then have l: "openVoxInventoryLine e raw = (''0x'' @ hex04 n) @ '' '' @ ieNotBefore e @ '' ''
      @ ieNotAfter e @ '' /'' @ (''CN='' @ ieSubject e)"
    using n by (simp add: openVoxInventoryLine_def)
  have p: "plain (''CN='' @ ieSubject e)" using entryOk_plain [OF assms] by (simp add: plain_char_def)
  have ne: "''0x'' @ hex04 n \<noteq> []" by simp
  show ?thesis
    unfolding l parseBlobInventoryEntry_def
      parse_four [OF hex04_plain [OF n(1)] ne entryOk_plain(3-6) [OF assms] p] option.case
    using inventorySerial_hex04 [OF n(1)] inventorySubject_CN [OF entryOk_plain(8) [OF assms] subj] n(2)
    by simp
qed

lemma parse_blank: "trim_space line = [] \<Longrightarrow> parseBlobInventoryEntry line = None"
  using blank_fields [of line] by (simp add: parseBlobInventoryEntry_def parseInventoryEntry_def)

lemma parse_newline [simp]: "parseBlobInventoryEntry (line @ [nl]) = parseBlobInventoryEntry line"
  using go_fields_newline [of line] by (simp add: parseBlobInventoryEntry_def parseInventoryEntry_def)

lemma parse_serial_nonempty: "parseBlobInventoryEntry line = Some e \<Longrightarrow> ieSerial e \<noteq> []"
proof -
  assume "parseBlobInventoryEntry line = Some e"
  then obtain s r where "go_fields line = s # r" "ieSerial e = inventorySerial s"
    by (auto simp: parseBlobInventoryEntry_def parseInventoryEntry_def
        split: option.splits list.splits)
  then show ?thesis using go_fields_nonempty [of s line] inventorySerial_nonempty by simp
qed

subsection \<open>The blob as a list of lines\<close>

abbreviation lineEntries :: "string list \<Rightarrow> InventoryEntry list" where
  "lineEntries \<equiv> List.map_filter parseBlobInventoryEntry"

lemma map_filter_append [simp]:
  "List.map_filter f (xs @ ys) = List.map_filter f xs @ List.map_filter f ys"
  by (simp add: List.map_filter_def)

lemma parseInventoryBlobCounting_lines:
  "foldl (\<lambda>(entries, unparseable) line.
        if trim_space line = [] then (entries, unparseable)
        else (case parseBlobInventoryEntry line of
                Some e \<Rightarrow> (entries @ [e], unparseable)
              | None \<Rightarrow> (entries, Suc unparseable))) (es, k) ls
   = (es @ lineEntries ls,
      k + length (filter (\<lambda>l. trim_space l \<noteq> [] \<and> parseBlobInventoryEntry l = None) ls))"
proof (induction ls arbitrary: es k)
  case (Cons l ls)
  show ?case
  proof (cases "trim_space l = []")
    case True
    then show ?thesis by (simp add: Cons.IH map_filter_simps parse_blank)
  next
    case False
    then show ?thesis by (cases "parseBlobInventoryEntry l") (simp_all add: Cons.IH map_filter_simps)
  qed
qed (simp add: map_filter_simps)

lemma parseInventoryBlob_lines: "parseInventoryBlob data = lineEntries (split_on nl data)"
  by (simp add: parseInventoryBlob_def parseInventoryBlobCounting_def parseInventoryBlobCounting_lines)

definition terminated :: "bytes \<Rightarrow> bool" where
  "terminated data = (data = [] \<or> last data = nl)"

lemma lineEntries_Nil [simp]: "parseBlobInventoryEntry [] = None"
  by (simp add: parseBlobInventoryEntry_def parseInventoryEntry_def)

lemma parse_append_line:
  assumes "terminated data" "nl \<notin> set line"
  shows "parseInventoryBlob (data @ line @ [nl]) = parseInventoryBlob data @ lineEntries [line]"
proof (cases "data = []")
  case True
  then show ?thesis using assms(2)
    by (simp add: parseInventoryBlob_lines split_on_append map_filter_simps split: option.splits)
next
  case False
  then obtain d where d: "data = d @ [nl]" using assms(1)
    by (metis append_butlast_last_id terminated_def)
  have "split_on nl (d @ nl # (line @ nl # [])) = split_on nl d @ [line, []]"
    using assms(2) by (simp add: split_on_glue split_on_none)
  then show ?thesis
    unfolding d parseInventoryBlob_lines using split_on_glue [of nl d "[]"]
    by (simp add: map_filter_simps split: option.splits)
qed

text \<open>What every reader of the inventory answers from the entries, in issuance order.\<close>

definition latestSerial :: "InventoryEntry list \<Rightarrow> string \<Rightarrow> string res" where
  "latestSerial es subject =
     (case find (\<lambda>e. ieSubject e = subject) (rev es) of
        None \<Rightarrow> Inl ErrNotExist | Some e \<Rightarrow> Inr (ieSerial e))"

lemma latestSerial_Nil [simp]: "latestSerial [] subject = Inl ErrNotExist"
  by (simp add: latestSerial_def)

lemma latestSerial_snoc:
  "latestSerial (es @ [e]) subject =
     (if ieSubject e = subject then Inr (ieSerial e) else latestSerial es subject)"
  by (simp add: latestSerial_def)

lemma latest_fold:
  "foldl (\<lambda>last line.
      if trim_space line = [] then last
      else (case parseBlobInventoryEntry line of None \<Rightarrow> last
            | Some e \<Rightarrow> if ieSubject e = subject then ieSerial e else last)) [] ls
   = (case latestSerial (lineEntries ls) subject of Inr s \<Rightarrow> s | Inl _ \<Rightarrow> [])"
proof (induction ls rule: rev_induct)
  case (snoc l ls)
  then show ?case
    using parse_blank [of l]
    by (cases "parseBlobInventoryEntry l") (auto simp: map_filter_simps latestSerial_snoc)
qed (simp add: map_filter_simps)

lemma lineEntries_serial: "e \<in> set (lineEntries ls) \<Longrightarrow> ieSerial e \<noteq> []"
  using parse_serial_nonempty by (fastforce simp: List.map_filter_def)

lemma latestSerial_nonempty:
  "latestSerial (lineEntries ls) subject = Inr s \<Longrightarrow> s \<noteq> []"
  by (auto simp: latestSerial_def split: option.splits dest!: find_Some_mem dest: lineEntries_serial)

lemma latestSerial_Inl: "latestSerial es subject = Inl x \<Longrightarrow> x = ErrNotExist"
  by (simp add: latestSerial_def split: option.splits)

lemma latestSerialFromBlob_entries:
  "latestSerialFromBlob data subject = latestSerial (parseInventoryBlob data) subject"
  by (cases "latestSerial (lineEntries (split_on nl data)) subject")
    (auto simp: latestSerialFromBlob_def latest_fold parseInventoryBlob_lines Let_def
      dest: latestSerial_Inl latestSerial_nonempty)

lemma blobHasSerial_entries:
  "blobHasSerial data want = (want \<in> ieSerial ` set (parseInventoryBlob data))"
proof -
  have "blobHasSerial data want =
      (\<exists>l \<in> set (split_on nl data). \<exists>e. parseBlobInventoryEntry l = Some e \<and> ieSerial e = want)"
    by (auto simp: blobHasSerial_def list_ex_iff parse_blank split: option.splits)
  then show ?thesis
    by (auto simp: parseInventoryBlob_lines List.map_filter_def image_iff) force
qed

lemma openVox_no_newline: "entryOk e \<Longrightarrow> nl \<notin> set (openVoxInventoryLine e raw)"
proof -
  assume ok: "entryOk e"
  obtain n where n: "0 \<le> n" "ieSerial e = serialHexStr n" using entryOk_serial [OF ok] .
  note p = plain_no_newline [OF entryOk_plain(3) [OF ok]] plain_no_newline [OF entryOk_plain(5) [OF ok]]
    plain_no_newline [OF entryOk_plain(7) [OF ok]] plain_no_newline [OF hex04_plain [OF n(1)]]
  show ?thesis using n p by (auto simp: openVoxInventoryLine_def Let_def)
qed

lemma appendInventoryBlob_entries:
  assumes "terminated data" "entryOk e"
  shows "appendInventoryBlob e raw data =
           (if ieSerial e \<in> ieSerial ` set (parseInventoryBlob data) then Inl ErrDuplicateSerial
            else Inr (data @ openVoxInventoryLine e raw @ [nl]))"
    and "parseInventoryBlob (data @ openVoxInventoryLine e raw @ [nl]) = parseInventoryBlob data @ [e]"
    and "terminated (data @ openVoxInventoryLine e raw @ [nl])"
proof -
  obtain n where "0 \<le> n" "ieSerial e = serialHexStr n" using entryOk_serial [OF assms(2)] .
  then show "appendInventoryBlob e raw data =
           (if ieSerial e \<in> ieSerial ` set (parseInventoryBlob data) then Inl ErrDuplicateSerial
            else Inr (data @ openVoxInventoryLine e raw @ [nl]))"
    by (simp add: appendInventoryBlob_def blobHasSerial_entries)
  show "parseInventoryBlob (data @ openVoxInventoryLine e raw @ [nl]) = parseInventoryBlob data @ [e]"
    using parse_append_line [OF assms(1) openVox_no_newline [OF assms(2)]] parse_openVox [OF assms(2)]
    by (simp add: map_filter_simps)
qed (simp add: terminated_def)

subsection \<open>Pruning a blob\<close>

lemma split_after_lines:
  obtains ls t where "split_on d s = ls @ [t]" "split_after d s = map (\<lambda>l. l @ [d]) ls @ [t]"
    "s = concat (map (\<lambda>l. l @ [d]) ls) @ t"
proof (induction s arbitrary: thesis)
  case (Cons c s)
  obtain ls t where IH: "split_on d s = ls @ [t]" "split_after d s = map (\<lambda>l. l @ [d]) ls @ [t]"
    "s = concat (map (\<lambda>l. l @ [d]) ls) @ t" using Cons.IH .
  show ?case
  proof (cases "c = d")
    case True
    then show ?thesis using IH Cons.prems [of "[] # ls" t] by simp
  next
    case False
    then show ?thesis using IH Cons.prems [of "[]" "c # t"] Cons.prems [of "(c # hd ls) # tl ls" t]
      by (cases ls) auto
  qed
qed simp

lemma split_on_no_sep: "l \<in> set (split_on d s) \<Longrightarrow> d \<notin> set l"
  by (induction s arbitrary: l) (auto split: if_splits list.splits)

lemma split_on_concat:
  assumes "\<forall>l \<in> set ls. d \<notin> set l" "d \<notin> set t"
  shows "split_on d (concat (map (\<lambda>l. l @ [d]) ls) @ t) = ls @ [t]"
  using assms by (induction ls) (auto simp: split_on_none split_on_append)

definition keepLine :: "(InventoryEntry \<Rightarrow> bool) \<Rightarrow> string \<Rightarrow> bool" where
  "keepLine keep l = (case parseBlobInventoryEntry l of Some e \<Rightarrow> keep e | None \<Rightarrow> True)"

lemma keepLine_newline [simp]: "keepLine keep (l @ [nl]) = keepLine keep l"
  by (simp add: keepLine_def)

lemma pruneLines_filter:
  "pruneLines keep ls = (concat (filter (keepLine keep) ls), filter (\<lambda>e. \<not> keep e) (lineEntries ls))"
  by (induction ls) (auto simp: keepLine_def map_filter_simps split: option.splits)

lemma lineEntries_keep: "lineEntries (filter (keepLine keep) ls) = filter keep (lineEntries ls)"
  by (induction ls) (auto simp: keepLine_def map_filter_simps split: option.splits)

lemma lineEntries_newlines: "lineEntries (map (\<lambda>l. l @ [nl]) ls) = lineEntries ls"
  by (simp add: List.map_filter_def comp_def filter_map)

lemma filter_newlines:
  "filter (keepLine keep) (map (\<lambda>l. l @ [nl]) ls) = map (\<lambda>l. l @ [nl]) (filter (keepLine keep) ls)"
  by (simp add: filter_map comp_def)

lemma pruneInventoryBlob_entries:
  assumes "pruneInventoryBlob keep data = (buf, removed)"
  shows "parseInventoryBlob buf = filter keep (parseInventoryBlob data)"
    and "removed = filter (\<lambda>e. \<not> keep e) (parseInventoryBlob data)"
    and "terminated data \<Longrightarrow> terminated buf"
proof -
  obtain ls t where s: "split_on nl data = ls @ [t]"
    "split_after nl data = map (\<lambda>l. l @ [nl]) ls @ [t]" "data = concat (map (\<lambda>l. l @ [nl]) ls) @ t"
    using split_after_lines .
  have sep: "\<forall>l \<in> set ls. nl \<notin> set l" "nl \<notin> set t" using split_on_no_sep [of _ nl data] s(1) by auto
  let ?t = "if keepLine keep t then t else []"
  have buf: "buf = concat (map (\<lambda>l. l @ [nl]) (filter (keepLine keep) ls)) @ ?t"
    using assms by (auto simp: pruneInventoryBlob_def pruneLines_filter s(2) filter_newlines)
  have "split_on nl buf = filter (keepLine keep) ls @ [?t]"
    unfolding buf by (rule split_on_concat) (use sep in auto)
  then show "parseInventoryBlob buf = filter keep (parseInventoryBlob data)"
    by (auto simp: parseInventoryBlob_lines s(1) lineEntries_keep map_filter_simps keepLine_def
        split: option.splits)
  show "removed = filter (\<lambda>e. \<not> keep e) (parseInventoryBlob data)"
    using assms lineEntries_newlines [of ls]
    by (simp add: pruneInventoryBlob_def pruneLines_filter s(1,2) parseInventoryBlob_lines)
  assume "terminated data"
  then have "t = []" using s(3) sep(2) by (cases t rule: rev_cases) (auto simp: terminated_def)
  then show "terminated buf"
    unfolding buf by (cases "filter (keepLine keep) ls" rule: rev_cases) (auto simp: terminated_def)
qed

section \<open>The interface of an inventory\<close>

text \<open>
  The operations StorageService calls, and what it relies on: the entries an
  inventory holds determine every answer.  Both forms provide it.
\<close>

datatype invOp = InvAppend InventoryEntry | InvPrune "InventoryEntry \<Rightarrow> bool"

fun invOpOk :: "invOp \<Rightarrow> bool" where
  "invOpOk (InvAppend e) = entryOk e"
| "invOpOk (InvPrune keep) = True"

text \<open>A sequence of operations, with what each one returned.\<close>

fun runInventory ::
    "(InventoryEntry \<Rightarrow> 's \<Rightarrow> 's res) \<Rightarrow> ((InventoryEntry \<Rightarrow> bool) \<Rightarrow> 's \<Rightarrow> 's \<times> InventoryEntry list)
      \<Rightarrow> invOp list \<Rightarrow> 's \<Rightarrow> 's \<times> InventoryEntry list res list" where
  "runInventory app pr [] s = (s, [])"
| "runInventory app pr (InvAppend e # ops) s =
     (case app e s of
        Inl x \<Rightarrow> (let (s', out) = runInventory app pr ops s in (s', Inl x # out))
      | Inr t \<Rightarrow> (let (s', out) = runInventory app pr ops t in (s', Inr [] # out)))"
| "runInventory app pr (InvPrune keep # ops) s =
     (let (t, removed) = pr keep s; (s', out) = runInventory app pr ops t
      in (s', Inr removed # out))"

definition specAppend :: "InventoryEntry \<Rightarrow> InventoryEntry list \<Rightarrow> InventoryEntry list res" where
  "specAppend e es = (if ieSerial e \<in> ieSerial ` set es then Inl ErrDuplicateSerial else Inr (es @ [e]))"

definition specPrune ::
    "(InventoryEntry \<Rightarrow> bool) \<Rightarrow> InventoryEntry list \<Rightarrow> InventoryEntry list \<times> InventoryEntry list" where
  "specPrune keep es = (filter keep es, filter (\<lambda>e. \<not> keep e) es)"

locale inventory_form =
  fixes wf :: "'s \<Rightarrow> bool"
    and entries :: "'s \<Rightarrow> InventoryEntry list"
    and app :: "InventoryEntry \<Rightarrow> 's \<Rightarrow> 's res"
    and pr :: "(InventoryEntry \<Rightarrow> bool) \<Rightarrow> 's \<Rightarrow> 's \<times> InventoryEntry list"
    and latest :: "'s \<Rightarrow> string \<Rightarrow> string res"
  assumes app_refines: "\<lbrakk>wf s; entryOk e\<rbrakk> \<Longrightarrow> map_sum id entries (app e s) = specAppend e (entries s)"
    and app_wf: "\<lbrakk>wf s; entryOk e; app e s = Inr t\<rbrakk> \<Longrightarrow> wf t"
    and pr_refines: "map_prod entries id (pr keep s) = specPrune keep (entries s)"
    and pr_wf: "wf s \<Longrightarrow> wf (fst (pr keep s))"
    and latest_refines: "latest s subject = latestSerial (entries s) subject"
begin

lemma run_refines:
  assumes "wf s" "list_all invOpOk ops" "runInventory app pr ops s = (s', out)"
  shows "runInventory specAppend specPrune ops (entries s) = (entries s', out) \<and> wf s'"
  using assms
proof (induction ops arbitrary: s out)
  case (Cons opn ops)
  show ?case
  proof (cases opn)
    case (InvAppend e)
    then have e: "entryOk e" "list_all invOpOk ops" using Cons.prems by auto
    show ?thesis
    proof (cases "app e s")
      case (Inl x)
      obtain out' where r: "runInventory app pr ops s = (s', out')" "out = Inl x # out'"
        using Cons.prems(3) InvAppend Inl by (auto split: prod.splits)
      have "specAppend e (entries s) = Inl x"
        using app_refines [OF Cons.prems(1) e(1)] Inl by simp
      then show ?thesis using Cons.IH [OF Cons.prems(1) e(2) r(1)] InvAppend r(2) by simp
    next
      case (Inr t)
      obtain out' where r: "runInventory app pr ops t = (s', out')" "out = Inr [] # out'"
        using Cons.prems(3) InvAppend Inr by (auto split: prod.splits)
      have "specAppend e (entries s) = Inr (entries t)"
        using app_refines [OF Cons.prems(1) e(1)] Inr by simp
      then show ?thesis
        using Cons.IH [OF app_wf [OF Cons.prems(1) e(1) Inr] e(2) r(1)] InvAppend r(2) by simp
    qed
  next
    case (InvPrune keep)
    obtain t removed where t: "pr keep s = (t, removed)" by fastforce
    obtain out' where r: "runInventory app pr ops t = (s', out')" "out = Inr removed # out'"
      using Cons.prems(3) InvPrune t by (auto split: prod.splits)
    have "wf t" using pr_wf [OF Cons.prems(1), of keep] t by simp
    moreover have "specPrune keep (entries s) = (entries t, removed)"
      using pr_refines [of keep s] t by simp
    ultimately show ?thesis using Cons.IH [of t out'] Cons.prems(2) InvPrune r by simp
  qed
qed simp

lemma append_then_latest:
  assumes "wf s" "entryOk e" "app e s = Inr t"
  shows "latest t subject = (if ieSubject e = subject then Inr (ieSerial e) else latest s subject)"
proof -
  have "entries t = entries s @ [e]"
    using app_refines [OF assms(1,2)] assms(3) by (simp add: specAppend_def split: if_splits)
  then show ?thesis by (simp add: latest_refines latestSerial_snoc)
qed

end

definition blobAppend :: "InventoryEntry \<Rightarrow> bytes \<Rightarrow> bytes res" where
  "blobAppend e data = appendInventoryBlob e (canonicalInventoryLine e) data"

interpretation blob: inventory_form terminated parseInventoryBlob blobAppend pruneInventoryBlob
    latestSerialFromBlob
proof (unfold_locales, goal_cases)
  case (1 s e)
  then show ?case using appendInventoryBlob_entries(1,2) [OF 1]
    by (simp add: blobAppend_def specAppend_def)
next
  case (2 s e t)
  then show ?case using appendInventoryBlob_entries(1,3) [OF 2(1,2)]
    by (auto simp: blobAppend_def split: if_splits)
next
  case (3 keep s)
  then show ?case
    using pruneInventoryBlob_entries(1,2) [of keep s]
    by (cases "pruneInventoryBlob keep s") (simp add: specPrune_def)
next
  case (4 s keep)
  then show ?case
    using pruneInventoryBlob_entries(3) [of keep s] by (cases "pruneInventoryBlob keep s") simp
next
  case (5 s subject)
  show ?case by (rule latestSerialFromBlob_entries)
qed

definition tableOk :: "invTable \<Rightarrow> bool" where
  "tableOk t = distinct (map ieSerial (tblEntries t))"

interpretation tbl: inventory_form tableOk tblEntries "\<lambda>e. appendEntryOnce e f"
    "\<lambda>keep. pruneEntriesOnce keep adv" "\<lambda>t subject. tblLatestSerialForSubject subject t"
proof (unfold_locales, goal_cases)
  case (1 s e)
  then show ?case
    by (auto simp: appendEntryOnce_def specAppend_def tblEntries_def inventoryRowFromEntry_def)
next
  case (2 s e t)
  then show ?case
    by (auto simp: appendEntryOnce_def tableOk_def tblEntries_def inventoryRowFromEntry_def
        split: if_splits)
next
  case (3 keep s)
  then show ?case
    by (auto simp: pruneEntriesOnce_def specPrune_def tblEntries_def filter_map comp_def Let_def
        filter_empty_conv)
next
  case (4 s keep)
  then show ?case
    by (auto simp: pruneEntriesOnce_def tableOk_def tblEntries_def filter_map comp_def Let_def
        distinct_map_filter)
next
  case (5 s subject)
  show ?case by (simp add: tblLatestSerialForSubject_def latestSerial_def)
qed

section \<open>The hash chain\<close>

text \<open>The messages the chain over some entries hashes, in order.\<close>

definition chainHead :: "(bytes \<Rightarrow> bytes \<Rightarrow> bytes) \<Rightarrow> bytes \<Rightarrow> InventoryEntry list \<Rightarrow> bytes" where
  "chainHead hm key es = foldInventoryHead hm key es [] True"

fun chainMessages ::
    "(bytes \<Rightarrow> bytes \<Rightarrow> bytes) \<Rightarrow> bytes \<Rightarrow> bytes \<Rightarrow> InventoryEntry list \<Rightarrow> bytes list" where
  "chainMessages hm key prev [] = []"
| "chainMessages hm key prev (e # es) =
     (let m = prev @ canonicalInventoryLine e in m # chainMessages hm key (hm key m) es)"

lemma chainHead_Nil [simp]: "chainHead hm key [] = []"
  by (simp add: chainHead_def foldInventoryHead_def)

lemma chainHead_snoc:
  "chainHead hm key (es @ [e]) = hm key (chainHead hm key es @ canonicalInventoryLine e)"
  by (simp add: chainHead_def foldInventoryHead_def chainInventoryMAC_def)

lemma chainMessages_snoc:
  "chainMessages hm key prev (es @ [e]) =
     chainMessages hm key prev es
     @ [foldl (\<lambda>h e. hm key (h @ canonicalInventoryLine e)) prev es @ canonicalInventoryLine e]"
  by (induction es arbitrary: prev) (simp_all add: Let_def)

lemma chainMessages_last:
  "chainMessages hm key [] (es @ [e]) =
     chainMessages hm key [] es @ [chainHead hm key es @ canonicalInventoryLine e]"
  by (simp add: chainMessages_snoc chainHead_def foldInventoryHead_def chainInventoryMAC_def)

lemma chainHead_message:
  assumes "es \<noteq> []"
  obtains m where "m \<in> set (chainMessages hm key [] es)" "chainHead hm key es = hm key m"
  using assms by (cases es rule: rev_cases) (auto simp: chainHead_snoc chainMessages_last)

definition chainBreak ::
    "(bytes \<Rightarrow> bytes \<Rightarrow> bytes) \<Rightarrow> bytes \<Rightarrow> InventoryEntry list \<Rightarrow> InventoryEntry list \<Rightarrow> bool" where
  "chainBreak hm key es es' =
     (let ms = chainMessages hm key [] es; ms' = chainMessages hm key [] es' in
      (\<exists>m \<in> set ms. \<exists>m' \<in> set ms'. m \<noteq> m' \<and> hm key m = hm key m')
      \<or> (\<exists>e \<in> set es. \<exists>m \<in> set ms'. has_prefix (canonicalInventoryLine e) (hm key m))
      \<or> (\<exists>e \<in> set es'. \<exists>m \<in> set ms. has_prefix (canonicalInventoryLine e) (hm key m)))"

lemma chainBreak_snoc:
  "chainBreak hm key es es' \<Longrightarrow> chainBreak hm key (es @ [e]) (es' @ [e'])"
  unfolding chainBreak_def Let_def chainMessages_last by auto

lemma chainBreak_lone:
  assumes "es' \<noteq> []" "canonicalInventoryLine e = chainHead hm key es' @ l"
  shows "chainBreak hm key [e] (es' @ [e'])" and "chainBreak hm key (es' @ [e']) [e]"
proof -
  obtain m where "m \<in> set (chainMessages hm key [] es')" and h: "chainHead hm key es' = hm key m"
    using chainHead_message [OF assms(1)] .
  then have "m \<in> set (chainMessages hm key [] (es' @ [e']))" by (simp add: chainMessages_last)
  moreover have "has_prefix (canonicalInventoryLine e) (hm key m)" using assms(2) h by simp
  moreover have "e \<in> set [e]" by simp
  ultimately show "chainBreak hm key [e] (es' @ [e'])" "chainBreak hm key (es' @ [e']) [e]"
    unfolding chainBreak_def Let_def by blast+
qed

text \<open>The chain binds the lines of any entries, those of a tampered table among them.\<close>

lemma chain_lines:
  assumes len: "\<And>m. length (hm key m) = 32" and "chainHead hm key es = chainHead hm key es'"
  shows "map canonicalInventoryLine es = map canonicalInventoryLine es' \<or> chainBreak hm key es es'"
  using assms(2)
proof (induction es arbitrary: es' rule: rev_induct)
  case Nil
  then show ?case using len by (cases es' rule: rev_cases) (auto simp: chainHead_snoc dest: arg_cong [of _ _ length])
next
  case (snoc e es)
  have "es' \<noteq> []"
    using snoc.prems len by (auto simp: chainHead_snoc dest: arg_cong [of _ _ length])
  then obtain fs f where es': "es' = fs @ [f]" by (cases es' rule: rev_cases) auto
  let ?h = "chainHead hm key es" and ?h' = "chainHead hm key fs"
  let ?l = "canonicalInventoryLine e" and ?l' = "canonicalInventoryLine f"
  have eq: "hm key (?h @ ?l) = hm key (?h' @ ?l')" using snoc.prems by (simp add: es' chainHead_snoc)
  have L: "length (chainHead hm key xs) = 32" if "xs \<noteq> []" for xs
    using that len by (metis chainHead_message)
  consider (coll) "?h @ ?l \<noteq> ?h' @ ?l'" | (same) "?h @ ?l = ?h' @ ?l'" "es = [] \<longleftrightarrow> fs = []"
    | (left) "?h @ ?l = ?h' @ ?l'" "es = []" "fs \<noteq> []" | (right) "?h @ ?l = ?h' @ ?l'" "es \<noteq> []" "fs = []"
    by blast
  then show ?case
  proof cases
    case coll
    then show ?thesis using eq by (auto simp: es' chainBreak_def chainMessages_last)
  next
    case same
    then have "length ?h = length ?h'" using L by (cases "es = []") auto
    then have "?h = ?h'" "?l = ?l'" using same(1) by auto
    then show ?thesis using snoc.IH [of fs] es' chainBreak_snoc by auto
  next
    case left
    then show ?thesis using chainBreak_lone(1) [of fs e hm key ?l' f] es' by simp
  next
    case right
    then show ?thesis using chainBreak_lone(2) [of es f hm key ?l e] es' by simp
  qed
qed

lemma lines_inject:
  "\<lbrakk>map canonicalInventoryLine es = map canonicalInventoryLine es'; list_all entryOk es; list_all entryOk es'\<rbrakk> \<Longrightarrow> es = es'"
  by (induction es arbitrary: es') (auto simp: Cons_eq_map_conv dest: canonical_inject)

lemma chain_binding:
  assumes "\<And>m. length (hm key m) = 32"
    and "list_all entryOk es" "list_all entryOk es'" "chainHead hm key es = chainHead hm key es'"
  shows "es = es' \<or> chainBreak hm key es es'"
  using chain_lines [OF assms(1,4)] lines_inject [OF _ assms(2,3)] by blast

section \<open>Properties\<close>

text \<open>
  C36.  Both forms of the inventory are one inventory.  Take a sequence of appends of
  well-formed entries (a serial in canonical hexadecimal, and two times and a subject
  without blanks, the subject also without a comma, plus, equals sign, slash or backslash)
  and of prunes, and run it on inventory.txt and on the structured table, started
  from a text that ends with a newline and a table without duplicate serials that hold the
  same entries.  Then the two return the same results call by call, refusals of duplicate
  serials included, and are left holding the same entries in the same order.
\<close>

theorem inventory_forms_agree:
  assumes "terminated data" "tableOk t" "parseInventoryBlob data = tblEntries t"
    and "list_all invOpOk ops"
    and "runInventory blobAppend pruneInventoryBlob ops data = (data', out)"
    and "runInventory (\<lambda>e. appendEntryOnce e f) (\<lambda>keep. pruneEntriesOnce keep adv) ops t = (t', out')"
  shows "parseInventoryBlob data' = tblEntries t' \<and> out = out'"
  using blob.run_refines [OF assms(1,4,5)] tbl.run_refines [OF assms(2,4,6)] assms(3) by simp

text \<open>Two entries of one node and one of another, for the examples.\<close>

definition demoEntry :: "int \<Rightarrow> string \<Rightarrow> InventoryEntry" where
  "demoEntry n subject = \<lparr>ieSerial = serialHexStr n, ieNotBefore = ''2026-01-02T03:04:05UTC'',
     ieNotAfter = ''2031-01-02T03:04:05UTC'', ieSubject = subject\<rparr>"

definition demoOps :: "invOp list" where
  "demoOps = [InvAppend (demoEntry 1 ''a''), InvAppend (demoEntry 255 ''b.example''),
     InvAppend (demoEntry 1 ''c''), InvPrune (\<lambda>e. ieSubject e \<noteq> ''a''), InvAppend (demoEntry 1 ''c'')]"

lemma demoEntry_ok: "entryOk (demoEntry 1 ''a'')" "entryOk (demoEntry 255 ''b.example'')"
    "entryOk (demoEntry 1 ''c'')"
  by (simp_all add: demoEntry_def entryOk_def go_string)

theorem inventory_forms_agree_witness:
  "list_all invOpOk demoOps
   \<and> (let b = runInventory blobAppend pruneInventoryBlob demoOps [];
          t = runInventory (\<lambda>e. appendEntryOnce e None) (\<lambda>keep. pruneEntriesOnce keep None) demoOps
                \<lparr>tblRows = [], tblHead = None\<rparr>
      in parseInventoryBlob (fst b) = tblEntries (fst t) \<and> snd b = snd t)"
proof -
  have ok: "list_all invOpOk demoOps" by (simp add: demoOps_def demoEntry_ok)
  let ?t = "\<lparr>tblRows = [], tblHead = None\<rparr>"
  have "parseInventoryBlob [] = tblEntries ?t" "tableOk ?t" "terminated []"
    by (simp_all add: parseInventoryBlob_lines map_filter_simps tblEntries_def tableOk_def terminated_def)
  then show ?thesis
    using ok inventory_forms_agree [of "[]" ?t demoOps _ _ None None, OF _ _ _ ok prod.collapse [symmetric]
        prod.collapse [symmetric]]
    by (simp add: Let_def)
qed

text \<open>
  C37.  The inventory line formats.  The line issuance builds is read back as the
  entry it was built from, and so is the line in OpenVox Server's format that is
  written to inventory.txt, with its padded 0x serial and its CN= subject.
\<close>

theorem inventory_line_roundtrip:
  assumes "entryOk e"
  shows "parseInventoryEntry (canonicalInventoryLine e) = Some e
         \<and> parseBlobInventoryEntry (openVoxInventoryLine e raw) = Some e"
  using parse_canonical [OF assms] parse_openVox [OF assms] by simp

theorem inventory_line_roundtrip_witness:
  "parseBlobInventoryEntry ''0x00FF 2026-01-02T03:04:05UTC 2031-01-02T03:04:05UTC /CN=b.example''
     = Some (demoEntry 255 ''b.example'')"
proof -
  have "openVoxInventoryLine (demoEntry 255 ''b.example'') []
      = ''0x00FF 2026-01-02T03:04:05UTC 2031-01-02T03:04:05UTC /CN=b.example''"
    by (simp add: openVoxInventoryLine_def demoEntry_def hex04_def hex_text.simps hex_digit_def go_string)
  then show ?thesis using inventory_line_roundtrip [OF demoEntry_ok(2), of "[]"] by simp
qed

text \<open>
  C38.  The integrity chain binds the inventory.  If two inventories of well-formed
  entries have the same chained head, then they are the same inventory, or the
  messages the two chains hashed contain a collision of the keyed hash, or one of the
  hash values is the beginning of an inventory line.
\<close>

theorem inventory_chain_binds:
  assumes "\<And>m. length (hm key m) = 32"
    and "list_all entryOk es" "list_all entryOk es'"
    and "foldInventoryHead hm key es b True = foldInventoryHead hm key es' b' True"
  shows "es = es' \<or> chainBreak hm key es es'"
  using chain_binding [of hm key es es'] assms by (simp add: chainHead_def foldInventoryHead_def)

theorem inventory_chain_binds_witness:
  "foldInventoryHead (\<lambda>k m. replicate 32 CHR ''x'') [] [demoEntry 1 ''a''] [] True
     = foldInventoryHead (\<lambda>k m. replicate 32 CHR ''x'') [] [demoEntry 1 ''c''] [] True
   \<and> chainBreak (\<lambda>k m. replicate 32 CHR ''x'') [] [demoEntry 1 ''a''] [demoEntry 1 ''c'']"
proof -
  let ?hm = "\<lambda>k m. replicate 32 CHR ''x''"
  have "foldInventoryHead ?hm [] [demoEntry 1 ''a''] [] True
      = foldInventoryHead ?hm [] [demoEntry 1 ''c''] [] True"
    by (simp add: foldInventoryHead_def chainInventoryMAC_def)
  moreover have "[demoEntry 1 ''a''] \<noteq> [demoEntry 1 ''c'']" by (simp add: demoEntry_def)
  ultimately show ?thesis
    using inventory_chain_binds [of ?hm "[]" "[demoEntry 1 ''a'']" "[demoEntry 1 ''c'']" "[]" "[]"] demoEntry_ok
    by simp
qed

end
