(* ===== verification/X509.thy ===== *)
theory X509
  imports GoTime
begin

text \<open>
  The values of crypto/x509 the sources work on.  A parsed certificate, request or
  revocation list is a record; two have equal Raw bytes when the records are equal.
  A signature is represented by the public key that verifies it, so
  CheckSignatureFrom compares that key with the parent's and applies the checks on
  the parent that crypto/x509 documents.  A stored blob is represented by what
  pem.Decode and the parser answer on it.  The extension values the sources look
  into are decoded; every other value is \<^verbatim>\<open>DerBytes\<close>.  A subject key identifier,
  the SHA-1 of the encoded key, is the value \<^verbatim>\<open>KeyIdOf\<close> of that key.
\<close>

section \<open>Keys and names\<close>

datatype Curve = P224 | P256 | P384 | P521 | OtherCurve

datatype PublicKey =
    RSAKey nat nat \<comment> \<open>modulus size in bits, identity\<close>
  | ECDSAKey Curve nat
  | OtherKey nat

type_synonym oid = "nat list"

record Name =
  nmCommonName :: string
  nmAttributes :: "(string \<times> string) list" \<comment> \<open>the other attributes pkix.Name models\<close>
  nmUnmodelled :: "(string \<times> string) list" \<comment> \<open>attributes it parses and does not encode\<close>

definition encodeName :: "Name \<Rightarrow> Name" where
  "encodeName n = n\<lparr>nmUnmodelled := []\<rparr>"

section \<open>Extensions\<close>

datatype KeyUsage = KUDigitalSignature | KUKeyEncipherment | KUCertSign | KUCRLSign | KUOther nat

datatype ExtKeyUsage = EKUServerAuth | EKUClientAuth | EKUOther oid

datatype KeyId = KeyIdOf PublicKey | KeyIdBytes bytes

record SubjectAltNames =
  sanDNSNames :: "string list"
  sanIPAddresses :: "string list" \<comment> \<open>as net.IP.String renders them\<close>
  sanEmailAddresses :: "string list"
  sanURIs :: "string list" \<comment> \<open>as url.URL.String renders them\<close>

definition noSANs :: SubjectAltNames where
  "noSANs = \<lparr>sanDNSNames = [], sanIPAddresses = [], sanEmailAddresses = [], sanURIs = []\<rparr>"

datatype DerValue =
    DerString string
  | DerBasicConstraints bool
  | DerKeyUsage "KeyUsage list"
  | DerExtKeyUsage "ExtKeyUsage list"
  | DerKeyId KeyId
  | DerSubjectAltNames SubjectAltNames
  | DerURLs "string list"
  | DerBytes bytes

record Extension =
  extId :: oid
  extCritical :: bool
  extValue :: DerValue

definition oidSubjectKeyId :: oid where "oidSubjectKeyId = [2, 5, 29, 14]"
definition oidKeyUsage :: oid where "oidKeyUsage = [2, 5, 29, 15]"
definition oidSubjectAltName :: oid where "oidSubjectAltName = [2, 5, 29, 17]"
definition oidBasicConstraints :: oid where "oidBasicConstraints = [2, 5, 29, 19]"
definition oidCRLDistributionPoints :: oid where "oidCRLDistributionPoints = [2, 5, 29, 31]"
definition oidAuthorityKeyId :: oid where "oidAuthorityKeyId = [2, 5, 29, 35]"
definition oidExtKeyUsage :: oid where "oidExtKeyUsage = [2, 5, 29, 37]"

lemmas oid_defs = oidSubjectKeyId_def oidKeyUsage_def oidSubjectAltName_def oidBasicConstraints_def
  oidCRLDistributionPoints_def oidAuthorityKeyId_def oidExtKeyUsage_def

definition extValueOf :: "oid \<Rightarrow> Extension list \<Rightarrow> DerValue option" where
  "extValueOf i exts = map_option extValue (find (\<lambda>e. extId e = i) exts)"

text \<open>The parser lets a later SAN extension of a request replace an earlier one.\<close>

definition sansOf :: "Extension list \<Rightarrow> SubjectAltNames" where
  "sansOf exts =
     (case extValueOf oidSubjectAltName (rev exts) of
        Some (DerSubjectAltNames s) \<Rightarrow> s | _ \<Rightarrow> noSANs)"

section \<open>Certificates and requests\<close>

record Certificate =
  certVersion :: nat
  certSerialNumber :: int
  certIssuer :: Name
  certSubject :: Name
  certNotBefore :: gotime
  certNotAfter :: gotime
  certPublicKey :: PublicKey
  certExtensions :: "Extension list"
  certSigKey :: PublicKey \<comment> \<open>the key that verifies its signature\<close>

record CertificateRequest =
  csrSubject :: Name
  csrPublicKey :: PublicKey
  csrExtensions :: "Extension list"
  csrSignatureOk :: bool

definition certBasicConstraints :: "Certificate \<Rightarrow> bool option" where
  "certBasicConstraints c =
     (case extValueOf oidBasicConstraints (certExtensions c) of
        Some (DerBasicConstraints b) \<Rightarrow> Some b | _ \<Rightarrow> None)"

definition certKeyUsage :: "Certificate \<Rightarrow> KeyUsage list" where
  "certKeyUsage c =
     (case extValueOf oidKeyUsage (certExtensions c) of Some (DerKeyUsage u) \<Rightarrow> u | _ \<Rightarrow> [])"

definition certSubjectKeyId :: "Certificate \<Rightarrow> KeyId option" where
  "certSubjectKeyId c =
     (case extValueOf oidSubjectKeyId (certExtensions c) of Some (DerKeyId k) \<Rightarrow> Some k | _ \<Rightarrow> None)"

definition canParent :: "Certificate \<Rightarrow> KeyUsage \<Rightarrow> bool" where
  "canParent p u =
     (\<not> (certVersion p = 3 \<and> certBasicConstraints p = None)
      \<and> certBasicConstraints p \<noteq> Some False
      \<and> (certKeyUsage p = [] \<or> u \<in> set (certKeyUsage p))
      \<and> (case certPublicKey p of OtherKey _ \<Rightarrow> False | _ \<Rightarrow> True))"

text \<open>Certificate.CheckSignatureFrom.\<close>

definition certSignedBy :: "Certificate \<Rightarrow> Certificate \<Rightarrow> bool" where
  "certSignedBy parent c = (canParent parent KUCertSign \<and> certSigKey c = certPublicKey parent)"

section \<open>Revocation lists\<close>

record RevocationListEntry =
  rleSerialNumber :: int
  rleRevocationTime :: gotime

record RevocationList =
  rlNumber :: "int option"
  rlThisUpdate :: gotime
  rlNextUpdate :: "gotime option"
  rlEntries :: "RevocationListEntry list"
  rlIssuer :: Name
  rlSigKey :: PublicKey

text \<open>RevocationList.CheckSignatureFrom.\<close>

definition rlSignedBy :: "Certificate \<Rightarrow> RevocationList \<Rightarrow> bool" where
  "rlSignedBy parent rl = (canParent parent KUCRLSign \<and> rlSigKey rl = certPublicKey parent)"

section \<open>Stored blobs\<close>

text \<open>What pem.Decode and the parser answer on the bytes of a blob.\<close>

datatype 'a pem = NotPEM | BadDER | PEM 'a

text \<open>A blob that may hold several blocks: the blocks pem.Decode finds, in order, each
  with its type and its parse as a revocation list, and the bytes left over.\<close>

record CRLBlock =
  blkType :: string
  blkCRL :: "RevocationList option"

record CRLBlob =
  cbBlocks :: "CRLBlock list"
  cbRest :: bytes

section \<open>Creation\<close>

record CertTemplate =
  tplSerialNumber :: int
  tplSubject :: Name
  tplNotBefore :: gotime
  tplNotAfter :: gotime
  tplExtKeyUsage :: "ExtKeyUsage list"
  tplSubjectKeyId :: KeyId
  tplSANs :: SubjectAltNames
  tplCRLDistributionPoints :: "string list"
  tplExtraExtensions :: "Extension list"

definition emptyName :: "Name \<Rightarrow> bool" where
  "emptyName n = (nmCommonName n = [] \<and> nmAttributes n = [])"

text \<open>
  The extensions x509.CreateCertificate writes for a leaf template with the digital
  signature and key encipherment usages: each from its own field unless the extra
  extensions override it, then the extra extensions.
\<close>

definition leafExtensions :: "CertTemplate \<Rightarrow> Certificate \<Rightarrow> Extension list" where
  "leafExtensions t parent =
     (let present = (\<lambda>i. i \<in> set (map extId (tplExtraExtensions t)));
          mk = (\<lambda>c i crit v. if c \<and> \<not> present i
                  then [\<lparr>extId = i, extCritical = crit, extValue = v\<rparr>] else [])
      in mk True oidKeyUsage True (DerKeyUsage [KUDigitalSignature, KUKeyEncipherment])
         @ mk (tplExtKeyUsage t \<noteq> []) oidExtKeyUsage False (DerExtKeyUsage (tplExtKeyUsage t))
         @ mk True oidBasicConstraints True (DerBasicConstraints False)
         @ mk True oidSubjectKeyId False (DerKeyId (tplSubjectKeyId t))
         @ (case certSubjectKeyId parent of None \<Rightarrow> []
            | Some k \<Rightarrow> mk True oidAuthorityKeyId False (DerKeyId k))
         @ mk (tplSANs t \<noteq> noSANs) oidSubjectAltName (emptyName (tplSubject t))
              (DerSubjectAltNames (tplSANs t))
         @ mk (tplCRLDistributionPoints t \<noteq> []) oidCRLDistributionPoints False
              (DerURLs (tplCRLDistributionPoints t))
         @ tplExtraExtensions t)"

text \<open>
  x509.CreateCertificate: it refuses a negative serial number and a signer whose key is
  not the parent's, and the times are encoded in seconds.
\<close>

definition createCertificate ::
    "CertTemplate \<Rightarrow> Certificate \<Rightarrow> PublicKey \<Rightarrow> PublicKey \<Rightarrow> Certificate option" where
  "createCertificate t parent pub signerPub =
     (if tplSerialNumber t < 0 \<or> signerPub \<noteq> certPublicKey parent then None
      else Some \<lparr>certVersion = 3, certSerialNumber = tplSerialNumber t,
        certIssuer = certSubject parent, certSubject = encodeName (tplSubject t),
        certNotBefore = trunc_sec (tplNotBefore t), certNotAfter = trunc_sec (tplNotAfter t),
        certPublicKey = pub, certExtensions = leafExtensions t parent, certSigKey = signerPub\<rparr>)"

text \<open>
  x509.CreateRevocationList: the issuer must carry the CRL signing usage and a subject
  key identifier, the window must not be reversed, and the number must fit 20 octets.
\<close>

definition createRevocationList ::
    "int \<Rightarrow> gotime \<Rightarrow> gotime \<Rightarrow> RevocationListEntry list \<Rightarrow> Certificate \<Rightarrow> PublicKey
      \<Rightarrow> RevocationList option" where
  "createRevocationList number this next entries issuer signerPub =
     (if KUCRLSign \<notin> set (certKeyUsage issuer) \<or> certSubjectKeyId issuer = None
         \<or> next < this \<or> 2 ^ 159 \<le> \<bar>number\<bar> then None
      else Some \<lparr>rlNumber = Some number, rlThisUpdate = trunc_sec this,
        rlNextUpdate = Some (trunc_sec next),
        rlEntries = map (\<lambda>e. e\<lparr>rleRevocationTime := trunc_sec (rleRevocationTime e)\<rparr>) entries,
        rlIssuer = certSubject issuer, rlSigKey = signerPub\<rparr>)"

end
