(* ===== verification/Oids.thy ===== *)
theory Oids
  imports X509
begin

text \<open>
  The Puppet object identifier arcs (internal/ca/oids.go) and the authorisation grants
  an in-process caller may stamp on a certificate (internal/ca/authgrant.go).
\<close>

definition OIDAIA :: oid where "OIDAIA = [1, 3, 6, 1, 5, 5, 7, 1, 1]"
definition PuppetOIDArc :: oid where "PuppetOIDArc = [1, 3, 6, 1, 4, 1, 34380, 1]"
definition PuppetAuthOIDArc :: oid where "PuppetAuthOIDArc = [1, 3, 6, 1, 4, 1, 34380, 1, 3]"
definition OIDPpCliAuth :: oid where "OIDPpCliAuth = [1, 3, 6, 1, 4, 1, 34380, 1, 3, 39]"

fun hasPrefix :: "oid \<Rightarrow> oid \<Rightarrow> bool" where
  "hasPrefix oid [] = True"
| "hasPrefix [] (v # vs) = False"
| "hasPrefix (i # oid) (v # vs) = (i = v \<and> hasPrefix oid vs)"

definition IsPuppetOID :: "oid \<Rightarrow> bool" where
  "IsPuppetOID oid = hasPrefix oid PuppetOIDArc"

definition IsAuthOID :: "oid \<Rightarrow> bool" where
  "IsAuthOID oid = hasPrefix oid PuppetAuthOIDArc"

section \<open>Authorisation grants\<close>

record AuthGrant =
  grantOid :: oid
  grantValue :: string

definition PpCliAuth :: AuthGrant where
  "PpCliAuth = \<lparr>grantOid = OIDPpCliAuth, grantValue = ''true''\<rparr>"

definition grantExtension :: "AuthGrant \<Rightarrow> Extension res" where
  "grantExtension g =
     (if grantOid g = [] then Inl (ErrOther ''invalid authorisation grant'')
      else Inr \<lparr>extId = grantOid g, extCritical = False, extValue = DerString (grantValue g)\<rparr>)"

fun authGrantExts :: "oid list \<Rightarrow> AuthGrant list \<Rightarrow> Extension list res" where
  "authGrantExts seen [] = Inr []"
| "authGrantExts seen (g # gs) =
     (case grantExtension g of
        Inl e \<Rightarrow> Inl e
      | Inr ext \<Rightarrow>
          if extId ext \<in> set seen then Inl (ErrOther ''invalid authorisation grant'')
          else (case authGrantExts (extId ext # seen) gs of
                  Inl e \<Rightarrow> Inl e | Inr exts \<Rightarrow> Inr (ext # exts)))"

definition authGrantExtensions :: "AuthGrant list \<Rightarrow> Extension list res" where
  "authGrantExtensions grants = authGrantExts [] grants"

section \<open>Lemmas\<close>

lemma hasPrefix_iff_prefix: "hasPrefix oid p = prefix p oid"
  by (induction oid p rule: hasPrefix.induct) auto

lemma IsAuthOID_puppet: "IsAuthOID i \<Longrightarrow> IsPuppetOID i"
  by (auto simp: IsAuthOID_def IsPuppetOID_def hasPrefix_iff_prefix PuppetAuthOIDArc_def
      PuppetOIDArc_def prefix_def)

text \<open>None of the extensions the CA itself writes lies in the Puppet arc.\<close>

lemma standard_not_puppet [simp]:
  "\<not> IsPuppetOID oidSubjectKeyId" "\<not> IsPuppetOID oidKeyUsage" "\<not> IsPuppetOID oidSubjectAltName"
  "\<not> IsPuppetOID oidBasicConstraints" "\<not> IsPuppetOID oidCRLDistributionPoints"
  "\<not> IsPuppetOID oidAuthorityKeyId" "\<not> IsPuppetOID oidExtKeyUsage" "\<not> IsPuppetOID OIDAIA"
  by (simp_all add: IsPuppetOID_def PuppetOIDArc_def oid_defs OIDAIA_def)

lemma standard_not_auth [simp]:
  "\<not> IsAuthOID oidSubjectKeyId" "\<not> IsAuthOID oidKeyUsage" "\<not> IsAuthOID oidSubjectAltName"
  "\<not> IsAuthOID oidBasicConstraints" "\<not> IsAuthOID oidCRLDistributionPoints"
  "\<not> IsAuthOID oidAuthorityKeyId" "\<not> IsAuthOID oidExtKeyUsage" "\<not> IsAuthOID OIDAIA"
  using IsAuthOID_puppet standard_not_puppet by blast+

lemma authGrantExts_distinct:
  "authGrantExts seen gs = Inr exts \<Longrightarrow>
     distinct (map extId exts) \<and> set (map extId exts) \<inter> set seen = {}
     \<and> map extId exts = map grantOid gs"
proof (induction gs arbitrary: seen exts)
  case (Cons g gs)
  then obtain rest where r: "authGrantExts (grantOid g # seen) gs = Inr rest" "grantOid g \<notin> set seen"
      "exts = \<lparr>extId = grantOid g, extCritical = False, extValue = DerString (grantValue g)\<rparr> # rest"
    by (auto simp: grantExtension_def split: sum.splits if_splits)
  from Cons.IH [OF r(1)] have d: "distinct (map extId rest)" and m: "map extId rest = map grantOid gs"
    and n: "set (map extId rest) \<inter> set (grantOid g # seen) = {}" by blast+
  have "distinct (map extId exts) \<and> set (map extId exts) \<inter> set seen = {}"
    using d n r(2) unfolding r(3) by auto
  then show ?case using m unfolding r(3) by simp
qed simp

end
