(* ===== verification/Subject.thy ===== *)
theory Subject
  imports X509 Serial
begin

text \<open>
  Subject names and alternative names: ValidateSubject, CheckKeySubject, the
  alternative-name gate and its helpers (internal/ca/signing.go,
  internal/ca/reservedsubject.go) and validateDNSAltNames (internal/ca/generate.go).
  The regular expressions are written out as character tests.
\<close>

section \<open>Subjects\<close>

definition lower_alnum :: "char \<Rightarrow> bool" where
  "lower_alnum c =
     (let n = (of_char c :: nat) in (97 \<le> n \<and> n \<le> 122) \<or> (48 \<le> n \<and> n \<le> 57))"

definition subjectRegex :: "string \<Rightarrow> bool" where
  "subjectRegex s =
     (case s of [] \<Rightarrow> False
      | c # r \<Rightarrow> (lower_alnum c \<or> c = CHR ''_'' \<or> c = CHR ''.'')
          \<and> list_all (\<lambda>c. lower_alnum c \<or> c = CHR ''.'' \<or> c = CHR ''_'' \<or> c = CHR ''-'') r)"

definition ValidateSubject :: "string \<Rightarrow> unit res" where
  "ValidateSubject subject =
     (if subject = ''.'' then Inl (ErrOther ''invalid subject name'')
      else if \<not> subjectRegex subject \<or> contains subject ''..''
      then Inl (ErrOther ''invalid subject name'')
      else Inr ())"

definition reservedKeySubject :: string where "reservedKeySubject = ''ca''"

definition CheckKeySubject :: "string \<Rightarrow> unit res" where
  "CheckKeySubject subject = (if subject = reservedKeySubject then Inl ErrReservedSubject else Inr ())"

section \<open>DNS alternative names of generated certificates\<close>

definition maxDNSAltNames :: nat where "maxDNSAltNames = 100"
definition maxDNSNameLen :: nat where "maxDNSNameLen = 253"

definition dnsLabel :: "string \<Rightarrow> bool" where
  "dnsLabel l = (l \<noteq> [] \<and> lower_alnum (hd l) \<and> lower_alnum (last l)
     \<and> list_all (\<lambda>c. lower_alnum c \<or> c = CHR ''-'') l)"

definition dnsNameRegex :: "string \<Rightarrow> bool" where
  "dnsNameRegex name = list_all dnsLabel (split_on CHR ''.'' name)"

definition validateDNSAltNames :: "string list \<Rightarrow> unit res" where
  "validateDNSAltNames names =
     (if maxDNSAltNames < length names then Inl ErrInvalidDNSAltName
      else if list_all (\<lambda>name. length name \<le> maxDNSNameLen \<and> dnsNameRegex name) names then Inr ()
      else Inl ErrInvalidDNSAltName)"

section \<open>The alternative-name gate\<close>

definition asciiLower :: "string \<Rightarrow> string" where
  "asciiLower s = map ascii_lower_char s"

definition sanStrings :: "SubjectAltNames \<Rightarrow> string list" where
  "sanStrings s =
     map (\<lambda>d. ''DNS:'' @ asciiLower d) (sanDNSNames s) @ map (\<lambda>ip. ''IP:'' @ ip) (sanIPAddresses s)
     @ map (\<lambda>e. ''email:'' @ e) (sanEmailAddresses s) @ map (\<lambda>u. ''URI:'' @ u) (sanURIs s)"

definition maxLoggedSANs :: nat where "maxLoggedSANs = 10"
definition maxLoggedSANValue :: nat where "maxLoggedSANValue = 256"

text \<open>utf8.RuneStart: not a continuation byte.\<close>

definition rune_start :: "char \<Rightarrow> bool" where
  "rune_start c = (let n = (of_char c :: nat) in n < 128 \<or> 192 \<le> n)"

fun cut_back :: "string \<Rightarrow> nat \<Rightarrow> nat" where
  "cut_back s 0 = 0"
| "cut_back s (Suc k) = (if rune_start (s ! Suc k) then Suc k else cut_back s k)"

definition truncateSAN :: "string \<Rightarrow> string" where
  "truncateSAN s =
     (if length s \<le> maxLoggedSANValue then s
      else take (cut_back s maxLoggedSANValue) s @ ''...(truncated)'')"

text \<open>The refusal carries the entries written to the log record.\<close>

definition disallowedSANs :: "string \<Rightarrow> SubjectAltNames \<Rightarrow> string list" where
  "disallowedSANs subject s = filter (\<lambda>name. name \<noteq> ''DNS:'' @ asciiLower subject) (sanStrings s)"

definition loggedSANs :: "string list \<Rightarrow> string list" where
  "loggedSANs disallowed = map truncateSAN (take maxLoggedSANs disallowed)"

definition checkSubjectAltNames :: "bool \<Rightarrow> string \<Rightarrow> CertificateRequest \<Rightarrow> unit res" where
  "checkSubjectAltNames allow subject csr =
     (if allow then Inr ()
      else let requested = sanStrings (sansOf (csrExtensions csr)) in
      if requested = [] then Inr ()
      else if disallowedSANs subject (sansOf (csrExtensions csr)) = [] then Inr ()
      else Inl ErrDisallowedSubjectAltNames)"

section \<open>Lemmas\<close>

lemma lower_alnum_plain: "lower_alnum c \<Longrightarrow> plain_char c"
  by (auto simp: lower_alnum_def plain_char_def Let_def)

definition subject_char :: "char \<Rightarrow> bool" where
  "subject_char c = (lower_alnum c \<or> c = CHR ''.'' \<or> c = CHR ''_'' \<or> c = CHR ''-'')"

lemma ValidateSubject_chars:
  assumes "ValidateSubject s = Inr ()"
  shows "s \<noteq> []" "list_all subject_char s" "hd s \<noteq> CHR ''-''" "\<not> contains s ''..''" "s \<noteq> ''.''"
  using assms
  by (cases s; auto simp: ValidateSubject_def subjectRegex_def subject_char_def lower_alnum_def
      elim!: list.pred_mono_strong split: if_splits)+

lemma subject_char_plain: "subject_char c \<Longrightarrow> plain_char c"
  unfolding subject_char_def by (elim disjE) (simp_all add: lower_alnum_plain, simp_all add: plain_char_def)

lemma ValidateSubject_plain: "ValidateSubject s = Inr () \<Longrightarrow> plain s"
  using ValidateSubject_chars(2) [of s] subject_char_plain by (auto simp: plain_def list_all_iff)

lemma subject_char_safe: "subject_char c \<Longrightarrow> c \<notin> set ('',+=/'' @ [CHR 0x5C] @ '' '')"
  by (auto simp: subject_char_def lower_alnum_def)

lemma ValidateSubject_safe:
  "ValidateSubject s = Inr () \<Longrightarrow> \<not> contains_any s ('',+=/'' @ [CHR 0x5C] @ '' '')"
  using ValidateSubject_chars(2) [of s] subject_char_safe
  by (auto simp: contains_any_def list_all_iff)

lemma asciiLower_subject: "ValidateSubject s = Inr () \<Longrightarrow> asciiLower s = s"
proof -
  assume "ValidateSubject s = Inr ()"
  then have "list_all subject_char s" by (rule ValidateSubject_chars)
  then show ?thesis unfolding asciiLower_def
    by (induction s) (auto simp: subject_char_def lower_alnum_def ascii_lower_char_def Let_def)
qed

lemma DNS_inject: "''DNS:'' @ a = ''DNS:'' @ b \<longleftrightarrow> a = b"
  by simp

text \<open>With the policy off, every name a request carries is the subject's own.\<close>

lemma checkSubjectAltNames_own:
  assumes "checkSubjectAltNames False subject csr = Inr ()"
  shows "sanIPAddresses (sansOf (csrExtensions csr)) = []"
    "sanEmailAddresses (sansOf (csrExtensions csr)) = []"
    "sanURIs (sansOf (csrExtensions csr)) = []"
    "\<forall>d \<in> set (sanDNSNames (sansOf (csrExtensions csr))). asciiLower d = asciiLower subject"
proof -
  let ?s = "sansOf (csrExtensions csr)"
  have all: "\<forall>n \<in> set (sanStrings ?s). n = ''DNS:'' @ asciiLower subject"
    using assms by (auto simp: checkSubjectAltNames_def disallowedSANs_def Let_def filter_empty_conv
        split: if_splits)
  show "sanIPAddresses ?s = []" using all by (cases "sanIPAddresses ?s") (auto simp: sanStrings_def)
  show "sanEmailAddresses ?s = []" using all by (cases "sanEmailAddresses ?s") (auto simp: sanStrings_def)
  show "sanURIs ?s = []" using all by (cases "sanURIs ?s") (auto simp: sanStrings_def)
  show "\<forall>d \<in> set (sanDNSNames ?s). asciiLower d = asciiLower subject"
  proof
    fix d assume "d \<in> set (sanDNSNames ?s)"
    then have "''DNS:'' @ asciiLower d \<in> set (sanStrings ?s)" unfolding sanStrings_def by simp
    then have "''DNS:'' @ asciiLower d = ''DNS:'' @ asciiLower subject" using all by (rule bspec [rotated])
    then show "asciiLower d = asciiLower subject" by simp
  qed
qed

lemma cut_back_le: "cut_back s n \<le> n"
  by (induction s n rule: cut_back.induct) auto

lemma truncateSAN_bound: "length (truncateSAN s) \<le> maxLoggedSANValue + 14"
  using cut_back_le [of s maxLoggedSANValue] by (auto simp: truncateSAN_def min_def)

end
