(* ===== verification/CrlChain.thy ===== *)
theory CrlChain
  imports X509
begin

text \<open>
  The CRL blob and its blocks: decoding and encoding the published chain, telling this
  CA's own list from its ancestors', choosing the newest list, and merging the
  ancestors an operator's crl_chain_file declares (internal/ca/crlchain.go,
  internal/ca/crlchainfile.go, ownCRLIn of internal/ca/caImport.go, ParseCABundle of
  internal/ca/cabundle.go).  The functions here compute on values already read; the
  reads themselves, their faults and the counters are in the theory Crl.
\<close>

section \<open>Ownership and recency\<close>

definition crlSignedBy :: "Certificate option \<Rightarrow> RevocationList option \<Rightarrow> bool" where
  "crlSignedBy cert crl =
     (case (cert, crl) of (Some c, Some l) \<Rightarrow> rlSignedBy c l | _ \<Rightarrow> False)"

definition ownsCRL :: "Certificate option \<Rightarrow> RevocationList \<Rightarrow> bool" where
  "ownsCRL caCert crl = crlSignedBy caCert (Some crl)"

definition newerCRL :: "RevocationList \<Rightarrow> RevocationList \<Rightarrow> bool" where
  "newerCRL a b =
     (case (rlNumber a, rlNumber b) of
        (Some m, Some n) \<Rightarrow> m > n
      | (Some m, None) \<Rightarrow> True
      | (None, Some n) \<Rightarrow> False
      | (None, None) \<Rightarrow> rlThisUpdate a > rlThisUpdate b)"

fun ownCRLFrom :: "RevocationList option \<Rightarrow> RevocationList list \<Rightarrow> Certificate option
    \<Rightarrow> RevocationList option" where
  "ownCRLFrom ours [] cert = ours"
| "ownCRLFrom ours (crl # chain) cert =
     (if crlSignedBy cert (Some crl) \<and> (case ours of None \<Rightarrow> True | Some o' \<Rightarrow> newerCRL crl o')
      then ownCRLFrom (Some crl) chain cert else ownCRLFrom ours chain cert)"

definition ownCRLIn :: "RevocationList list \<Rightarrow> Certificate option \<Rightarrow> RevocationList option" where
  "ownCRLIn chain cert = ownCRLFrom None chain cert"

fun orderCRLs :: "RevocationList option \<Rightarrow> nat \<Rightarrow> RevocationList list \<Rightarrow> RevocationList list
    \<Rightarrow> Certificate option \<Rightarrow> RevocationList option \<times> nat \<times> RevocationList list" where
  "orderCRLs ours superseded others [] cert = (ours, superseded, others)"
| "orderCRLs ours superseded others (crl # crls) cert =
     (if crlSignedBy cert (Some crl)
      then (case ours of
              None \<Rightarrow> orderCRLs (Some crl) superseded others crls cert
            | Some o' \<Rightarrow> orderCRLs (Some (if newerCRL crl o' then crl else o')) (Suc superseded)
                          others crls cert)
      else orderCRLs ours superseded (others @ [crl]) crls cert)"

definition orderCRLChain ::
    "RevocationList list \<Rightarrow> Certificate option \<Rightarrow> RevocationList list \<times> nat \<times> bool" where
  "orderCRLChain crls cert =
     (case orderCRLs None 0 [] crls cert of
        (None, _, _) \<Rightarrow> (crls, 0, False)
      | (Some ours, superseded, others) \<Rightarrow> (ours # others, superseded, True))"

section \<open>Encoding and decoding\<close>

abbreviation crlType :: string where "crlType \<equiv> ''X509 CRL''"

fun decodeBlocks :: "nat \<Rightarrow> RevocationList list \<Rightarrow> CRLBlock list
    \<Rightarrow> (RevocationList list \<times> CRLBlock list) res" where
  "decodeBlocks limit out [] = Inr (out, [])"
| "decodeBlocks limit out (b # bs) =
     (if 0 < limit \<and> limit \<le> length out then Inr (out, b # bs)
      else if blkType b \<noteq> crlType then decodeBlocks limit out bs
      else (case blkCRL b of
              None \<Rightarrow> Inl (ErrOther ''parsing CRL in chain'')
            | Some crl \<Rightarrow> decodeBlocks limit (out @ [crl]) bs))"

definition decodeCRLChainRest :: "CRLBlob \<Rightarrow> nat \<Rightarrow> (RevocationList list \<times> CRLBlob) res" where
  "decodeCRLChainRest blob limit =
     (case decodeBlocks limit [] (cbBlocks blob) of
        Inl e \<Rightarrow> Inl e
      | Inr (out, rest) \<Rightarrow> Inr (out, blob\<lparr>cbBlocks := rest\<rparr>))"

definition decodeCRLChain :: "CRLBlob \<Rightarrow> RevocationList list res" where
  "decodeCRLChain blob = map_sum id fst (decodeCRLChainRest blob 0)"

definition maxCRLChainFileEntries :: nat where "maxCRLChainFileEntries = 64"

text \<open>len(bytes.TrimSpace(b)) > 0: a block is never white space.\<close>

definition blobBlank :: "CRLBlob \<Rightarrow> bool" where
  "blobBlank blob = (cbBlocks blob = [] \<and> trim_space (cbRest blob) = [])"

definition decodeCRLChainStrict :: "CRLBlob \<Rightarrow> RevocationList list res" where
  "decodeCRLChainStrict blob =
     (case decodeCRLChainRest blob (maxCRLChainFileEntries + 1) of
        Inl e \<Rightarrow> Inl e
      | Inr (out, rest) \<Rightarrow>
          if maxCRLChainFileEntries < length out then Inl (ErrOther ''too many CRLs'')
          else if \<not> blobBlank rest then Inl (ErrOther ''not on a PEM block boundary'')
          else if out = [] \<and> \<not> blobBlank blob then Inl (ErrOther ''no X509 CRL blocks'')
          else Inr out)"

definition encodeCRLChain :: "RevocationList list \<Rightarrow> CRLBlob" where
  "encodeCRLChain crls =
     \<lparr>cbBlocks = map (\<lambda>crl. \<lparr>blkType = crlType, blkCRL = Some crl\<rparr>) crls, cbRest = []\<rparr>"

definition selectOwnCRL :: "CRLBlob \<Rightarrow> Certificate option \<Rightarrow> RevocationList option res" where
  "selectOwnCRL blob caCert =
     (case decodeCRLChain blob of Inl e \<Rightarrow> Inl e | Inr chain \<Rightarrow> Inr (ownCRLIn chain caCert))"

section \<open>The CA certificate bundle\<close>

record CertBlock =
  cblkType :: string
  cblkCert :: "Certificate option"

fun parseBundleBlocks :: "CertBlock list \<Rightarrow> Certificate list res" where
  "parseBundleBlocks [] = Inr []"
| "parseBundleBlocks (b # bs) =
     (if contains (cblkType b) ''PRIVATE KEY'' then Inl (ErrOther ''private key in bundle'')
      else if cblkType b \<noteq> ''CERTIFICATE'' then parseBundleBlocks bs
      else (case cblkCert b of
              None \<Rightarrow> Inl (ErrOther ''parsing certificate in bundle'')
            | Some c \<Rightarrow> map_sum id (\<lambda>cs. c # cs) (parseBundleBlocks bs)))"

definition ParseCABundle :: "CertBlock list \<Rightarrow> Certificate list res" where
  "ParseCABundle blocks =
     (case parseBundleBlocks blocks of
        Inl e \<Rightarrow> Inl e
      | Inr [] \<Rightarrow> Inl (ErrOther ''no CERTIFICATE blocks'')
      | Inr certs \<Rightarrow> Inr certs)"

section \<open>Ancestors declared by crl_chain_file\<close>

definition signerOf :: "Certificate list \<Rightarrow> RevocationList \<Rightarrow> Certificate option" where
  "signerOf candidates crl = find (\<lambda>cert. crlSignedBy (Some cert) (Some crl)) candidates"

definition signedByAny :: "Certificate list \<Rightarrow> RevocationList \<Rightarrow> bool" where
  "signedByAny candidates crl = (signerOf candidates crl \<noteq> None)"

text \<open>dedupeCRLs: out is the list built so far, at the position of each signer's list.\<close>

fun dedupeFrom :: "Certificate list \<Rightarrow> RevocationList list \<Rightarrow> (Certificate \<rightharpoonup> nat)
    \<Rightarrow> RevocationList list \<Rightarrow> RevocationList list" where
  "dedupeFrom issuers out at [] = out"
| "dedupeFrom issuers out at (crl # crls) =
     (case signerOf issuers crl of
        None \<Rightarrow> dedupeFrom issuers (out @ [crl]) at crls
      | Some signer \<Rightarrow>
          (case at signer of
             None \<Rightarrow> dedupeFrom issuers (out @ [crl]) (at(signer \<mapsto> length out)) crls
           | Some i \<Rightarrow>
               dedupeFrom issuers (if newerCRL crl (out ! i) then out[i := crl] else out) at crls))"

definition dedupeCRLs :: "Certificate list \<Rightarrow> RevocationList list \<Rightarrow> RevocationList list" where
  "dedupeCRLs issuers crls = dedupeFrom issuers [] (\<lambda>_. None) crls"

definition publishedUpstream ::
    "Certificate option \<Rightarrow> CRLBlob option \<Rightarrow> RevocationList list res" where
  "publishedUpstream caCert blob =
     (case blob of
        None \<Rightarrow> Inl (ErrOther ''the published chain was not read'')
      | Some b \<Rightarrow> (case decodeCRLChain b of Inl e \<Rightarrow> Inl e
                  | Inr stored \<Rightarrow> Inr (filter (\<lambda>crl. \<not> ownsCRL caCert crl) stored)))"

text \<open>The newest published list of each signer.\<close>

fun currentUpstream :: "Certificate list \<Rightarrow> (Certificate \<rightharpoonup> RevocationList) \<Rightarrow> RevocationList list
    \<Rightarrow> (Certificate \<rightharpoonup> RevocationList)" where
  "currentUpstream issuers current [] = current"
| "currentUpstream issuers current (crl # crls) =
     (case signerOf issuers crl of
        None \<Rightarrow> currentUpstream issuers current crls
      | Some signer \<Rightarrow>
          (case current signer of
             None \<Rightarrow> currentUpstream issuers (current(signer \<mapsto> crl)) crls
           | Some prev \<Rightarrow> currentUpstream issuers
                            (if newerCRL crl prev then current(signer \<mapsto> crl) else current) crls))"

text \<open>The lists to publish, how many were regressions, and the signers mentioned.\<close>

fun mergeUpstream :: "Certificate list \<Rightarrow> (Certificate \<rightharpoonup> RevocationList) \<Rightarrow> RevocationList list
    \<Rightarrow> RevocationList list \<times> nat \<times> Certificate list" where
  "mergeUpstream issuers current [] = ([], 0, [])"
| "mergeUpstream issuers current (crl # crls) =
     (let (out, regressed, mentioned) = mergeUpstream issuers current crls in
      case signerOf issuers crl of
        None \<Rightarrow> (out, regressed, mentioned)
      | Some signer \<Rightarrow>
          (case current signer of
             None \<Rightarrow> (crl # out, regressed, signer # mentioned)
           | Some prev \<Rightarrow>
               if \<not> newerCRL prev crl then (crl # out, regressed, signer # mentioned)
               else (prev # out, Suc regressed, signer # mentioned)))"

text \<open>How many published ancestors disappear, each signer or issuer counted once.\<close>

fun countRemoved :: "Certificate list \<Rightarrow> Certificate list \<Rightarrow> Name list \<Rightarrow> RevocationList list \<Rightarrow> nat" where
  "countRemoved issuers mentioned unattributable [] = 0"
| "countRemoved issuers mentioned unattributable (crl # crls) =
     (case signerOf issuers crl of
        None \<Rightarrow>
          if rlIssuer crl \<in> set unattributable
          then countRemoved issuers mentioned unattributable crls
          else Suc (countRemoved issuers mentioned (rlIssuer crl # unattributable) crls)
      | Some signer \<Rightarrow>
          if signer \<in> set mentioned then countRemoved issuers mentioned unattributable crls
          else Suc (countRemoved issuers (signer # mentioned) unattributable crls))"

record upstreamResult =
  urCRLs :: "RevocationList list"
  urRegressed :: nat
  urRemoved :: nat

text \<open>A pass that only decides does not count removals.\<close>

definition monotonicUpstream ::
    "Certificate option \<Rightarrow> CRLBlob option \<Rightarrow> Certificate list \<Rightarrow> RevocationList list \<Rightarrow> bool
      \<Rightarrow> upstreamResult res" where
  "monotonicUpstream caCert storedBlob issuers incoming publishing =
     (case publishedUpstream caCert storedBlob of
        Inl e \<Rightarrow> Inl e
      | Inr published \<Rightarrow>
          if published = [] then Inr \<lparr>urCRLs = incoming, urRegressed = 0, urRemoved = 0\<rparr>
          else let current = currentUpstream issuers (\<lambda>_. None) published;
                   (out, regressed, mentioned) = mergeUpstream issuers current incoming
               in Inr \<lparr>urCRLs = out, urRegressed = regressed,
                       urRemoved = (if publishing then countRemoved issuers mentioned [] published
                                    else 0)\<rparr>)"

definition sameCRLSet :: "RevocationList list \<Rightarrow> RevocationList list \<Rightarrow> bool" where
  "sameCRLSet a b = (a = b)"

text \<open>One status per issuer name, with the nearest deadline.\<close>

fun upstreamStatuses :: "(Name \<times> gotime option) list \<Rightarrow> RevocationList list
    \<Rightarrow> (Name \<times> gotime option) list" where
  "upstreamStatuses out [] = out"
| "upstreamStatuses out (crl # crls) =
     (case map_of out (rlIssuer crl) of
        None \<Rightarrow> upstreamStatuses (out @ [(rlIssuer crl, rlNextUpdate crl)]) crls
      | Some prev \<Rightarrow>
          (case rlNextUpdate crl of
             None \<Rightarrow> upstreamStatuses out crls
           | Some t \<Rightarrow>
               if (case prev of None \<Rightarrow> True | Some p \<Rightarrow> t < p)
               then upstreamStatuses (AList.update (rlIssuer crl) (Some t) out) crls
               else upstreamStatuses out crls))"

definition UpstreamCRLStatuses ::
    "Certificate option \<Rightarrow> CRLBlob \<Rightarrow> (Name \<times> gotime option) list res" where
  "UpstreamCRLStatuses caCert blob =
     (case decodeCRLChain blob of Inl e \<Rightarrow> Inl e
      | Inr crls \<Rightarrow> Inr (upstreamStatuses [] (filter (\<lambda>crl. \<not> ownsCRL caCert crl) crls)))"

section \<open>Choosing the newest\<close>

text \<open>
  Import, the cache loader, the re-sign read, the deduplication and the regression check
  all keep the newest list seen.  What they rely on is that the comparison is a strict
  weak order; it is stated once and holds of \<^const>\<open>newerCRL\<close>.
\<close>

fun pickNewest :: "('a \<Rightarrow> 'a \<Rightarrow> bool) \<Rightarrow> 'a option \<Rightarrow> 'a list \<Rightarrow> 'a option" where
  "pickNewest nw b [] = b"
| "pickNewest nw b (x # xs) =
     pickNewest nw (case b of None \<Rightarrow> Some x | Some y \<Rightarrow> Some (if nw x y then x else y)) xs"

locale recency =
  fixes nw :: "'a \<Rightarrow> 'a \<Rightarrow> bool"
  assumes asym: "nw a b \<Longrightarrow> \<not> nw b a"
    and negtrans: "\<lbrakk>\<not> nw a b; \<not> nw b c\<rbrakk> \<Longrightarrow> \<not> nw a c"
begin

lemma irrefl: "\<not> nw a a"
  using asym by blast

lemma pick_mem: "pickNewest nw b xs = Some m \<Longrightarrow> b = Some m \<or> m \<in> set xs"
  by (induction xs arbitrary: b) (auto split: option.splits if_splits)

lemma pick_start: "pickNewest nw (Some y) xs = Some m \<Longrightarrow> \<not> nw y m"
proof (induction xs arbitrary: y)
  case Nil
  then show ?case by (simp add: irrefl)
next
  case (Cons x xs)
  then show ?case
    using negtrans [of y x m] asym [of x y] by (cases "nw x y") auto
qed

lemma nw_trans: "\<lbrakk>nw a b; nw b c\<rbrakk> \<Longrightarrow> nw a c"
  using asym [of b c] negtrans [of a c b] by blast

lemma pick_first: "pickNewest nw (Some y) xs = Some m \<Longrightarrow> m = y \<or> nw m y"
proof (induction xs arbitrary: y)
  case (Cons x xs)
  then show ?case using nw_trans by (cases "nw x y") fastforce+
qed simp

lemma pick_max: "\<lbrakk>pickNewest nw b xs = Some m; x \<in> set xs\<rbrakk> \<Longrightarrow> \<not> nw x m"
proof (induction xs arbitrary: b)
  case (Cons y ys)
  show ?case
  proof (cases "x \<in> set ys")
    case True
    then show ?thesis using Cons by auto
  next
    case False
    then have x: "x = y" using Cons.prems(2) by simp
    show ?thesis
    proof (cases b)
      case None
      then show ?thesis using Cons.prems(1) pick_start x by simp
    next
      case (Some z)
      show ?thesis
      proof (cases "nw y z")
        case True
        then show ?thesis using Cons.prems(1) pick_start x Some by simp
      next
        case False
        then have "\<not> nw z m" using Cons.prems(1) pick_start Some by simp
        then show ?thesis using False negtrans x by blast
      qed
    qed
  qed
qed simp

end

lemma pick_None_iff: "pickNewest nw b xs = None \<longleftrightarrow> b = None \<and> xs = []"
  by (induction xs arbitrary: b) (auto split: option.splits)

interpretation crl: recency newerCRL
  by unfold_locales (auto simp: newerCRL_def split: option.splits)

lemma ownsCRL_eta: "ownsCRL cert = (\<lambda>crl. crlSignedBy cert (Some crl))"
  by (simp add: fun_eq_iff ownsCRL_def)

lemma ownCRLFrom_pick:
  "ownCRLFrom ours chain cert =
     pickNewest newerCRL ours (filter (\<lambda>crl. crlSignedBy cert (Some crl)) chain)"
  by (induction chain arbitrary: ours) (auto split: option.splits)

lemma ownCRLIn_pick:
  "ownCRLIn chain cert = pickNewest newerCRL None (filter (ownsCRL cert) chain)"
  by (simp add: ownCRLIn_def ownCRLFrom_pick ownsCRL_eta)

lemma ownCRLIn_Some:
  assumes "ownCRLIn chain cert = Some m"
  shows "m \<in> set chain" "ownsCRL cert m" "\<lbrakk>x \<in> set chain; ownsCRL cert x\<rbrakk> \<Longrightarrow> \<not> newerCRL x m"
  using assms crl.pick_mem [of None "filter (ownsCRL cert) chain" m]
    crl.pick_max [of None "filter (ownsCRL cert) chain" m x]
  by (auto simp: ownCRLIn_pick)

lemma ownCRLIn_None: "ownCRLIn chain cert = None \<longleftrightarrow> (\<forall>x \<in> set chain. \<not> ownsCRL cert x)"
  by (simp add: ownCRLIn_pick pick_None_iff filter_empty_conv)

lemma ownCRLIn_lead:
  assumes "ownsCRL cert x" "\<forall>y \<in> set rest. \<not> ownsCRL cert y"
  shows "ownCRLIn (x # rest) cert = Some x"
  using assms by (simp add: ownCRLIn_pick)

lemma orderCRLs_spec:
  "orderCRLs ours superseded others crls cert =
     (pickNewest newerCRL ours (filter (ownsCRL cert) crls),
      superseded + (length (filter (ownsCRL cert) crls) - (if ours = None then 1 else 0)),
      others @ filter (\<lambda>crl. \<not> ownsCRL cert crl) crls)"
proof (induction crls arbitrary: ours superseded others)
  case (Cons crl crls)
  have *: "filter (ownsCRL cert) crls \<noteq> [] \<or> length (filter (ownsCRL cert) crls) = 0" by auto
  show ?case
    using Cons.IH by (cases ours) (auto simp: ownsCRL_def)
qed simp

section \<open>Encoding\<close>

lemma decodeBlocks_encoded:
  "decodeBlocks 0 out (map (\<lambda>crl. \<lparr>blkType = crlType, blkCRL = Some crl\<rparr>) crls) = Inr (out @ crls, [])"
  by (induction crls arbitrary: out) auto

lemma decode_encode [simp]: "decodeCRLChain (encodeCRLChain crls) = Inr crls"
  by (simp add: decodeCRLChain_def decodeCRLChainRest_def encodeCRLChain_def decodeBlocks_encoded)

lemma encode_inject [simp]: "encodeCRLChain a = encodeCRLChain b \<longleftrightarrow> a = b"
  by (metis decode_encode sum.inject(2))

lemma decodeBlocks_mem:
  "decodeBlocks limit out bs = Inr (crls, rest) \<Longrightarrow> x \<in> set crls \<Longrightarrow>
     x \<in> set out \<or> (\<exists>b \<in> set bs. blkType b = crlType \<and> blkCRL b = Some x)"
  by (induction limit out bs rule: decodeBlocks.induct) (auto split: if_splits option.splits)

lemma decodeBlocks_unlimited_rest: "decodeBlocks 0 out bs = Inr (crls, rest) \<Longrightarrow> rest = []"
  by (induction "0::nat" out bs rule: decodeBlocks.induct) (auto split: if_splits option.splits)

text \<open>A strict decode that succeeds has read the whole file.\<close>

lemma decodeBlocks_agree:
  "decodeBlocks limit out bs = Inr (crls, []) \<Longrightarrow> decodeBlocks 0 out bs = Inr (crls, [])"
  by (induction limit out bs rule: decodeBlocks.induct) (auto split: if_splits option.splits)

lemma strict_whole_file:
  assumes "decodeCRLChainStrict blob = Inr crls"
  shows "decodeCRLChain blob = Inr crls" "length crls \<le> maxCRLChainFileEntries"
    "trim_space (cbRest blob) = []" "crls = [] \<Longrightarrow> cbBlocks blob = []"
proof -
  obtain rest where d: "decodeBlocks (maxCRLChainFileEntries + 1) [] (cbBlocks blob) = Inr (crls, rest)"
    and b: "blobBlank (blob\<lparr>cbBlocks := rest\<rparr>)" "crls = [] \<Longrightarrow> blobBlank blob"
    and len: "length crls \<le> maxCRLChainFileEntries"
    using assms
    by (auto simp: decodeCRLChainStrict_def decodeCRLChainRest_def split: sum.splits prod.splits if_splits)
  have rest: "rest = []" using b(1) by (simp add: blobBlank_def)
  then have "decodeBlocks 0 [] (cbBlocks blob) = Inr (crls, [])" using d decodeBlocks_agree by blast
  then show "decodeCRLChain blob = Inr crls" by (simp add: decodeCRLChain_def decodeCRLChainRest_def)
  show "length crls \<le> maxCRLChainFileEntries" by (rule len)
  show "trim_space (cbRest blob) = []" using b(1) by (simp add: blobBlank_def)
  show "crls = [] \<Longrightarrow> cbBlocks blob = []" using b(2) by (simp add: blobBlank_def)
qed

section \<open>Ancestors\<close>

lemma signerOf_signs: "signerOf issuers crl = Some s \<Longrightarrow> s \<in> set issuers \<and> rlSignedBy s crl"
  by (auto simp: signerOf_def crlSignedBy_def dest: find_Some_mem)

lemma currentUpstream_pick:
  "currentUpstream issuers current published s =
     pickNewest newerCRL (current s) (filter (\<lambda>crl. signerOf issuers crl = Some s) published)"
  by (induction published arbitrary: current) (auto split: option.splits)

lemma mergeUpstream_out:
  assumes "mergeUpstream issuers current incoming = (out, regressed, mentioned)" "x \<in> set out"
  obtains s where "\<forall>prev. current s = Some prev \<longrightarrow> \<not> newerCRL prev x"
    "(x \<in> set incoming \<and> signerOf issuers x = Some s)
     \<or> (current s = Some x \<and> (\<exists>i \<in> set incoming. signerOf issuers i = Some s))"
proof -
  have "\<exists>s. (\<forall>prev. current s = Some prev \<longrightarrow> \<not> newerCRL prev x) \<and>
      ((x \<in> set incoming \<and> signerOf issuers x = Some s)
       \<or> (current s = Some x \<and> (\<exists>i \<in> set incoming. signerOf issuers i = Some s)))"
    using assms
  proof (induction incoming arbitrary: out regressed mentioned)
    case (Cons crl crls)
    obtain out' r' m' where r: "mergeUpstream issuers current crls = (out', r', m')"
      by (cases "mergeUpstream issuers current crls") auto
    show ?case
    proof (cases "x \<in> set out'")
      case True
      then show ?thesis using Cons.IH [OF r] by fastforce
    next
      case False
      then obtain s where s: "signerOf issuers crl = Some s"
        using Cons.prems r by (auto split: option.splits)
      then show ?thesis
        using Cons.prems r False crl.irrefl by (cases "current s") (auto split: if_splits intro!: exI [of _ s])
    qed
  qed simp
  then show ?thesis using that by blast
qed

text \<open>No ancestor's list moves backwards.\<close>

lemma monotonicUpstream_never_older:
  assumes "monotonicUpstream caCert storedBlob issuers incoming publishing = Inr res"
    and "publishedUpstream caCert storedBlob = Inr published"
    and "p \<in> set published" "x \<in> set (urCRLs res)"
    and "signerOf issuers p = Some s" "signerOf issuers x = Some s"
  shows "\<not> newerCRL p x"
proof -
  have ne: "published \<noteq> []" using assms(3) by auto
  let ?cur = "currentUpstream issuers (\<lambda>_. None) published"
  obtain out regressed mentioned where m: "mergeUpstream issuers ?cur incoming = (out, regressed, mentioned)"
    by (cases "mergeUpstream issuers ?cur incoming") auto
  then have x: "x \<in> set out" using assms(1,2,4) ne by (auto simp: monotonicUpstream_def)
  have pick: "?cur t = pickNewest newerCRL None (filter (\<lambda>crl. signerOf issuers crl = Some t) published)" for t
    by (rule currentUpstream_pick)
  have sg: "signerOf issuers y = Some t" if "?cur t = Some y" for t y
    using crl.pick_mem [of None _ y] that unfolding pick by fastforce
  from mergeUpstream_out [OF m x] obtain t where
    t: "\<forall>prev. ?cur t = Some prev \<longrightarrow> \<not> newerCRL prev x"
    and tx: "(x \<in> set incoming \<and> signerOf issuers x = Some t)
       \<or> (?cur t = Some x \<and> (\<exists>i \<in> set incoming. signerOf issuers i = Some t))" .
  have ts: "t = s" using tx sg [of t x] assms(6) by (elim disjE conjE) simp_all
  have "filter (\<lambda>crl. signerOf issuers crl = Some s) published \<noteq> []"
    using assms(3,5) by (auto simp: filter_empty_conv)
  then obtain prev where prev: "?cur s = Some prev"
    unfolding pick by (cases "pickNewest newerCRL None (filter (\<lambda>crl. signerOf issuers crl = Some s) published)")
      (simp_all add: pick_None_iff)
  have "\<not> newerCRL p prev"
    using crl.pick_max [of None _ prev p] prev assms(3,5) unfolding pick by simp
  moreover have "\<not> newerCRL prev x" using t prev ts by simp
  ultimately show ?thesis by (rule crl.negtrans)
qed

text \<open>What is published was declared by the file or published before.\<close>

lemma dedupeFrom_mem: "x \<in> set (dedupeFrom issuers out at crls) \<Longrightarrow> x \<in> set out \<or> x \<in> set crls"
proof (induction crls arbitrary: out at)
  case (Cons crl crls)
  have upd: "set (out[i := crl]) \<subseteq> insert crl (set out)" for i by (rule set_update_subset_insert)
  show ?case
  proof (cases "signerOf issuers crl")
    case None
    then show ?thesis using Cons.IH [of "out @ [crl]" at] Cons.prems by auto
  next
    case (Some s)
    show ?thesis
    proof (cases "at s")
      case None
      then show ?thesis using Cons.IH [of "out @ [crl]" "at(s \<mapsto> length out)"] Cons.prems Some
        by (auto simp del: fun_upd_apply)
    next
      case at: (Some i)
      then show ?thesis using Cons.IH [of "out[i := crl]" at] Cons.IH [of out at] Cons.prems Some upd [of i]
        by (cases "newerCRL crl (out ! i)") auto
    qed
  qed
qed simp

lemma dedupeCRLs_mem: "x \<in> set (dedupeCRLs issuers crls) \<Longrightarrow> x \<in> set crls"
  using dedupeFrom_mem [of x issuers "[]"] by (simp add: dedupeCRLs_def)

lemma monotonicUpstream_mem:
  assumes "monotonicUpstream caCert storedBlob issuers incoming publishing = Inr res"
    and "x \<in> set (urCRLs res)"
  obtains "x \<in> set incoming" | published where "publishedUpstream caCert storedBlob = Inr published" "x \<in> set published"
proof -
  obtain published where p: "publishedUpstream caCert storedBlob = Inr published"
    using assms(1) by (auto simp: monotonicUpstream_def split: sum.splits)
  let ?cur = "currentUpstream issuers (\<lambda>_. None) published"
  show ?thesis
  proof (cases "published = []")
    case True
    then show ?thesis using assms p that(1) by (auto simp: monotonicUpstream_def)
  next
    case False
    obtain out r m where o: "mergeUpstream issuers ?cur incoming = (out, r, m)"
      by (cases "mergeUpstream issuers ?cur incoming") auto
    then have x: "x \<in> set out" using assms p False by (auto simp: monotonicUpstream_def)
    from mergeUpstream_out [OF o x] obtain s where
      "x \<in> set incoming \<or> ?cur s = Some x" by blast
    then show ?thesis
      using that p crl.pick_mem [of None "filter (\<lambda>crl. signerOf issuers crl = Some s) published" x]
      by (auto simp: currentUpstream_pick)
  qed
qed

lemma publishedUpstream_foreign:
  "publishedUpstream caCert b = Inr published \<Longrightarrow> x \<in> set published \<Longrightarrow> \<not> ownsCRL caCert x"
  by (auto simp: publishedUpstream_def split: option.splits sum.splits)

lemma newerCRL_trans: "newerCRL a b \<Longrightarrow> newerCRL b c \<Longrightarrow> newerCRL a c"
  by (auto simp: newerCRL_def split: option.splits)

lemma decodeBlocks_out: "decodeBlocks 0 out bs = Inr (crls, rest) \<Longrightarrow> \<exists>more. crls = out @ more"
  by (induction "0::nat" out bs rule: decodeBlocks.induct) (auto split: if_splits option.splits)

lemma decode_lead:
  assumes "decodeCRLChain b = Inr chain" "cbBlocks b = blk # bs" "blkType blk = crlType" "blkCRL blk = Some x"
  obtains rest where "chain = x # rest"
  using assms decodeBlocks_out [of "[x]" bs]
  by (auto simp: decodeCRLChain_def decodeCRLChainRest_def split: sum.splits)

end
