(* ===== verification/Autosign.thy ===== *)
theory Autosign
  imports X509 Serial
begin

text \<open>
  The autosign policy (internal/ca/autosign.go): CheckAutosign with the file of patterns
  and the external executable.  filepath.Match, which decides the patterns, is written
  out as Go implements it on Unix, on bytes and runes.  What the file system and the
  executable answer is a parameter.  Lemmas: the file approves exactly the names a
  line of it matches, and a line without metacharacters matches itself only.
\<close>

section \<open>Runes\<close>

definition byte :: "char \<Rightarrow> nat" where "byte c = of_char c"

definition runeError :: nat where "runeError = 65533"

definition cont :: "nat \<Rightarrow> nat \<Rightarrow> char \<Rightarrow> bool" where
  "cont lo hi c = (lo \<le> byte c \<and> byte c \<le> hi)"

text \<open>utf8.DecodeRuneInString: the rune and its width, width one for an invalid sequence.\<close>

definition decodeRune :: "string \<Rightarrow> nat \<times> nat" where
  "decodeRune s =
     (case s of
        [] \<Rightarrow> (runeError, 0)
      | a # r \<Rightarrow>
          (let x = byte a in
           if x < 128 then (x, 1)
           else (case r of
             b # r2 \<Rightarrow>
               if 194 \<le> x \<and> x \<le> 223 \<and> cont 128 191 b then ((x - 192) * 64 + (byte b - 128), 2)
               else (case r2 of
                 c # r3 \<Rightarrow>
                   if 224 \<le> x \<and> x \<le> 239 \<and> cont (if x = 224 then 160 else 128) (if x = 237 then 159 else 191) b
                      \<and> cont 128 191 c
                   then ((x - 224) * 4096 + (byte b - 128) * 64 + (byte c - 128), 3)
                   else (case r3 of
                     d # _ \<Rightarrow>
                       if 240 \<le> x \<and> x \<le> 244 \<and> cont (if x = 240 then 144 else 128) (if x = 244 then 143 else 191) b
                          \<and> cont 128 191 c \<and> cont 128 191 d
                       then ((x - 240) * 262144 + (byte b - 128) * 4096 + (byte c - 128) * 64 + (byte d - 128), 4)
                       else (runeError, 1)
                   | [] \<Rightarrow> (runeError, 1))
               | [] \<Rightarrow> (runeError, 1))
           | [] \<Rightarrow> (runeError, 1))))"

lemma decodeRune_width: "s \<noteq> [] \<Longrightarrow> 0 < snd (decodeRune s)"
  by (auto simp: decodeRune_def Let_def split: list.splits)

section \<open>filepath.Match\<close>

text \<open>The empty sum error is ErrBadPattern.\<close>

definition getEsc :: "string \<Rightarrow> (nat \<times> string) option" where
  "getEsc chunk =
     (if chunk = [] \<or> hd chunk = CHR ''-'' \<or> hd chunk = CHR '']'' then None
      else
        let chunk' = (if hd chunk = CHR 0x5C then tl chunk else chunk) in
        if chunk' = [] then None
        else
          let (r, n) = decodeRune chunk'; rest = drop n chunk' in
          if r = runeError \<and> n = 1 \<or> rest = [] then None else Some (r, rest))"

lemma getEsc_shorter: "getEsc chunk = Some (r, rest) \<Longrightarrow> length rest < length chunk"
  using decodeRune_width [of chunk] decodeRune_width [of "tl chunk"]
  by (cases chunk) (auto simp: getEsc_def Let_def split: if_splits prod.splits)

text \<open>The ranges of a character class up to its closing bracket.\<close>

function scanRanges :: "nat \<Rightarrow> bool \<Rightarrow> bool \<Rightarrow> string \<Rightarrow> (bool \<times> string) option" where
  "scanRanges r some match chunk =
     (if some \<and> chunk \<noteq> [] \<and> hd chunk = CHR '']'' then Some (match, tl chunk)
      else (case getEsc chunk of
        None \<Rightarrow> None
      | Some (lo, rest) \<Rightarrow>
          if hd rest = CHR ''-'' then
            (case getEsc (tl rest) of
               None \<Rightarrow> None
             | Some (hi, rest2) \<Rightarrow> scanRanges r True (match \<or> (lo \<le> r \<and> r \<le> hi)) rest2)
          else scanRanges r True (match \<or> lo = r) rest))"
  by pat_completeness auto
termination
  by (relation "measure (\<lambda>(_, _, _, chunk). length chunk)") (auto dest!: getEsc_shorter)

declare scanRanges.simps [simp del]

lemma scanRanges_shorter: "scanRanges r some m chunk = Some (m', rest) \<Longrightarrow> length rest < length chunk"
proof (induction r some m chunk rule: scanRanges.induct)
  case (1 r some m chunk)
  note eq = 1(3) [unfolded scanRanges.simps [of r some m chunk]]
  show ?case
  proof (cases "some \<and> chunk \<noteq> [] \<and> hd chunk = CHR '']''")
    case True
    then show ?thesis using eq by auto
  next
    case False
    then obtain lo t where g: "getEsc chunk = Some (lo, t)" using eq by (auto split: option.splits)
    note len = getEsc_shorter [OF g]
    show ?thesis
    proof (cases "hd t = CHR ''-''")
      case True
      then obtain hi u where h: "getEsc (tl t) = Some (hi, u)" using eq False g by (auto split: option.splits)
      then have "length rest < length u" using 1(1) [OF False g refl True h refl] eq False g True by simp
      then show ?thesis using getEsc_shorter [OF h] len by simp
    next
      case nodash: False
      then have "length rest < length t" using 1(2) [OF False g refl nodash] eq False g by simp
      then show ?thesis using len by simp
    qed
  qed
qed

text \<open>A character class at the front of a chunk: whether the match fails, and what is left.\<close>

definition matchClass :: "bool \<Rightarrow> string \<Rightarrow> string \<Rightarrow> (bool \<times> string \<times> string) option" where
  "matchClass failed chunk s =
     (let (r, n) = (if failed then (0, 0) else decodeRune s);
          negated = (tl chunk \<noteq> [] \<and> hd (tl chunk) = CHR ''^'');
          body = (if negated then tl (tl chunk) else tl chunk) in
      case scanRanges r False False body of
        None \<Rightarrow> None
      | Some (match, rest) \<Rightarrow> Some (failed \<or> match = negated, rest, drop n s))"

lemma matchClass_shorter:
  assumes "matchClass failed chunk s = Some (f, rest, s')"
  shows "length rest < length chunk"
proof -
  obtain r m body where "scanRanges r False False body = Some (m, rest)" "length body \<le> length chunk"
    using assms by (auto simp: matchClass_def Let_def split: prod.splits option.splits if_splits)
  then show ?thesis using scanRanges_shorter by fastforce
qed

text \<open>
  One chunk against the front of the name.  After a mismatch the chunk is still read to
  its end, so that a malformed pattern is reported.  None is ErrBadPattern.
\<close>

function matchChunk :: "bool \<Rightarrow> string \<Rightarrow> string \<Rightarrow> string option option" where
  "matchChunk failed0 [] s = Some (if failed0 then None else Some s)"
| "matchChunk failed0 (c # chunk) s =
     (if c = CHR ''['' then
        (case matchClass (failed0 \<or> s = []) (c # chunk) s of
           None \<Rightarrow> None
         | Some (f, rest, s') \<Rightarrow> matchChunk f rest s')
      else if c = CHR ''?'' then
        (if failed0 \<or> s = [] then matchChunk True chunk s
         else matchChunk (hd s = CHR ''/'') chunk (drop (snd (decodeRune s)) s))
      else if c = CHR 0x5C then
        (case chunk of
           [] \<Rightarrow> None
         | d # rest \<Rightarrow> if failed0 \<or> s = [] then matchChunk True rest s else matchChunk (d \<noteq> hd s) rest (tl s))
      else if failed0 \<or> s = [] then matchChunk True chunk s
      else matchChunk (c \<noteq> hd s) chunk (tl s))"
  by pat_completeness auto
termination
  by (relation "measure (\<lambda>(_, chunk, _). length chunk)") (auto dest!: matchClass_shorter)

fun scanEnd :: "bool \<Rightarrow> string \<Rightarrow> nat" where
  "scanEnd inrange [] = 0"
| "scanEnd inrange (c # cs) =
     (if c = CHR 0x5C then (case cs of [] \<Rightarrow> 1 | d # ds \<Rightarrow> Suc (Suc (scanEnd inrange ds)))
      else if c = CHR ''['' then Suc (scanEnd True cs)
      else if c = CHR '']'' then Suc (scanEnd False cs)
      else if c = CHR ''*'' \<and> \<not> inrange then 0
      else Suc (scanEnd inrange cs))"

definition scanChunk :: "string \<Rightarrow> bool \<times> string \<times> string" where
  "scanChunk pattern =
     (let p = dropWhile (\<lambda>c. c = CHR ''*'') pattern; i = scanEnd False p in
      (p \<noteq> pattern, take i p, drop i p))"

text \<open>The first place behind a star where the chunk matches.\<close>

fun starSearch :: "string \<Rightarrow> bool \<Rightarrow> string \<Rightarrow> string option option" where
  "starSearch chunk isLast [] = Some None"
| "starSearch chunk isLast (c # cs) =
     (if c = CHR ''/'' then Some None
      else (case matchChunk False chunk cs of
        None \<Rightarrow> None
      | Some (Some t) \<Rightarrow> if isLast \<and> t \<noteq> [] then starSearch chunk isLast cs else Some (Some t)
      | Some None \<Rightarrow> starSearch chunk isLast cs))"

lemma scanEnd_le: "scanEnd b s \<le> length s"
  by (induction b s rule: scanEnd.induct) (auto split: list.splits)

lemma scanEnd_pos: "s \<noteq> [] \<Longrightarrow> hd s \<noteq> CHR ''*'' \<Longrightarrow> 0 < scanEnd False s"
  by (cases s) (auto split: list.splits)

lemma scanChunk_shorter: "pattern \<noteq> [] \<Longrightarrow> length (snd (snd (scanChunk pattern))) < length pattern"
proof -
  assume p: "pattern \<noteq> []"
  let ?p = "dropWhile (\<lambda>c. c = CHR ''*'') pattern"
  have le: "length ?p \<le> length pattern" by (rule length_dropWhile_le)
  show ?thesis
  proof (cases "?p = []")
    case True
    then show ?thesis using p by (simp add: scanChunk_def Let_def del: dropWhile_eq_Nil_conv)
  next
    case False
    then have "0 < scanEnd False ?p" using scanEnd_pos hd_dropWhile [OF False] by blast
    then have "length ?p - scanEnd False ?p < length pattern"
      using le length_greater_0_conv [THEN iffD2, OF p] by arith
    then show ?thesis by (simp add: scanChunk_def Let_def)
  qed
qed

text \<open>The rest of a pattern after a mismatch, checked for well-formedness only.\<close>

function checkRest :: "string \<Rightarrow> bool" where
  "checkRest pattern =
     (if pattern = [] then True
      else matchChunk False (fst (snd (scanChunk pattern))) [] \<noteq> None
        \<and> checkRest (snd (snd (scanChunk pattern))))"
  by pat_completeness auto
termination by (relation "measure length") (simp_all add: scanChunk_shorter)

declare checkRest.simps [simp del]

text \<open>None is ErrBadPattern.\<close>

function filepathMatch :: "string \<Rightarrow> string \<Rightarrow> bool option" where
  "filepathMatch pattern name =
     (if pattern = [] then Some (name = [])
      else
        let star = fst (scanChunk pattern); chunk = fst (snd (scanChunk pattern)); rest = snd (snd (scanChunk pattern)) in
        if star \<and> chunk = [] then Some (CHR ''/'' \<notin> set name)
        else case matchChunk False chunk name of
          None \<Rightarrow> None
        | Some m \<Rightarrow>
            if m \<noteq> None \<and> (the m = [] \<or> rest \<noteq> []) then filepathMatch rest (the m)
            else (case (if star then starSearch chunk (rest = []) name else Some None) of
              None \<Rightarrow> None
            | Some (Some t) \<Rightarrow> filepathMatch rest t
            | Some None \<Rightarrow> if checkRest rest then Some False else None))"
  by pat_completeness auto
termination by (relation "measure (length \<circ> fst)") (simp_all add: scanChunk_shorter)

declare filepathMatch.simps [simp del]

section \<open>The policy\<close>

record AutosignConfig =
  Mode :: string
  FileOrPath :: string
  AllowUnsafePath :: bool

text \<open>The file as opening and scanning it answer; the flag is a scan that ended in an error.\<close>

datatype hostFile = FileAbsent | FileUnreadable | FileText string bool

text \<open>
  What the host answers: a file by its path; resolving the executable on a given attempt,
  with the findings on its path; running it on a name.  ErrNotExist is a file gone between
  the two.
\<close>

record autosignHost =
  hostFileAt :: "string \<Rightarrow> hostFile"
  ResolveAutosignExecutable :: "nat \<Rightarrow> string \<Rightarrow> (string \<times> string list) res"
  runAutosignExecutable :: "nat \<Rightarrow> string \<Rightarrow> string \<Rightarrow> bool res"

definition lineMatches :: "string \<Rightarrow> string \<Rightarrow> bool" where
  "lineMatches commonName text =
     (let line = trim_space text in
      line \<noteq> [] \<and> \<not> has_prefix line ''#'' \<and> filepathMatch line commonName = Some True)"

definition checkAutosignFile :: "autosignHost \<Rightarrow> string \<Rightarrow> string \<Rightarrow> bool res" where
  "checkAutosignFile host path commonName =
     (case hostFileAt host path of
        FileAbsent \<Rightarrow> Inr False
      | FileUnreadable \<Rightarrow> Inl ErrBackend
      | FileText text scanFailed \<Rightarrow>
          if list_ex (lineMatches commonName) (split_on (CHR 0x0A) text) then Inr True
          else if scanFailed then Inl ErrBackend else Inr False)"

definition judgeAutosignExecutable :: "autosignHost \<Rightarrow> AutosignConfig \<Rightarrow> nat \<Rightarrow> string res" where
  "judgeAutosignExecutable host cfg attempt =
     (case ResolveAutosignExecutable host attempt (FileOrPath cfg) of
        Inl e \<Rightarrow> Inl e
      | Inr (resolved, findings) \<Rightarrow>
          if findings \<noteq> [] \<and> \<not> AllowUnsafePath cfg
          then Inl (ErrOther ''refusing to run autosign executable'') else Inr resolved)"

definition judgeAndRun :: "autosignHost \<Rightarrow> AutosignConfig \<Rightarrow> string \<Rightarrow> nat \<Rightarrow> bool res" where
  "judgeAndRun host cfg commonName attempt =
     (case judgeAutosignExecutable host cfg attempt of
        Inl e \<Rightarrow> Inl e
      | Inr resolved \<Rightarrow> runAutosignExecutable host attempt resolved commonName)"

text \<open>A second attempt only when the judged file was gone by the time it was run.\<close>

definition checkAutosignExecutable :: "autosignHost \<Rightarrow> AutosignConfig \<Rightarrow> string \<Rightarrow> bool res" where
  "checkAutosignExecutable host cfg commonName =
     (case judgeAutosignExecutable host cfg 0 of
        Inl e \<Rightarrow> Inl e
      | Inr resolved \<Rightarrow>
          (case runAutosignExecutable host 0 resolved commonName of
             Inl ErrNotExist \<Rightarrow> judgeAndRun host cfg commonName 1
           | r \<Rightarrow> r))"

definition CheckAutosign :: "autosignHost \<Rightarrow> AutosignConfig \<Rightarrow> CertificateRequest \<Rightarrow> bool res" where
  "CheckAutosign host cfg csr =
     (if Mode cfg = ''true'' then Inr True
      else if Mode cfg = ''file'' then checkAutosignFile host (FileOrPath cfg) (nmCommonName (csrSubject csr))
      else if Mode cfg = ''executable'' then checkAutosignExecutable host cfg (nmCommonName (csrSubject csr))
      else Inr False)"

section \<open>Literal lines\<close>

definition metaChar :: "char \<Rightarrow> bool" where
  "metaChar c = (c \<in> {CHR ''*'', CHR ''?'', CHR ''['', CHR 0x5C})"

lemma scanEnd_literal: "list_all (\<lambda>c. \<not> metaChar c) s \<Longrightarrow> scanEnd False s = length s"
  by (induction s) (auto simp: metaChar_def)

lemma matchChunk_failed: "list_all (\<lambda>c. \<not> metaChar c) chunk \<Longrightarrow> matchChunk True chunk s = Some None"
  by (induction chunk arbitrary: s) (auto simp: metaChar_def)

lemma matchChunk_literal:
  "list_all (\<lambda>c. \<not> metaChar c) chunk \<Longrightarrow>
     matchChunk False chunk s = Some (if prefix chunk s then Some (drop (length chunk) s) else None)"
proof (induction chunk arbitrary: s)
  case (Cons c chunk)
  have f: "matchChunk True chunk t = Some None" for t using Cons.prems by (simp add: matchChunk_failed)
  have nm: "c \<noteq> CHR ''?''" "c \<noteq> CHR ''[''" "c \<noteq> CHR 0x5C" using Cons.prems by (auto simp: metaChar_def)
  show ?case using Cons.IH Cons.prems by (cases s; cases "c = hd s") (auto simp: f nm)
qed simp

text \<open>A pattern without metacharacters matches its own text and nothing else.\<close>

lemma filepathMatch_literal:
  assumes "list_all (\<lambda>c. \<not> metaChar c) p"
  shows "filepathMatch p name = Some (name = p)"
proof (cases p)
  case Nil
  then show ?thesis by (simp add: filepathMatch.simps)
next
  case (Cons c cs)
  then have "dropWhile (\<lambda>c. c = CHR ''*'') p = p" using assms by (simp add: metaChar_def)
  then have "scanChunk p = (False, p, [])" using scanEnd_literal [OF assms] by (simp add: scanChunk_def)
  then show ?thesis
    using Cons matchChunk_literal [OF assms, of name]
    by (subst filepathMatch.simps) (auto simp: prefix_def filepathMatch.simps [of "[]"] checkRest.simps [of "[]"])
qed

section \<open>Properties\<close>

text \<open>
  C40. With a pattern file whose lines hold no metacharacters, the policy approves exactly
  the names that stand on a line of it, comment lines aside; every other mode than the
  three configured ones approves nothing.
\<close>

theorem autosign_literal_file:
  assumes "Mode cfg = ''file''" "hostFileAt host (FileOrPath cfg) = FileText text False"
    and "\<forall>line \<in> set (split_on (CHR 0x0A) text). list_all (\<lambda>c. \<not> metaChar c) (trim_space line)"
  shows "CheckAutosign host cfg csr = Inr (nmCommonName (csrSubject csr) \<noteq> []
      \<and> \<not> has_prefix (nmCommonName (csrSubject csr)) ''#''
      \<and> nmCommonName (csrSubject csr) \<in> trim_space ` set (split_on (CHR 0x0A) text))
    \<and> (Mode other \<notin> {''true'', ''file'', ''executable''} \<longrightarrow> CheckAutosign host other csr = Inr False)"
proof -
  have "list_ex (lineMatches name) (split_on (CHR 0x0A) text) = (name \<noteq> [] \<and> \<not> has_prefix name ''#''
      \<and> name \<in> trim_space ` set (split_on (CHR 0x0A) text))" for name
    using assms(3) by (auto simp: list_ex_iff lineMatches_def Let_def filepathMatch_literal)
  then show ?thesis using assms(1,2) by (simp add: CheckAutosign_def checkAutosignFile_def)
qed

definition demoHost :: autosignHost where
  "demoHost = \<lparr>hostFileAt = (\<lambda>_. FileText (''web'' @ [CHR 0x0A] @ ''db'') False),
     ResolveAutosignExecutable = (\<lambda>_ p. Inr (p, [])), runAutosignExecutable = (\<lambda>_ _ _. Inr False)\<rparr>"

definition demoAutosign :: "string \<Rightarrow> AutosignConfig" where
  "demoAutosign m = \<lparr>Mode = m, FileOrPath = ''/f'', AllowUnsafePath = False\<rparr>"

definition demoRequest :: "string \<Rightarrow> CertificateRequest" where
  "demoRequest cn = \<lparr>csrSubject = \<lparr>nmCommonName = cn, nmAttributes = [], nmUnmodelled = []\<rparr>,
     csrPublicKey = ECDSAKey P256 2, csrExtensions = [], csrSignatureOk = True\<rparr>"

theorem autosign_literal_file_witness:
  "CheckAutosign demoHost (demoAutosign ''file'') (demoRequest ''db'') = Inr True
     \<and> CheckAutosign demoHost (demoAutosign ''file'') (demoRequest ''app'') = Inr False
     \<and> CheckAutosign demoHost (demoAutosign ''off'') (demoRequest ''db'') = Inr False"
proof -
  have "trim_space ''web'' = ''web''" "trim_space ''db'' = ''db''"
    by (rule trim_space_plain; simp add: plain_char_def plain_def)+
  then show ?thesis
    using autosign_literal_file [of "demoAutosign ''file''" demoHost "''web'' @ [CHR 0x0A] @ ''db''" "demoRequest ''db''" "demoAutosign ''off''"]
      autosign_literal_file [of "demoAutosign ''file''" demoHost "''web'' @ [CHR 0x0A] @ ''db''" "demoRequest ''app''" "demoAutosign ''off''"]
    by (simp add: demoHost_def demoAutosign_def demoRequest_def metaChar_def)
qed

end
