(* ===== verification/World.thy ===== *)
theory World
  imports Inventory Oids Subject CrlChain Autosign
begin

text \<open>
  The state the operations run on, and how they run.  A world is the shared store, this
  replica's CA value (internal/ca/ca.go), its configuration, and the environment: the
  clock, the random source, the outcome of each backend call still to come and the locks
  held.  Every call to the backend and every
  lock acquisition consumes one outcome: it may succeed, fail without effect, or, for a
  write, take effect and still report a failure, as a network backend can.  The theorems
  quantify over all outcomes.  Operations are computations of the state monad of
  HOL-Library; a fallible one returns a sum.
\<close>

section \<open>Locks and faults\<close>

datatype outcome = Succeeds | FailsBefore | FailsAfter

text \<open>The lock tiers: a subject's lock, the cluster CRL lock, and the CA's own mutex.\<close>

datatype lockName = LockSubject string | LockCRL | LockMu

fun lockRank :: "lockName \<Rightarrow> nat" where
  "lockRank (LockSubject s) = 0" | "lockRank LockCRL = 1" | "lockRank LockMu = 2"

section \<open>The shared store\<close>

record supersededEntry =
  seSerial :: string
  seSubject :: string
  seRevokeAt :: gotime

text \<open>What decoding the stored list answers: the entries recovered, and whether it failed.\<close>

record supersededBlob =
  sbEntries :: "supersededEntry list"
  sbCorrupt :: bool

datatype inventory = InvBlob "bytes option" | InvRows "sqlInventoryRow list"

record store =
  stCACert :: "CertBlock list option"
  stCSRs :: "(string \<times> CertificateRequest pem) list"
  stCerts :: "(string \<times> Certificate pem) list"
  stCRL :: "CRLBlob option"
  stSuperseded :: "supersededBlob option"
  stInventory :: inventory
  stInventoryHMAC :: "bytes option"

section \<open>The replica\<close>

datatype hashAlg = SHA1 | SHA256 | SHA384 | SHA512 | OtherHash nat

datatype ocspStatus = OCSPGood | OCSPRevoked gotime | OCSPUnknown

record ocspResponse =
  orSerial :: int
  orHash :: hashAlg
  orStatus :: ocspStatus
  orThisUpdate :: gotime
  orNextUpdate :: "gotime option"
  orNonce :: "bytes option"

record ocspCacheEntry =
  oceResponse :: ocspResponse
  oceExpiresAt :: gotime

text \<open>The crl_chain_file as the bounded read answers it.\<close>

datatype chainFile = ChainFileAbsent | ChainFileUnreadable | ChainFileData CRLBlob

text \<open>
  The settings of the process, with the three things outside it that stay fixed during an
  operation: HMAC-SHA256, what the host answers the autosign policy, and the content of the
  crl_chain_file.
\<close>

record KeyConfig =
  Algo :: string
  Size :: int

record config =
  LeafValidityDays :: int
  LeafBackdate :: duration
  CRLValidityDays :: int
  SigningConcurrency :: int
  LeafKeyConfig :: KeyConfig
  PromoteCNToSAN :: bool
  AllowSubjectAltNames :: bool
  AllowDuplicateCerts :: bool
  RevokeOnAutoRenew :: bool
  SupersedeAfter :: duration
  CRLURLs :: "string list"
  OCSPURLs :: "string list"
  CRLChainFile :: string
  chainFileData :: chainFile
  hmacSHA256 :: "bytes \<Rightarrow> bytes \<Rightarrow> bytes"
  autosignConfig :: AutosignConfig
  autosignHostOf :: autosignHost

record CA =
  CACert :: "Certificate option"
  CAKey :: "PublicKey option" \<comment> \<open>the public half of the signer\<close>
  hmacKey :: "bytes option"
  cachedCRL :: "RevocationList option"
  serialIndex :: "(string \<times> string) list"
  serialIndexEpoch :: nat
  serialIndexRemovalEpoch :: nat
  serialIndexSyncFailures :: nat
  signingShed :: nat
  ocspCache :: "((string \<times> hashAlg) \<times> ocspCacheEntry) list"
  crlNotify :: bool
  crlUpdateFailures :: nat
  crlSyncFailures :: nat
  supersedeFailures :: nat
  crlChainFailures :: nat
  crlChainLastRead :: int \<comment> \<open>Unix seconds\<close>
  crlChainDiscarded :: nat
  crlChainRegressed :: nat
  crlChainRemoved :: nat
  privateKeys :: "(string \<times> PublicKey) list" \<comment> \<open>on the local disk, by their public half\<close>

section \<open>The environment\<close>

record env =
  eNow :: gotime
  eTicks :: "nat list" \<comment> \<open>how far the clock moves before each reading\<close>
  eRand :: "nat list"
  eOutcomes :: "outcome list"
  eHeld :: "lockName list"
  eDeadlock :: bool

record world =
  wStore :: store
  wCA :: CA
  wConfig :: config
  wEnv :: env

section \<open>Computations\<close>

type_synonym 'a comp = "(world, 'a) state"
type_synonym 'a opr = "(world, 'a res) state"

definition bindE :: "'a opr \<Rightarrow> ('a \<Rightarrow> 'b opr) \<Rightarrow> 'b opr" where
  "bindE m f = State (\<lambda>w. case run_state m w of
     (Inl e, w') \<Rightarrow> (Inl e, w') | (Inr x, w') \<Rightarrow> run_state (f x) w')"

definition ok :: "'a \<Rightarrow> 'a opr" where "ok x = State_Monad.return (Inr x)"
definition fail :: "err \<Rightarrow> 'a opr" where "fail e = State_Monad.return (Inl e)"
definition lift :: "'a res \<Rightarrow> 'a opr" where "lift r = State_Monad.return r"

definition gets :: "(world \<Rightarrow> 'a) \<Rightarrow> 'a comp" where
  "gets f = State (\<lambda>w. (f w, w))"

definition getsE :: "(world \<Rightarrow> 'a) \<Rightarrow> 'a opr" where
  "getsE f = State (\<lambda>w. (Inr (f w), w))"

definition modify :: "(world \<Rightarrow> world) \<Rightarrow> unit comp" where
  "modify f = State (\<lambda>w. ((), f w))"

text \<open>A statement without a result inside a fallible computation.\<close>

definition perform :: "'a comp \<Rightarrow> 'a opr" where
  "perform m = State (\<lambda>w. case run_state m w of (x, w') \<Rightarrow> (Inr x, w'))"

text \<open>A call whose error is only looked at: the error becomes a value.\<close>

definition attempt :: "'a opr \<Rightarrow> 'a res opr" where
  "attempt m = State (\<lambda>w. case run_state m w of (r, w') \<Rightarrow> (Inr r, w'))"

text \<open>Some work done when a computation has failed, before the error is returned.\<close>

definition onError :: "'a opr \<Rightarrow> (err \<Rightarrow> unit comp) \<Rightarrow> 'a opr" where
  "onError m h = State (\<lambda>w. case run_state m w of
     (Inl e, w') \<Rightarrow> (Inl e, snd (run_state (h e) w')) | (Inr x, w') \<Rightarrow> (Inr x, w'))"

definition updCA :: "(CA \<Rightarrow> CA) \<Rightarrow> world \<Rightarrow> world" where
  "updCA f w = w\<lparr>wCA := f (wCA w)\<rparr>"

definition updStore :: "(store \<Rightarrow> store) \<Rightarrow> world \<Rightarrow> world" where
  "updStore f w = w\<lparr>wStore := f (wStore w)\<rparr>"

definition updEnv :: "(env \<Rightarrow> env) \<Rightarrow> world \<Rightarrow> world" where
  "updEnv f w = w\<lparr>wEnv := f (wEnv w)\<rparr>"

definition changeCA :: "(CA \<Rightarrow> CA) \<Rightarrow> unit opr" where
  "changeCA f = perform (modify (updCA f))"

subsection \<open>The environment's answers\<close>

definition nextOutcome :: "outcome comp" where
  "nextOutcome = State (\<lambda>w. case eOutcomes (wEnv w) of
     [] \<Rightarrow> (Succeeds, w) | x # xs \<Rightarrow> (x, updEnv (eOutcomes_update (\<lambda>_. xs)) w))"

definition timeNow :: "gotime opr" where
  "timeNow = State (\<lambda>w. case eTicks (wEnv w) of
     [] \<Rightarrow> (Inr (eNow (wEnv w)), w)
   | d # ds \<Rightarrow> (Inr (eNow (wEnv w) + int d),
       updEnv (\<lambda>e. e\<lparr>eNow := eNow e + int d, eTicks := ds\<rparr>) w))"

text \<open>rand.Int(rand.Reader, limit).\<close>

definition randInt :: "nat \<Rightarrow> int opr" where
  "randInt limit = State (\<lambda>w. case eRand (wEnv w) of
     [] \<Rightarrow> (Inl (ErrOther ''failed to generate serial''), w)
   | r # rs \<Rightarrow> (Inr (int (r mod limit)), updEnv (eRand_update (\<lambda>_. rs)) w))"

subsection \<open>Backend calls\<close>

definition backendRead :: "(store \<Rightarrow> 'a res) \<Rightarrow> 'a opr" where
  "backendRead f = State (\<lambda>w. case run_state nextOutcome w of
     (Succeeds, w') \<Rightarrow> (f (wStore w'), w') | (_, w') \<Rightarrow> (Inl ErrBackend, w'))"

definition backendWrite :: "(store \<Rightarrow> (store \<times> 'a) res) \<Rightarrow> 'a opr" where
  "backendWrite f = State (\<lambda>w. case run_state nextOutcome w of
     (FailsBefore, w') \<Rightarrow> (Inl ErrBackend, w')
   | (out, w') \<Rightarrow> (case f (wStore w') of
        Inl e \<Rightarrow> (Inl e, w')
      | Inr (st, x) \<Rightarrow> (if out = Succeeds then Inr x else Inl ErrBackend, w'\<lparr>wStore := st\<rparr>)))"

text \<open>A write to the local disk, which is the replica's own.\<close>

definition localWrite :: "(CA \<Rightarrow> CA) \<Rightarrow> unit opr" where
  "localWrite f =
     bindE (perform nextOutcome) (\<lambda>out.
     case out of
       FailsBefore \<Rightarrow> fail ErrBackend
     | FailsAfter \<Rightarrow> bindE (changeCA f) (\<lambda>_. fail ErrBackend)
     | Succeeds \<Rightarrow> changeCA f)"

text \<open>A call to something else outside the process, a remote signer or a wait, which may fail.\<close>

definition externalCall :: "'a res \<Rightarrow> 'a opr" where
  "externalCall r = backendRead (\<lambda>_. r)"

subsection \<open>Locks\<close>

text \<open>
  Acquiring a lock while one of the same or a higher rank is held can wait for ever, as
  no lock is reentrant and no deadline ends a wait inside the process; the flag records it.
\<close>

definition enterLock :: "lockName \<Rightarrow> world \<Rightarrow> world" where
  "enterLock n w = updEnv (\<lambda>e. e\<lparr>eHeld := n # eHeld e,
     eDeadlock := (eDeadlock e \<or> (\<exists>m \<in> set (eHeld e). lockRank n \<le> lockRank m))\<rparr>) w"

definition leaveLock :: "world \<Rightarrow> world" where
  "leaveLock w = updEnv (eHeld_update tl) w"

definition WithLock :: "lockName \<Rightarrow> 'a opr \<Rightarrow> 'a opr" where
  "WithLock n fn = State (\<lambda>w. case run_state nextOutcome w of
     (Succeeds, w') \<Rightarrow> (case run_state fn (enterLock n w') of (r, w'') \<Rightarrow> (r, leaveLock w''))
   | (_, w') \<Rightarrow> (Inl ErrBackend, w'))"

text \<open>c.mu.Lock with a deferred Unlock; read locks are the same here.\<close>

definition withMu :: "'a opr \<Rightarrow> 'a opr" where
  "withMu fn = State (\<lambda>w. case run_state fn (enterLock LockMu w) of (r, w') \<Rightarrow> (r, leaveLock w'))"

section \<open>Running computations\<close>

lemma run_simps [simp]:
  "run_state (ok x) w = (Inr x, w)" "run_state (fail e) w = (Inl e, w)" "run_state (lift r) w = (r, w)"
  "run_state (gets f) w = (f w, w)" "run_state (getsE f) w = (Inr (f w), w)"
  "run_state (modify g) w = ((), g w)" "run_state (changeCA h) w = (Inr (), updCA h w)"
  by (simp_all add: ok_def fail_def lift_def gets_def getsE_def modify_def changeCA_def perform_def)

lemma run_bindE:
  "run_state (bindE m f) w =
     (case run_state m w of (Inl e, w') \<Rightarrow> (Inl e, w') | (Inr x, w') \<Rightarrow> run_state (f x) w')"
  by (simp add: bindE_def)

lemma run_perform: "run_state (perform m) w = (case run_state m w of (x, w') \<Rightarrow> (Inr x, w'))"
  by (simp add: perform_def)

lemma run_attempt: "run_state (attempt m) w = (case run_state m w of (r, w') \<Rightarrow> (Inr r, w'))"
  by (simp add: attempt_def)

lemma run_onError:
  "run_state (onError m h) w = (case run_state m w of
     (Inl e, w') \<Rightarrow> (Inl e, snd (run_state (h e) w')) | (Inr x, w') \<Rightarrow> (Inr x, w'))"
  by (simp add: onError_def)

lemma bindE_assoc: "bindE (bindE m f) g = bindE m (\<lambda>x. bindE (f x) g)"
  by (rule state.expand) (auto simp: bindE_def fun_eq_iff split: prod.splits sum.splits)

text \<open>Backward reading of a run, one statement at a time.\<close>

lemma bindE_E:
  assumes "run_state (bindE m f) w = (r, w')"
  obtains (error) e where "run_state m w = (Inl e, w')" "r = Inl e"
    | (step) x v where "run_state m w = (Inr x, v)" "run_state (f x) v = (r, w')"
  using assms by (auto simp: run_bindE split: prod.splits sum.splits)

lemma bindE_okE:
  assumes "run_state (bindE m f) w = (Inr y, w')"
  obtains x v where "run_state m w = (Inr x, v)" "run_state (f x) v = (Inr y, w')"
  using assms by (auto simp: run_bindE split: prod.splits sum.splits)

lemma attemptE:
  assumes "run_state (attempt m) w = (r, w')"
  obtains x where "run_state m w = (x, w')" "r = Inr x"
  using assms by (auto simp: run_attempt split: prod.splits)

lemma performE:
  assumes "run_state (perform m) w = (r, w')"
  obtains x where "run_state m w = (x, w')" "r = Inr x"
  using assms by (auto simp: run_perform split: prod.splits)

lemma onErrorE:
  assumes "run_state (onError m h) w = (r, w')"
  obtains (error) e v where "run_state m w = (Inl e, v)" "r = Inl e" "w' = snd (run_state (h e) v)"
    | (fine) x where "run_state m w = (Inr x, w')" "r = Inr x"
  using assms by (auto simp: run_onError split: prod.splits sum.splits)

lemma upd_simps [simp]:
  "wStore (updCA f w) = wStore w" "wCA (updCA f w) = f (wCA w)" "wConfig (updCA f w) = wConfig w"
  "wEnv (updCA f w) = wEnv w"
  "wStore (updEnv g w) = wStore w" "wCA (updEnv g w) = wCA w" "wConfig (updEnv g w) = wConfig w"
  "wEnv (updEnv g w) = g (wEnv w)"
  "wStore (updStore h w) = h (wStore w)" "wCA (updStore h w) = wCA w" "wConfig (updStore h w) = wConfig w"
  "wEnv (updStore h w) = wEnv w"
  by (simp_all add: updCA_def updEnv_def updStore_def)

lemma lock_simps [simp]:
  "wStore (enterLock n w) = wStore w" "wCA (enterLock n w) = wCA w" "wConfig (enterLock n w) = wConfig w"
  "wStore (leaveLock w) = wStore w" "wCA (leaveLock w) = wCA w" "wConfig (leaveLock w) = wConfig w"
  by (simp_all add: enterLock_def leaveLock_def)

lemma lock_env [simp]:
  "eNow (wEnv (enterLock n w)) = eNow (wEnv w)" "eTicks (wEnv (enterLock n w)) = eTicks (wEnv w)"
  "eRand (wEnv (enterLock n w)) = eRand (wEnv w)" "eOutcomes (wEnv (enterLock n w)) = eOutcomes (wEnv w)"
  "eNow (wEnv (leaveLock w)) = eNow (wEnv w)" "eTicks (wEnv (leaveLock w)) = eTicks (wEnv w)"
  "eRand (wEnv (leaveLock w)) = eRand (wEnv w)" "eOutcomes (wEnv (leaveLock w)) = eOutcomes (wEnv w)"
  by (simp_all add: enterLock_def leaveLock_def)

text \<open>Two worlds that differ in the environment only.\<close>

definition sameState :: "world \<Rightarrow> world \<Rightarrow> bool" where
  "sameState w v = (wStore v = wStore w \<and> wCA v = wCA w \<and> wConfig v = wConfig w)"

lemma sameState_refl [simp]: "sameState w w"
  and sameState_trans: "sameState w v \<Longrightarrow> sameState v u \<Longrightarrow> sameState w u"
  and sameState_upd [simp]: "sameState w (updEnv g w)" "sameState w (enterLock n w)"
    "sameState w (leaveLock w)"
  by (simp_all add: sameState_def)

lemma nextOutcome_same: "run_state nextOutcome w = (x, v) \<Longrightarrow> sameState w v"
  by (auto simp: nextOutcome_def split: list.splits)

lemma timeNow_same: "run_state timeNow w = (r, v) \<Longrightarrow> sameState w v \<and> (\<exists>t. r = Inr t)"
  by (auto simp: timeNow_def split: list.splits)

lemma randInt_same: "run_state (randInt k) w = (r, v) \<Longrightarrow> sameState w v"
  by (auto simp: randInt_def split: list.splits)

lemma backendRead_same: "run_state (backendRead f) w = (r, v) \<Longrightarrow> sameState w v"
  by (auto simp: backendRead_def split: prod.splits outcome.splits dest!: nextOutcome_same)

lemma backendRead_ok: "run_state (backendRead f) w = (Inr x, v) \<Longrightarrow> f (wStore w) = Inr x"
  by (auto simp: backendRead_def sameState_def split: prod.splits outcome.splits dest!: nextOutcome_same)

lemma externalCall_same: "run_state (externalCall x) w = (r, v) \<Longrightarrow> sameState w v"
  by (simp add: externalCall_def backendRead_same)

lemma externalCall_ok: "run_state (externalCall x) w = (Inr y, v) \<Longrightarrow> x = Inr y"
  by (auto simp: externalCall_def dest: backendRead_ok)

lemma backendWrite_cases:
  assumes "run_state (backendWrite f) w = (r, v)"
  obtains (unchanged) e where "sameState w v" "r = Inl e"
    | (written) st x where "f (wStore w) = Inr (st, x)" "wStore v = st" "wCA v = wCA w"
        "wConfig v = wConfig w" "r = Inr x \<or> r = Inl ErrBackend"
proof -
  obtain out u where u: "run_state nextOutcome w = (out, u)" by fastforce
  note s = nextOutcome_same [OF u]
  show ?thesis
  proof (cases "out = FailsBefore \<or> (\<exists>e. f (wStore u) = Inl e)")
    case True
    then show ?thesis using assms u s unchanged
      by (auto simp: backendWrite_def split: outcome.splits)
  next
    case False
    then obtain st x where f: "f (wStore u) = Inr (st, x)" by (cases "f (wStore u)") auto
    then show ?thesis using assms u s False written [of st x]
      by (auto simp: backendWrite_def sameState_def split: outcome.splits if_splits)
  qed
qed

lemma backendPut_cases:
  assumes "run_state (backendWrite (\<lambda>st. Inr (g st, y))) w = (r, v)"
  obtains (unchanged) e where "sameState w v" "r = Inl e"
    | (written) "wStore v = g (wStore w)" "wCA v = wCA w" "wConfig v = wConfig w"
        "r = Inr y \<or> r = Inl ErrBackend"
  using assms by (cases rule: backendWrite_cases) auto

lemma backendWrite_ok:
  assumes "run_state (backendWrite f) w = (Inr x, v)"
  shows "f (wStore w) = Inr (wStore v, x)" "wCA v = wCA w" "wConfig v = wConfig w"
  using assms by (auto elim!: backendWrite_cases)

lemma WithLock_cases:
  assumes "run_state (WithLock n fn) w = (r, v)"
  obtains (refused) "sameState w v" "r = Inl ErrBackend"
    | (ran) u u' where "sameState w u" "run_state fn u = (r, u')" "sameState u' v"
proof -
  obtain out u where u: "run_state nextOutcome w = (out, u)" by fastforce
  note s = nextOutcome_same [OF u]
  show ?thesis
  proof (cases "out = Succeeds")
    case True
    obtain r' u' where "run_state fn (enterLock n u) = (r', u')" by fastforce
    then show ?thesis
      using assms u s True ran [of "enterLock n u" u'] sameState_trans [OF s, of "enterLock n u"]
      by (auto simp: WithLock_def)
  next
    case False
    then show ?thesis using assms u s refused by (auto simp: WithLock_def split: outcome.splits)
  qed
qed

lemma withMu_cases:
  assumes "run_state (withMu fn) w = (r, v)"
  obtains u u' where "sameState w u" "run_state fn u = (r, u')" "sameState u' v"
  using assms that [of "enterLock LockMu w"]
  by (auto simp: withMu_def split: prod.splits)

section \<open>Runs without faults\<close>

definition faultless :: "world \<Rightarrow> bool" where
  "faultless w = (eOutcomes (wEnv w) = [])"

definition clockOf :: "world \<Rightarrow> gotime" where
  "clockOf w = (case eTicks (wEnv w) of [] \<Rightarrow> eNow (wEnv w) | d # _ \<Rightarrow> eNow (wEnv w) + int d)"

lemma faultless_upd [simp]:
  "faultless (updCA f w) = faultless w" "faultless (enterLock n w) = faultless w"
  "faultless (leaveLock w) = faultless w" "faultless (w\<lparr>wStore := st\<rparr>) = faultless w"
  by (simp_all add: faultless_def)

lemma clockOf_lock [simp]: "clockOf (enterLock n w) = clockOf w"
  by (simp add: clockOf_def split: list.split)

lemma live_read: "faultless w \<Longrightarrow> run_state (backendRead f) w = (f (wStore w), w)"
  by (simp add: faultless_def backendRead_def nextOutcome_def)

lemma live_external: "faultless w \<Longrightarrow> run_state (externalCall r) w = (r, w)"
  by (simp add: externalCall_def live_read)

lemma live_write:
  "faultless w \<Longrightarrow> run_state (backendWrite f) w =
     (case f (wStore w) of Inl e \<Rightarrow> (Inl e, w) | Inr (st, x) \<Rightarrow> (Inr x, w\<lparr>wStore := st\<rparr>))"
  by (simp add: faultless_def backendWrite_def nextOutcome_def split: sum.split)

lemma live_lock:
  "faultless w \<Longrightarrow> run_state (WithLock n fn) w =
     (case run_state fn (enterLock n w) of (r, v) \<Rightarrow> (r, leaveLock v))"
  by (simp add: faultless_def WithLock_def nextOutcome_def)

lemma live_mu: "run_state (withMu fn) w = (case run_state fn (enterLock LockMu w) of (r, v) \<Rightarrow> (r, leaveLock v))"
  by (simp add: withMu_def)

lemma live_time:
  obtains v where "run_state timeNow w = (Inr (clockOf w), v)" "sameState w v" "faultless v = faultless w"
    "eRand (wEnv v) = eRand (wEnv w)"
proof -
  obtain v where v: "run_state timeNow w = (Inr (clockOf w), v)" "faultless v = faultless w"
      "eRand (wEnv v) = eRand (wEnv w)"
    by (cases "eTicks (wEnv w)") (simp_all add: timeNow_def clockOf_def faultless_def)
  then show ?thesis using that timeNow_same by blast
qed

lemmas live = live_read live_external live_write live_lock live_mu

section \<open>Relations every operation respects\<close>

text \<open>
  Most of what is shown of the CA is that whatever an operation does and however it ends,
  the states before and after it are related: an invariant is kept, a list only grows.
  What the combinators need of such a relation is stated once.
\<close>

locale step_relation =
  fixes R :: "world \<Rightarrow> world \<Rightarrow> bool"
  assumes same: "sameState w v \<Longrightarrow> R w v"
    and trans: "\<lbrakk>R w v; R v u\<rbrakk> \<Longrightarrow> R w u"
begin

lemma io_pure:
  "state_io_rel R (ok x)" "state_io_rel R (fail e)" "state_io_rel R (lift r)"
  "state_io_rel R (gets f)" "state_io_rel R (getsE f)"
  by (auto simp: state_io_rel_def same)

lemma io_env:
  "state_io_rel R nextOutcome" "state_io_rel R timeNow" "state_io_rel R (randInt k)"
  "state_io_rel R (backendRead g)" "state_io_rel R (externalCall q)"
  by (auto dest: externalCall_same nextOutcome_same timeNow_same randInt_same backendRead_same same)

lemma io_bindE:
  assumes "state_io_rel R m" "\<And>x. state_io_rel R (f x)"
  shows "state_io_rel R (bindE m f)"
proof
  fix a w w' assume "run_state (bindE m f) w = (a, w')"
  then show "R w w'"
  proof (cases rule: bindE_E)
    case (error e)
    show ?thesis by (rule state_io_relD [OF assms(1) error(1)])
  next
    case (step x v)
    show ?thesis by (rule trans [OF state_io_relD [OF assms(1) step(1)] state_io_relD [OF assms(2) step(2)]])
  qed
qed

lemma io_perform: "state_io_rel R m \<Longrightarrow> state_io_rel R (perform m)"
  by (auto elim!: performE)

lemma io_attempt: "state_io_rel R m \<Longrightarrow> state_io_rel R (attempt m)"
  by (auto elim!: attemptE)

lemma io_onError:
  assumes "state_io_rel R m" "\<And>e. state_io_rel R (h e)"
  shows "state_io_rel R (onError m h)"
proof
  fix a w w' assume "run_state (onError m h) w = (a, w')"
  then show "R w w'"
  proof (cases rule: onErrorE)
    case (error e v)
    have "R v (snd (run_state (h e) v))" using assms(2) by (simp add: state_io_rel_def)
    then show ?thesis using trans [OF state_io_relD [OF assms(1) error(1)]] error(3) by simp
  next
    case (fine x)
    show ?thesis by (rule state_io_relD [OF assms(1) fine(1)])
  qed
qed

lemma io_modify: "(\<And>w. R w (g w)) \<Longrightarrow> state_io_rel R (modify g)"
  by (auto simp: state_io_rel_def)

lemma io_changeCA: "(\<And>w. R w (updCA g w)) \<Longrightarrow> state_io_rel R (changeCA g)"
  by (auto simp: state_io_rel_def)

lemma io_WithLock: "state_io_rel R fn \<Longrightarrow> state_io_rel R (WithLock n fn)"
proof
  fix a w w' assume fn: "state_io_rel R fn" and "run_state (WithLock n fn) w = (a, w')"
  from this(2) show "R w w'"
  proof (cases rule: WithLock_cases)
    case refused
    then show ?thesis by (simp add: same)
  next
    case (ran u u')
    show ?thesis by (rule trans [OF same [OF ran(1)] trans [OF state_io_relD [OF fn ran(2)] same [OF ran(3)]]])
  qed
qed

lemma io_withMu: "state_io_rel R fn \<Longrightarrow> state_io_rel R (withMu fn)"
proof
  fix a w w' assume fn: "state_io_rel R fn" and "run_state (withMu fn) w = (a, w')"
  from this(2) obtain u u' where u: "sameState w u" "run_state fn u = (a, u')" "sameState u' w'"
    by (rule withMu_cases)
  show "R w w'" by (rule trans [OF same [OF u(1)] trans [OF state_io_relD [OF fn u(2)] same [OF u(3)]]])
qed

lemma io_backendWrite:
  assumes "\<And>w v st x. \<lbrakk>g (wStore w) = Inr (st, x); wStore v = st; wCA v = wCA w; wConfig v = wConfig w\<rbrakk> \<Longrightarrow> R w v"
  shows "state_io_rel R (backendWrite g)"
proof
  fix a w v assume "run_state (backendWrite g) w = (a, v)"
  then show "R w v" by (cases rule: backendWrite_cases) (auto intro: same assms)
qed

lemmas io = io_pure io_env io_bindE io_perform io_attempt io_onError io_WithLock io_withMu

end

end
