(* ===== verification/Sample.thy ===== *)
theory Sample
  imports World
begin

text \<open>
  A small concrete CA the examples of the other theories run on: one CA certificate, its
  empty revocation list, one pending request for the subject a, an empty text inventory,
  and a clock ten seconds after the epoch.
\<close>

definition sampleName :: "string \<Rightarrow> Name" where
  "sampleName cn = \<lparr>nmCommonName = cn, nmAttributes = [], nmUnmodelled = []\<rparr>"

definition sampleKey :: PublicKey where "sampleKey = ECDSAKey P256 1"

definition sampleCACert :: Certificate where
  "sampleCACert = \<lparr>certVersion = 3, certSerialNumber = 1, certIssuer = sampleName ''ca'', certSubject = sampleName ''ca'',
     certNotBefore = 0,
     certNotAfter = 1000000 * second, certPublicKey = sampleKey,
     certExtensions =
       [\<lparr>extId = oidBasicConstraints, extCritical = True, extValue = DerBasicConstraints True\<rparr>,
        \<lparr>extId = oidKeyUsage, extCritical = True, extValue = DerKeyUsage [KUCertSign, KUCRLSign]\<rparr>,
        \<lparr>extId = oidSubjectKeyId, extCritical = False, extValue = DerKeyId (KeyIdOf sampleKey)\<rparr>],
     certSigKey = sampleKey\<rparr>"

definition sampleCRL :: "nat \<Rightarrow> int list \<Rightarrow> RevocationList" where
  "sampleCRL n serials = \<lparr>rlNumber = Some (int n), rlThisUpdate = 0, rlNextUpdate = Some (100 * second),
     rlEntries = map (\<lambda>s. \<lparr>rleSerialNumber = s, rleRevocationTime = 0\<rparr>) serials,
     rlIssuer = sampleName ''ca'', rlSigKey = sampleKey\<rparr>"

definition sampleCSR :: CertificateRequest where
  "sampleCSR = \<lparr>csrSubject = sampleName ''a'', csrPublicKey = ECDSAKey P256 2, csrExtensions = [], csrSignatureOk = True\<rparr>"

text \<open>A leaf of this CA for the subject a.\<close>

definition sampleLeaf :: "int \<Rightarrow> Certificate" where
  "sampleLeaf serial = \<lparr>certVersion = 3, certSerialNumber = serial, certIssuer = sampleName ''ca'',
     certSubject = sampleName ''a'', certNotBefore = 0,
     certNotAfter = 1000 * second, certPublicKey = ECDSAKey P256 3, certExtensions = [], certSigKey = sampleKey\<rparr>"

definition sampleConfig :: config where
  "sampleConfig = \<lparr>LeafValidityDays = 1, LeafBackdate = 0, CRLValidityDays = 1, SigningConcurrency = 0,
     LeafKeyConfig = \<lparr>Algo = [], Size = 0\<rparr>,
     PromoteCNToSAN = False, AllowSubjectAltNames = False, AllowDuplicateCerts = False, RevokeOnAutoRenew = True,
     SupersedeAfter = 0, CRLURLs = [], OCSPURLs = [], CRLChainFile = [], chainFileData = ChainFileAbsent,
     hmacSHA256 = (\<lambda>k d. k @ d), autosignConfig = demoAutosign ''off'', autosignHostOf = demoHost\<rparr>"

definition sampleStore :: store where
  "sampleStore = \<lparr>stCACert = None, stCSRs = [(''a'', PEM sampleCSR)], stCerts = [],
     stCRL = Some (encodeCRLChain [sampleCRL 1 []]), stSuperseded = None, stInventory = InvBlob None,
     stInventoryHMAC = None\<rparr>"

definition sampleCA :: CA where
  "sampleCA = \<lparr>CACert = Some sampleCACert, CAKey = Some sampleKey, hmacKey = None, cachedCRL = Some (sampleCRL 1 []),
     serialIndex = [], serialIndexEpoch = 0, serialIndexRemovalEpoch = 0,
     serialIndexSyncFailures = 0, signingShed = 0, ocspCache = [], crlNotify = False,
     crlUpdateFailures = 0, crlSyncFailures = 0, supersedeFailures = 0, crlChainFailures = 0, crlChainLastRead = 0,
     crlChainDiscarded = 0, crlChainRegressed = 0, crlChainRemoved = 0, privateKeys = []\<rparr>"

definition sampleEnv :: env where
  "sampleEnv = \<lparr>eNow = 10 * second, eTicks = [], eRand = [5], eOutcomes = [], eHeld = [], eDeadlock = False\<rparr>"

definition sample :: world where
  "sample = \<lparr>wStore = sampleStore, wCA = sampleCA, wConfig = sampleConfig, wEnv = sampleEnv\<rparr>"

lemma sample_parts [simp]:
  "wStore sample = sampleStore" "wCA sample = sampleCA" "wConfig sample = sampleConfig" "wEnv sample = sampleEnv"
  by (simp_all add: sample_def)

lemmas sample_defs = sampleStore_def sampleCA_def sampleConfig_def sampleEnv_def

lemma sample_faultless [simp]: "faultless sample" "clockOf sample = 10 * second"
  by (simp_all add: faultless_def clockOf_def sampleEnv_def)

lemma sample_parent [simp]:
  "canParent sampleCACert KUCertSign" "canParent sampleCACert KUCRLSign" "certPublicKey sampleCACert = sampleKey"
  "certKeyUsage sampleCACert = [KUCertSign, KUCRLSign]" "certSubjectKeyId sampleCACert = Some (KeyIdOf sampleKey)"
  by (simp_all add: canParent_def sampleCACert_def sampleKey_def certBasicConstraints_def certKeyUsage_def
      certSubjectKeyId_def extValueOf_def oid_defs)

lemma sample_owns [simp]: "ownsCRL (Some sampleCACert) (sampleCRL n ss)"
  by (simp add: ownsCRL_def crlSignedBy_def rlSignedBy_def sampleCRL_def)

lemma sample_signed [simp]: "certSignedBy sampleCACert (sampleLeaf n)"
  by (simp add: certSignedBy_def sampleLeaf_def)

lemma sample_subject [simp]: "ValidateSubject ''a'' = Inr ()"
  by (simp add: ValidateSubject_def subjectRegex_def lower_alnum_def)

lemma sample_leaf [simp]:
  "nmCommonName (certSubject (sampleLeaf n)) = ''a''" "certPublicKey (sampleLeaf n) = ECDSAKey P256 3"
  "certSerialNumber (sampleLeaf n) = n" "nmCommonName (csrSubject sampleCSR) = ''a''"
  by (simp_all add: sampleLeaf_def sampleName_def sampleCSR_def)

text \<open>The same CA with a list of the given number and serials, stored and cached.\<close>

definition sampleWith :: "nat \<Rightarrow> int list \<Rightarrow> world" where
  "sampleWith n ss = sample\<lparr>wStore := sampleStore\<lparr>stCRL := Some (encodeCRLChain [sampleCRL n ss])\<rparr>,
     wCA := sampleCA\<lparr>cachedCRL := Some (sampleCRL n ss)\<rparr>\<rparr>"

end
