(* ===== verification/ClientCrl.thy ===== *)
theory ClientCrl
  imports Sample "HOL-Library.AList" "HOL-Library.Multiset"
begin

text \<open>
  The revocation material of the foreign issuers of client certificates
  (internal/api/clientcrl.go) and its reload (cmd/openvox-ca/clientca.go).  A set files each
  list under the key that signed it, the lists with a partial scope apart.  A nil set is
  \<^term>\<open>None\<close>.  A Go map is an association list; where the sources range over a map
  and report the first hit, the model gives every hit, since the order is not specified.
\<close>

record ClientRL = RevocationList +
  rlExtensions :: "Extension list"

definition CheckSignatureFrom :: "ClientRL \<Rightarrow> Certificate \<Rightarrow> bool" where
  "CheckSignatureFrom crl parent = rlSignedBy parent (RevocationList.truncate crl)"

section \<open>The set\<close>

record ClientCRLSet =
  bySignerKey :: "(PublicKey \<times> ClientRL list) list"
  csAnchors :: "Certificate list"
  partialBySignerKey :: "(PublicKey \<times> ClientRL list) list"
  discarded :: "(Name \<times> string) list"

definition SignerOfCRL :: "ClientRL \<Rightarrow> Certificate list \<Rightarrow> Certificate option" where
  "SignerOfCRL crl anchors = find (CheckSignatureFrom crl) anchors"

definition VerifyCRLAgainst :: "ClientRL \<Rightarrow> Certificate list \<Rightarrow> bool" where
  "VerifyCRLAgainst crl anchors = (SignerOfCRL crl anchors \<noteq> None)"

definition oidDeltaCRLIndicator :: oid where "oidDeltaCRLIndicator = [2, 5, 29, 27]"
definition oidIssuingDistributionPnt :: oid where "oidIssuingDistributionPnt = [2, 5, 29, 28]"

fun partialReason :: "Extension list \<Rightarrow> string option" where
  "partialReason [] = None"
| "partialReason (ext # exts) =
     (if extId ext = oidDeltaCRLIndicator then Some ''delta CRL''
      else if extId ext = oidIssuingDistributionPnt then Some ''issuing distribution point''
      else partialReason exts)"

definition coversPartially :: "ClientRL \<Rightarrow> string option" where
  "coversPartially crl = partialReason (rlExtensions crl)"

text \<open>The slice a map of slices holds under a key, empty where it has none.\<close>

definition sliceAt :: "('k \<times> 'v list) list \<Rightarrow> 'k \<Rightarrow> 'v list" where
  "sliceAt al k = (case map_of al k of None \<Rightarrow> [] | Some xs \<Rightarrow> xs)"

definition appendAt :: "'k \<Rightarrow> 'v \<Rightarrow> ('k \<times> 'v list) list \<Rightarrow> ('k \<times> 'v list) list" where
  "appendAt k x al = AList.update k (sliceAt al k @ [x]) al"

definition addCRL :: "ClientRL \<Rightarrow> ClientCRLSet \<Rightarrow> ClientCRLSet" where
  "addCRL crl s =
     (case SignerOfCRL crl (csAnchors s) of
        None \<Rightarrow> s
      | Some signer \<Rightarrow>
          (case coversPartially crl of
             Some reason \<Rightarrow>
               s\<lparr>discarded := discarded s @ [(rlIssuer crl, reason)],
                 partialBySignerKey := appendAt (certPublicKey signer) crl (partialBySignerKey s)\<rparr>
           | None \<Rightarrow> s\<lparr>bySignerKey := appendAt (certPublicKey signer) crl (bySignerKey s)\<rparr>))"

definition NewClientCRLSet :: "ClientRL list \<Rightarrow> Certificate list \<Rightarrow> ClientCRLSet" where
  "NewClientCRLSet crls anchors =
     fold addCRL crls \<lparr>bySignerKey = [], csAnchors = anchors, partialBySignerKey = [], discarded = []\<rparr>"

section \<open>Lookups\<close>

definition clockSkewTolerance :: duration where "clockSkewTolerance = 5 * 60 * second"

definition notYetIssued :: "ClientRL \<Rightarrow> gotime \<Rightarrow> bool" where
  "notYetIssued crl now = (now + clockSkewTolerance < rlThisUpdate crl)"

definition currentAt :: "ClientRL \<Rightarrow> gotime \<Rightarrow> bool" where
  "currentAt crl now = (case rlNextUpdate crl of None \<Rightarrow> False | Some t \<Rightarrow> now < t)"

definition forIssuer :: "ClientCRLSet option \<Rightarrow> Certificate \<Rightarrow> gotime \<Rightarrow> ClientRL list \<times> bool" where
  "forIssuer s cert now =
     (case s of
        None \<Rightarrow> ([], False)
      | Some c \<Rightarrow>
          let crls = sliceAt (bySignerKey c) (certPublicKey cert)
          in (crls, list_ex (\<lambda>crl. \<not> notYetIssued crl now \<and> currentAt crl now) crls))"

definition forRevocationLookup :: "ClientCRLSet option \<Rightarrow> Certificate \<Rightarrow> gotime \<Rightarrow> ClientRL list \<times> bool" where
  "forRevocationLookup s cert now =
     (let (crls, anyValid) = forIssuer s cert now
      in case s of
           None \<Rightarrow> (crls, anyValid)
         | Some c \<Rightarrow> (crls @ sliceAt (partialBySignerKey c) (certPublicKey cert), anyValid))"

definition CoverageGaps :: "ClientCRLSet option \<Rightarrow> gotime \<Rightarrow> string list" where
  "CoverageGaps s now =
     (case s of
        None \<Rightarrow> []
      | Some c \<Rightarrow> map (\<lambda>anchor. nmCommonName (certSubject anchor))
                     (filter (\<lambda>anchor. \<not> snd (forIssuer s anchor now)) (csAnchors c)))"

text \<open>The keys that map to true, for presence and for currency.\<close>

definition Coverage :: "ClientCRLSet option \<Rightarrow> gotime \<Rightarrow> PublicKey list \<times> PublicKey list" where
  "Coverage s now =
     (case s of
        None \<Rightarrow> ([], [])
      | Some c \<Rightarrow>
          (map certPublicKey (filter (\<lambda>anchor. fst (forIssuer s anchor now) \<noteq> []) (csAnchors c)),
           map certPublicKey (filter (\<lambda>anchor. snd (forIssuer s anchor now)) (csAnchors c))))"

definition Usable :: "ClientCRLSet option \<Rightarrow> gotime \<Rightarrow> bool" where
  "Usable s now = (snd (Coverage s now) \<noteq> [])"

section \<open>How far an anchor has advanced\<close>

record crlFreshness =
  frSubject :: "Name option"
  maxNumber :: "int option"
  latest :: gotime
  dated :: bool

definition zeroFreshness :: crlFreshness where
  "zeroFreshness = \<lparr>frSubject = None, maxNumber = None, latest = zero_time, dated = False\<rparr>"

definition noteCRL :: "gotime \<Rightarrow> Certificate \<Rightarrow> ClientRL \<Rightarrow> crlFreshness \<Rightarrow> crlFreshness" where
  "noteCRL now anchor crl f0 =
     (let f1 = f0\<lparr>frSubject := Some (certSubject anchor)\<rparr>;
          f2 = (if \<not> notYetIssued crl now
                then f1\<lparr>dated := True, latest := (if latest f1 < rlThisUpdate crl then rlThisUpdate crl else latest f1)\<rparr>
                else f1)
      in case rlNumber crl of
           None \<Rightarrow> f2
         | Some n \<Rightarrow>
             (if (case maxNumber f2 of None \<Rightarrow> True | Some m \<Rightarrow> m < n) then f2\<lparr>maxNumber := Some n\<rparr> else f2))"

definition noteAnchor :: "ClientCRLSet \<Rightarrow> gotime \<Rightarrow> Certificate \<Rightarrow> (PublicKey \<times> crlFreshness) list
    \<Rightarrow> (PublicKey \<times> crlFreshness) list" where
  "noteAnchor s now anchor out =
     fold (\<lambda>crl out. AList.update (certPublicKey anchor)
             (noteCRL now anchor crl (case map_of out (certPublicKey anchor) of None \<Rightarrow> zeroFreshness | Some f \<Rightarrow> f)) out)
       (fst (forIssuer (Some s) anchor now)) out"

definition freshness :: "ClientCRLSet option \<Rightarrow> gotime \<Rightarrow> (PublicKey \<times> crlFreshness) list" where
  "freshness s now = (case s of None \<Rightarrow> [] | Some c \<Rightarrow> fold (noteAnchor c now) (csAnchors c) [])"

definition regressedFrom :: "crlFreshness \<Rightarrow> crlFreshness \<Rightarrow> bool" where
  "regressedFrom f other =
     (if (case (maxNumber f, maxNumber other) of (Some n, Some m) \<Rightarrow> n < m | _ \<Rightarrow> False) then True
      else if \<not> dated other then maxNumber f = None \<or> maxNumber other = None
      else if \<not> dated f then False
      else latest f < latest other)"

definition advancedOver :: "crlFreshness \<Rightarrow> crlFreshness \<Rightarrow> bool" where
  "advancedOver f other = (dated f \<and> dated other \<and> latest other < latest f \<and> \<not> regressedFrom f other)"

text \<open>The issuers whose partial lists a candidate drops without an advance of the full ones.\<close>

definition PartialsDropped :: "ClientCRLSet option \<Rightarrow> ClientCRLSet option \<Rightarrow> gotime \<Rightarrow> Name list" where
  "PartialsDropped s candidate now =
     (case s of
        None \<Rightarrow> []
      | Some c \<Rightarrow>
          map (\<lambda>(key, partials). rlIssuer (hd partials))
            (filter (\<lambda>(key, partials).
               \<not> (case candidate of None \<Rightarrow> False
                  | Some d \<Rightarrow> length partials \<le> length (sliceAt (partialBySignerKey d) key))
               \<and> \<not> (case (map_of (freshness s now) key, map_of (freshness candidate now) key) of
                     (Some cur, Some cand) \<Rightarrow> advancedOver cand cur | _ \<Rightarrow> False))
             (partialBySignerKey c)))"

definition Regresses :: "ClientCRLSet option \<Rightarrow> ClientCRLSet option \<Rightarrow> gotime \<Rightarrow> Name option list" where
  "Regresses s candidate now =
     map (\<lambda>(key, cur). frSubject cur)
       (filter (\<lambda>(key, cur). case map_of (freshness candidate now) key of
          None \<Rightarrow> False | Some cand \<Rightarrow> regressedFrom cand cur) (freshness s now))"

section \<open>The check of a chain\<close>

datatype refusal = NoUsableCRL | RevokedBy Name Name

definition RevocationRequire :: string where "RevocationRequire = ''require''"
definition RevocationCheck :: string where "RevocationCheck = ''check''"
definition RevocationSkip :: string where "RevocationSkip = ''skip''"

fun checkLinks :: "ClientCRLSet option \<Rightarrow> string \<Rightarrow> gotime \<Rightarrow> Certificate list \<Rightarrow> refusal + unit" where
  "checkLinks s policy now (subject # issuer # rest) =
     (let (crls, anyValid) = forRevocationLookup s issuer now
      in if policy = RevocationRequire \<and> \<not> anyValid then Inl NoUsableCRL
         else if list_ex (\<lambda>crl. list_ex (\<lambda>entry. rleSerialNumber entry = certSerialNumber subject) (rlEntries crl)) crls
         then Inl (RevokedBy (certSubject subject) (certSubject issuer))
         else checkLinks s policy now (issuer # rest))"
| "checkLinks s policy now _ = Inr ()"

definition checkChainRevocation ::
    "Certificate list \<Rightarrow> ClientCRLSet option \<Rightarrow> string \<Rightarrow> gotime \<Rightarrow> refusal + unit" where
  "checkChainRevocation chain s policy0 now =
     (let policy = (if policy0 \<noteq> RevocationSkip \<and> policy0 \<noteq> RevocationCheck then RevocationRequire else policy0)
      in if policy = RevocationSkip then Inr ()
         else if length chain < 2 then (if policy = RevocationRequire then Inl NoUsableCRL else Inr ())
         else checkLinks s policy now chain)"

section \<open>Reload\<close>

record ClientCA =
  caName :: string
  caCRLFile :: string

text \<open>A CRL file: None where it cannot be read, else its PEM blocks.\<close>

type_synonym crlFile = "(string \<times> ClientRL option) list option"

fun verifiedCRLs :: "Certificate list \<Rightarrow> (string \<times> ClientRL option) list \<Rightarrow> ClientRL list option" where
  "verifiedCRLs anchors [] = Some []"
| "verifiedCRLs anchors ((typ, parsed) # blocks) =
     (if typ \<noteq> ''X509 CRL'' then verifiedCRLs anchors blocks
      else case parsed of
             None \<Rightarrow> None
           | Some crl \<Rightarrow>
               if VerifyCRLAgainst crl anchors then map_option (Cons crl) (verifiedCRLs anchors blocks)
               else verifiedCRLs anchors blocks)"

definition loadDomainCRLs :: "ClientCA \<Rightarrow> Certificate list \<Rightarrow> crlFile \<Rightarrow> ClientRL list option" where
  "loadDomainCRLs entry anchors file =
     (if caCRLFile entry = [] then Some []
      else case file of None \<Rightarrow> None | Some blocks \<Rightarrow> verifiedCRLs anchors blocks)"

definition losesCoverage :: "ClientCRLSet option \<Rightarrow> ClientCRLSet option \<Rightarrow> gotime \<Rightarrow> bool" where
  "losesCoverage current candidate now =
     (candidate = None
      \<or> list_ex (\<lambda>key. key \<notin> set (fst (Coverage candidate now))) (fst (Coverage current now))
      \<or> list_ex (\<lambda>key. key \<notin> set (snd (Coverage candidate now))) (snd (Coverage current now)))"

datatype reload = LoadFailed | LostCoverage | MovedBack "Name option list" | DroppedPartials "Name list" | Reloaded

text \<open>One pass over one entry: what it reports, and the set of the domain afterwards.\<close>

definition refreshClientCRLs ::
    "ClientCA \<Rightarrow> Certificate list \<Rightarrow> crlFile \<Rightarrow> gotime \<Rightarrow> ClientCRLSet option \<Rightarrow> reload \<times> ClientCRLSet option" where
  "refreshClientCRLs entry anchors file now current =
     (case loadDomainCRLs entry anchors file of
        None \<Rightarrow> (LoadFailed, current)
      | Some crls \<Rightarrow>
          let candidate = Some (NewClientCRLSet crls anchors);
              regressed = (if caCRLFile entry \<noteq> [] then Regresses current candidate now else []);
              dropped = (if caCRLFile entry \<noteq> [] then PartialsDropped current candidate now else [])
          in if caCRLFile entry \<noteq> [] \<and> losesCoverage current candidate now then (LostCoverage, current)
             else if regressed \<noteq> [] then (MovedBack regressed, current)
             else if dropped \<noteq> [] then (DroppedPartials dropped, current)
             else (Reloaded, candidate))"

text \<open>The passes of the reloader, each with what the file holds then and the time.\<close>

fun reloads :: "ClientCA \<Rightarrow> Certificate list \<Rightarrow> (crlFile \<times> gotime) list \<Rightarrow> ClientCRLSet option \<Rightarrow> ClientCRLSet option" where
  "reloads entry anchors [] s = s"
| "reloads entry anchors ((file, now) # passes) s =
     reloads entry anchors passes (snd (refreshClientCRLs entry anchors file now s))"

section \<open>What a set holds\<close>

lemma sliceAt_simps [simp]:
  "sliceAt [] k = []" "sliceAt (appendAt j x al) k = (if k = j then sliceAt al k @ [x] else sliceAt al k)"
  by (auto simp: sliceAt_def appendAt_def update_conv')

lemma signer_key:
  "SignerOfCRL crl anchors = Some a \<Longrightarrow> a \<in> set anchors \<and> CheckSignatureFrom crl a \<and> certPublicKey a = rlSigKey crl"
  unfolding SignerOfCRL_def
  by (auto simp: find_Some_iff CheckSignatureFrom_def rlSignedBy_def RevocationList.truncate_def)

lemma signer_ex: "VerifyCRLAgainst crl anchors = (\<exists>a \<in> set anchors. CheckSignatureFrom crl a)"
  by (auto simp: VerifyCRLAgainst_def SignerOfCRL_def find_None_iff)

definition filedUnder :: "Certificate list \<Rightarrow> PublicKey \<Rightarrow> ClientRL \<Rightarrow> bool" where
  "filedUnder anchors k crl = (VerifyCRLAgainst crl anchors \<and> rlSigKey crl = k)"

lemma add_slices:
  "csAnchors (addCRL crl s) = csAnchors s"
  "sliceAt (bySignerKey (addCRL crl s)) k
     = sliceAt (bySignerKey s) k @ filter (\<lambda>c. filedUnder (csAnchors s) k c \<and> coversPartially c = None) [crl]"
  "sliceAt (partialBySignerKey (addCRL crl s)) k
     = sliceAt (partialBySignerKey s) k @ filter (\<lambda>c. filedUnder (csAnchors s) k c \<and> coversPartially c \<noteq> None) [crl]"
  by (auto simp: addCRL_def filedUnder_def VerifyCRLAgainst_def split: option.split dest: signer_key)

lemma fold_slices:
  "csAnchors (fold addCRL crls s) = csAnchors s
   \<and> sliceAt (bySignerKey (fold addCRL crls s)) k
     = sliceAt (bySignerKey s) k @ filter (\<lambda>c. filedUnder (csAnchors s) k c \<and> coversPartially c = None) crls
   \<and> sliceAt (partialBySignerKey (fold addCRL crls s)) k
     = sliceAt (partialBySignerKey s) k @ filter (\<lambda>c. filedUnder (csAnchors s) k c \<and> coversPartially c \<noteq> None) crls"
  by (induction crls arbitrary: s) (simp_all add: add_slices del: filter.simps(2), simp_all)

lemma new_slices [simp]:
  "csAnchors (NewClientCRLSet crls anchors) = anchors"
  "sliceAt (bySignerKey (NewClientCRLSet crls anchors)) k = filter (\<lambda>c. filedUnder anchors k c \<and> coversPartially c = None) crls"
  "sliceAt (partialBySignerKey (NewClientCRLSet crls anchors)) k
     = filter (\<lambda>c. filedUnder anchors k c \<and> coversPartially c \<noteq> None) crls"
  using fold_slices [of crls] by (simp_all add: NewClientCRLSet_def)

lemma links_checked:
  assumes "checkLinks s policy now chain = Inr ()" "Suc i < length chain"
  shows "(policy = RevocationRequire \<longrightarrow> snd (forRevocationLookup s (chain ! Suc i) now))
    \<and> (\<forall>crl \<in> set (fst (forRevocationLookup s (chain ! Suc i) now)).
         certSerialNumber (chain ! i) \<notin> rleSerialNumber ` set (rlEntries crl))"
  using assms
proof (induction s policy now chain arbitrary: i rule: checkLinks.induct)
  case (1 s policy now subject issuer rest)
  then show ?case
    by (cases i) (fastforce simp: list_ex_iff split: prod.splits if_splits)+
qed simp_all

lemma lookup_new:
  "set (fst (forRevocationLookup (Some (NewClientCRLSet crls anchors)) cert now))
     = {crl \<in> set crls. filedUnder anchors (certPublicKey cert) crl}"
  "snd (forRevocationLookup (Some (NewClientCRLSet crls anchors)) cert now)
     = (\<exists>crl \<in> set crls. filedUnder anchors (certPublicKey cert) crl \<and> coversPartially crl = None
          \<and> \<not> notYetIssued crl now \<and> currentAt crl now)"
  by (auto simp: forRevocationLookup_def forIssuer_def list_ex_iff)

text \<open>
  C12. A foreign client that passes is not revoked.  If the check of a verified chain
  passes under a policy other than skip, then for every certificate of the chain but the
  anchor no list of the domain that the issuer's key signed, whether full, partial or
  expired, names its serial.  Under every policy but check the chain also
  has an issuer, and the domain holds for each one a full list, signed by that
  issuer's key, that has been issued and has not expired.
\<close>

theorem foreign_client_is_unrevoked:
  assumes "checkChainRevocation chain (Some (NewClientCRLSet crls anchors)) policy now = Inr ()" "policy \<noteq> RevocationSkip"
  shows "(\<forall>i crl. Suc i < length chain \<and> crl \<in> set crls \<and> VerifyCRLAgainst crl anchors
            \<and> rlSigKey crl = certPublicKey (chain ! Suc i)
          \<longrightarrow> certSerialNumber (chain ! i) \<notin> rleSerialNumber ` set (rlEntries crl))
     \<and> (policy \<noteq> RevocationCheck \<longrightarrow> 1 < length chain
          \<and> (\<forall>i. Suc i < length chain \<longrightarrow> (\<exists>crl \<in> set crls. VerifyCRLAgainst crl anchors
                \<and> rlSigKey crl = certPublicKey (chain ! Suc i) \<and> coversPartially crl = None
                \<and> \<not> notYetIssued crl now \<and> currentAt crl now)))"
proof -
  let ?s = "Some (NewClientCRLSet crls anchors)"
  let ?p = "if policy \<noteq> RevocationSkip \<and> policy \<noteq> RevocationCheck then RevocationRequire else policy"
  have ne: "RevocationRequire \<noteq> RevocationSkip" "RevocationRequire \<noteq> RevocationCheck"
    by (simp_all add: RevocationRequire_def RevocationSkip_def RevocationCheck_def)
  have len: "policy \<noteq> RevocationCheck \<longrightarrow> 1 < length chain"
    using assms ne by (auto simp: checkChainRevocation_def Let_def split: if_splits)
  have "checkLinks ?s ?p now chain = Inr ()" if "Suc i < length chain" for i
    using assms ne that by (auto simp: checkChainRevocation_def Let_def split: if_splits)
  note c = links_checked [OF this, unfolded lookup_new]
  have "certSerialNumber (chain ! i) \<notin> rleSerialNumber ` set (rlEntries crl)"
    if "Suc i < length chain" "crl \<in> set crls" "VerifyCRLAgainst crl anchors" "rlSigKey crl = certPublicKey (chain ! Suc i)" for i crl
    using c [OF that(1) that(1)] that by (simp add: filedUnder_def)
  moreover have "\<exists>crl \<in> set crls. VerifyCRLAgainst crl anchors \<and> rlSigKey crl = certPublicKey (chain ! Suc i)
      \<and> coversPartially crl = None \<and> \<not> notYetIssued crl now \<and> currentAt crl now"
    if "policy \<noteq> RevocationCheck" "Suc i < length chain" for i
    using c [OF that(2) that(2)] that(1) assms(2) by (auto simp: filedUnder_def)
  ultimately show ?thesis using len by blast
qed

definition demoRL :: "int option \<Rightarrow> int list \<Rightarrow> ClientRL" where
  "demoRL n serials = \<lparr>rlNumber = n, rlThisUpdate = 0, rlNextUpdate = Some (100 * second),
     rlEntries = map (\<lambda>k. \<lparr>rleSerialNumber = k, rleRevocationTime = 0\<rparr>) serials,
     rlIssuer = sampleName ''ca'', rlSigKey = sampleKey, rlExtensions = []\<rparr>"

lemma demoRL_signed [simp]:
  "CheckSignatureFrom (demoRL n serials) sampleCACert" "coversPartially (demoRL n serials) = None"
  by (simp_all add: CheckSignatureFrom_def RevocationList.truncate_def rlSignedBy_def demoRL_def coversPartially_def)

lemma demoRL_verified [simp]: "VerifyCRLAgainst (demoRL n serials) [sampleCACert]"
  by (simp add: signer_ex)

theorem foreign_client_is_unrevoked_witness:
  "checkChainRevocation [sampleLeaf 9, sampleCACert] (Some (NewClientCRLSet [demoRL (Some 1) [7]] [sampleCACert]))
       RevocationRequire (10 * second) = Inr ()
   \<and> 9 \<notin> rleSerialNumber ` set (rlEntries (demoRL (Some 1) [7]))"
proof -
  have c: "checkChainRevocation [sampleLeaf 9, sampleCACert] (Some (NewClientCRLSet [demoRL (Some 1) [7]] [sampleCACert]))
      RevocationRequire (10 * second) = Inr ()"
    by (simp add: checkChainRevocation_def forRevocationLookup_def forIssuer_def filedUnder_def RevocationRequire_def
        RevocationSkip_def RevocationCheck_def)
      (simp add: demoRL_def notYetIssued_def currentAt_def clockSkewTolerance_def second_def)
  show ?thesis
    using c foreign_client_is_unrevoked [OF c] by (auto simp: RevocationRequire_def RevocationSkip_def RevocationCheck_def demoRL_def)
qed

section \<open>The marks\<close>

definition believed :: "gotime \<Rightarrow> ClientRL set \<Rightarrow> gotime set" where
  "believed now X = rlThisUpdate ` {crl \<in> X. \<not> notYetIssued crl now}"

definition numbersOf :: "ClientRL set \<Rightarrow> int set" where
  "numbersOf X = {n. \<exists>crl \<in> X. rlNumber crl = Some n}"

definition greatest :: "int set \<Rightarrow> int option" where
  "greatest N = (if N = {} then None else Some (Max N))"

text \<open>The marks of a set of lists are the maxima of its numbers and of its believed dates.\<close>

definition marks :: "gotime \<Rightarrow> crlFreshness \<Rightarrow> ClientRL set \<Rightarrow> bool" where
  "marks now f X = (finite X \<and> maxNumber f = greatest (numbersOf X) \<and> latest f = Max (insert zero_time (believed now X))
     \<and> dated f = (believed now X \<noteq> {}))"

lemma marks_finite: "finite X \<Longrightarrow> finite (believed now X) \<and> finite (numbersOf X)"
proof -
  have "numbersOf X \<subseteq> (\<lambda>crl. the (rlNumber crl)) ` X" by (force simp: numbersOf_def)
  then show "finite X \<Longrightarrow> ?thesis" using finite_subset by (auto simp: believed_def)
qed

lemma marks_zero: "marks now zeroFreshness {}"
  by (simp add: marks_def zeroFreshness_def believed_def numbersOf_def greatest_def)

lemma marks_note:
  assumes "marks now f X"
  shows "marks now (noteCRL now a crl f) (insert crl X)"
proof -
  have fin: "finite X" "finite (believed now X)" "finite (numbersOf X)"
    and f: "maxNumber f = greatest (numbersOf X)" "latest f = Max (insert zero_time (believed now X))"
      "dated f = (believed now X \<noteq> {})"
    using assms marks_finite by (auto simp: marks_def)
  have b: "believed now (insert crl X) = (if notYetIssued crl now then believed now X else insert (rlThisUpdate crl) (believed now X))"
    by (auto simp: believed_def)
  have n: "numbersOf (insert crl X) = (case rlNumber crl of None \<Rightarrow> numbersOf X | Some m \<Rightarrow> insert m (numbersOf X))"
    by (auto simp: numbersOf_def split: option.split)
  have "maxNumber (noteCRL now a crl f) = greatest (numbersOf (insert crl X))"
    unfolding n using fin(3) f(1)
    by (cases "rlNumber crl"; cases "numbersOf X = {}") (auto simp: noteCRL_def Let_def greatest_def simp del: Max_less_iff)
  moreover have "latest (noteCRL now a crl f) = (if notYetIssued crl now then latest f else max (latest f) (rlThisUpdate crl))"
    by (auto simp: noteCRL_def Let_def max_def split: option.splits)
  then have "latest (noteCRL now a crl f) = Max (insert zero_time (believed now (insert crl X)))"
    unfolding b using fin(2) Max_insert [of "insert zero_time (believed now X)" "rlThisUpdate crl"]
    by (simp add: f(2) insert_commute max.commute del: Max_insert)
  moreover have "dated (noteCRL now a crl f) = (believed now (insert crl X) \<noteq> {})"
    unfolding b using f(3) by (auto simp: noteCRL_def Let_def split: option.splits)
  ultimately show ?thesis using fin(1) by (simp add: marks_def)
qed

lemma marks_unique: "marks now f X \<Longrightarrow> marks now g X \<Longrightarrow> frSubject f = frSubject g \<Longrightarrow> f = g"
  by (simp add: marks_def)

text \<open>The entry of a key after some anchors: the marks of its lists, named by the last anchor.\<close>

definition entryFor :: "ClientCRLSet \<Rightarrow> gotime \<Rightarrow> Certificate list \<Rightarrow> PublicKey \<Rightarrow> crlFreshness option \<Rightarrow> bool" where
  "entryFor c now seen k e =
     (if sliceAt (bySignerKey c) k = [] \<or> k \<notin> certPublicKey ` set seen then e = None
      else (\<exists>f. e = Some f \<and> marks now f (set (sliceAt (bySignerKey c) k))
             \<and> frSubject f = map_option certSubject (find (\<lambda>a. certPublicKey a = k) (rev seen))))"

lemma noteAnchor_fold:
  assumes "marks now (case map_of out K of None \<Rightarrow> zeroFreshness | Some f \<Rightarrow> f) X" "crls \<noteq> []" "K = certPublicKey anchor"
  shows "\<exists>f. map_of (fold (\<lambda>crl out. AList.update (certPublicKey anchor)
        (noteCRL now anchor crl (case map_of out (certPublicKey anchor) of None \<Rightarrow> zeroFreshness | Some f \<Rightarrow> f)) out) crls out)
      = (map_of out)(K \<mapsto> f) \<and> marks now f (X \<union> set crls) \<and> frSubject f = Some (certSubject anchor)"
  using assms(1,2)
proof (induction crls arbitrary: out X)
  case (Cons crl crls)
  let ?f = "noteCRL now anchor crl (case map_of out K of None \<Rightarrow> zeroFreshness | Some f \<Rightarrow> f)"
  let ?out = "AList.update K ?f out"
  have m: "marks now ?f (insert crl X)" using marks_note [OF Cons.prems(1)] .
  have sub: "frSubject ?f = Some (certSubject anchor)"
    by (simp add: noteCRL_def Let_def split: option.splits)
  show ?case
  proof (cases "crls = []")
    case True
    then show ?thesis using m sub assms(3) by (auto simp: update_conv')
  next
    case False
    have "marks now (case map_of ?out K of None \<Rightarrow> zeroFreshness | Some f \<Rightarrow> f) (insert crl X)" using m by (simp add: update_conv')
    from Cons.IH [OF this False] obtain f where f: "map_of (fold (\<lambda>crl out. AList.update (certPublicKey anchor)
        (noteCRL now anchor crl (case map_of out (certPublicKey anchor) of None \<Rightarrow> zeroFreshness | Some f \<Rightarrow> f)) out) crls ?out)
      = (map_of ?out)(K \<mapsto> f)" "marks now f (insert crl X \<union> set crls)" "frSubject f = Some (certSubject anchor)" by blast
    moreover have "(map_of ?out)(K \<mapsto> f) = (map_of out)(K \<mapsto> f)" unfolding update_conv' by (rule fun_upd_upd)
    ultimately show ?thesis using assms(3) by (intro exI [of _ f]) simp
  qed
qed simp

lemma noteAnchor_entry:
  assumes "\<And>k. entryFor c now seen k (map_of out k)"
  shows "entryFor c now (seen @ [anchor]) k (map_of (noteAnchor c now anchor out) k)"
proof -
  let ?K = "certPublicKey anchor" and ?S = "\<lambda>k. sliceAt (bySignerKey c) k"
  show ?thesis
  proof (cases "?S ?K = []")
    case True
    then have "noteAnchor c now anchor out = out" by (simp add: noteAnchor_def forIssuer_def)
    then show ?thesis using assms [of k] True by (auto simp: entryFor_def)
  next
    case False
    let ?X = "if ?K \<in> certPublicKey ` set seen then set (?S ?K) else {}"
    have "marks now (case map_of out ?K of None \<Rightarrow> zeroFreshness | Some f \<Rightarrow> f) ?X"
      using assms [of ?K] False marks_zero by (auto simp: entryFor_def split: if_splits)
    from noteAnchor_fold [OF this False refl] obtain f where
      f: "map_of (noteAnchor c now anchor out) = (map_of out)(?K \<mapsto> f)" "marks now f (set (?S ?K))"
        "frSubject f = Some (certSubject anchor)"
      by (auto simp: noteAnchor_def forIssuer_def Let_def split: if_splits)
    show ?thesis using assms [of k] False f by (auto simp: entryFor_def)
  qed
qed

lemma freshness_entry: "entryFor c now (csAnchors c) k (map_of (freshness (Some c) now) k)"
proof -
  have "\<forall>k. entryFor c now (seen @ anchors) k (map_of (fold (noteAnchor c now) anchors out) k)"
    if "\<forall>k. entryFor c now seen k (map_of out k)" for anchors seen out
    using that
  proof (induction anchors arbitrary: seen out)
    case (Cons a anchors)
    have "\<forall>k. entryFor c now (seen @ [a]) k (map_of (noteAnchor c now a out) k)" using Cons.prems noteAnchor_entry by blast
    from Cons.IH [OF this] show ?case by simp
  qed simp
  from this [of "[]" "[]" "csAnchors c"] show ?thesis by (simp add: freshness_def entryFor_def)
qed

section \<open>The order of the file\<close>

lemma entry_unique:
  assumes "entryFor c now seen k e" "entryFor d now seen k e'" "set (sliceAt (bySignerKey c) k) = set (sliceAt (bySignerKey d) k)"
  shows "e = e'"
proof (cases "sliceAt (bySignerKey d) k = [] \<or> k \<notin> certPublicKey ` set seen")
  case True
  then have "sliceAt (bySignerKey c) k = [] \<or> k \<notin> certPublicKey ` set seen" using assms(3) by auto
  then show ?thesis using assms(1,2) True by (simp add: entryFor_def)
next
  case False
  moreover from this have "sliceAt (bySignerKey c) k \<noteq> []" using assms(3) by auto
  ultimately obtain f g where "e = Some f" "e' = Some g" "marks now f (set (sliceAt (bySignerKey d) k))"
      "marks now g (set (sliceAt (bySignerKey d) k))" "frSubject f = frSubject g"
    using assms unfolding entryFor_def by auto
  then show ?thesis using marks_unique by blast
qed

lemma freshness_order:
  assumes "set crls = set crls'"
  shows "map_of (freshness (Some (NewClientCRLSet crls anchors)) now) k = map_of (freshness (Some (NewClientCRLSet crls' anchors)) now) k"
  using freshness_entry [of "NewClientCRLSet crls anchors" now k] freshness_entry [of "NewClientCRLSet crls' anchors" now k] assms
  by (intro entry_unique [where c = "NewClientCRLSet crls anchors" and d = "NewClientCRLSet crls' anchors" and seen = anchors]) simp_all

lemma coverage_order:
  assumes "set crls = set crls'"
  shows "Coverage (Some (NewClientCRLSet crls anchors)) now = Coverage (Some (NewClientCRLSet crls' anchors)) now"
proof -
  have "(filter P crls = []) = (filter P crls' = [])" "list_ex Q (filter P crls) = list_ex Q (filter P crls')" for P Q
    using assms by (auto simp: filter_empty_conv list_ex_iff)
  then show ?thesis by (simp add: Coverage_def forIssuer_def Let_def)
qed

lemma dropped_order:
  assumes "mset crls = mset crls'"
  shows "PartialsDropped s (Some (NewClientCRLSet crls anchors)) now = PartialsDropped s (Some (NewClientCRLSet crls' anchors)) now"
proof -
  have "length (filter P crls) = length (filter P crls')" for P
    using assms by (metis mset_filter size_mset)
  moreover have "set crls = set crls'" using assms by (metis set_mset_mset)
  ultimately have "map_of (freshness (Some (NewClientCRLSet crls anchors)) now) = map_of (freshness (Some (NewClientCRLSet crls' anchors)) now)"
    "length (sliceAt (partialBySignerKey (NewClientCRLSet crls anchors)) k) = length (sliceAt (partialBySignerKey (NewClientCRLSet crls' anchors)) k)" for k
    using freshness_order by (blast, simp)
  then show ?thesis unfolding PartialsDropped_def option.case by presburger
qed

lemma verified_order:
  assumes "mset blocks = mset blocks'"
  shows "rel_option (\<lambda>x y. mset x = mset y) (verifiedCRLs anchors blocks) (verifiedCRLs anchors blocks')"
proof -
  let ?bad = "\<lambda>b. fst b = ''X509 CRL'' \<and> snd b = None"
  let ?good = "\<lambda>b. fst b = ''X509 CRL'' \<and> VerifyCRLAgainst (the (snd b)) anchors"
  have v: "verifiedCRLs anchors bs = (if list_ex ?bad bs then None else Some (map (\<lambda>b. the (snd b)) (filter ?good bs)))" for bs
    by (induction bs) (auto split: option.split)
  have "list_ex ?bad blocks = list_ex ?bad blocks'" using mset_eq_setD [OF assms] by (simp add: list_ex_iff)
  then show ?thesis using assms by (simp add: v)
qed

text \<open>
  C29. A reload does not depend on the order of the file.  Two CRL files that hold the same
  blocks in different orders are reported alike by a pass of the reloader, and either both
  are installed or both refused; an anchor's marks of progress, taken from the two, agree.
\<close>

theorem reload_ignores_file_order:
  assumes "mset blocks = mset blocks'"
  shows "fst (refreshClientCRLs entry anchors (Some blocks) now s) = fst (refreshClientCRLs entry anchors (Some blocks') now s)
     \<and> map_of (freshness (snd (refreshClientCRLs entry anchors (Some blocks) now s)) now)
       = map_of (freshness (snd (refreshClientCRLs entry anchors (Some blocks') now s)) now)"
proof -
  let ?load = "\<lambda>bs. loadDomainCRLs entry anchors (Some bs)"
  have "rel_option (\<lambda>x y. mset x = mset y) (?load blocks) (?load blocks')"
    using verified_order [OF assms] by (simp add: loadDomainCRLs_def)
  then show ?thesis
  proof (cases rule: option.rel_cases)
    case None
    then show ?thesis by (simp add: refreshClientCRLs_def)
  next
    case (Some crls crls')
    then have eq: "mset crls = mset crls'" "set crls = set crls'" by (auto dest: mset_eq_setD)
    note f = freshness_order [OF eq(2)] coverage_order [OF eq(2)] dropped_order [OF eq(1)]
    have "map_of (freshness (Some (NewClientCRLSet crls anchors)) now) = map_of (freshness (Some (NewClientCRLSet crls' anchors)) now)"
      using f(1) by (rule ext)
    then show ?thesis
      using Some(1,2) by (simp add: refreshClientCRLs_def Let_def losesCoverage_def Regresses_def f(2,3))
  qed
qed

theorem reload_ignores_file_order_witness:
  "fst (refreshClientCRLs \<lparr>caName = ''p'', caCRLFile = ''f''\<rparr> [sampleCACert]
       (Some [(''X509 CRL'', Some (demoRL (Some 1) [7])), (''X509 CRL'', Some (demoRL None [8]))]) 0 None)
   = fst (refreshClientCRLs \<lparr>caName = ''p'', caCRLFile = ''f''\<rparr> [sampleCACert]
       (Some [(''X509 CRL'', Some (demoRL None [8])), (''X509 CRL'', Some (demoRL (Some 1) [7]))]) 0 None)"
  by (rule reload_ignores_file_order [THEN conjunct1]) simp

section \<open>Reloads only move forward\<close>

text \<open>Every full list carries a number, as RFC 5280 asks of an issuer.\<close>

definition numbered :: "ClientRL list \<Rightarrow> bool" where
  "numbered crls = list_all (\<lambda>crl. rlNumber crl \<noteq> None) crls"

definition numberedFile :: "crlFile \<Rightarrow> bool" where
  "numberedFile file = (case file of None \<Rightarrow> True | Some blocks \<Rightarrow> numbered (List.map_filter snd blocks))"

text \<open>The highest number held for an anchor's key.\<close>

definition heldNumber :: "ClientCRLSet option \<Rightarrow> PublicKey \<Rightarrow> int option" where
  "heldNumber s k = Option.bind (map_of (freshness s 0) k) maxNumber"

lemma freshness_new:
  assumes "numbered crls"
  shows "(map_of (freshness (Some (NewClientCRLSet crls anchors)) now) k = None)
       = (filter (\<lambda>c. filedUnder anchors k c \<and> coversPartially c = None) crls = [] \<or> k \<notin> certPublicKey ` set anchors)"
    "map_of (freshness (Some (NewClientCRLSet crls anchors)) now) k = Some f
       \<Longrightarrow> heldNumber (Some (NewClientCRLSet crls anchors)) k = maxNumber f \<and> maxNumber f \<noteq> None"
proof -
  let ?c = "NewClientCRLSet crls anchors" and ?F = "filter (\<lambda>c. filedUnder anchors k c \<and> coversPartially c = None) crls"
  have e: "entryFor ?c now anchors k (map_of (freshness (Some ?c) now) k)" "entryFor ?c 0 anchors k (map_of (freshness (Some ?c) 0) k)"
    using freshness_entry [of ?c now k] freshness_entry [of ?c 0 k] by simp_all
  show "(map_of (freshness (Some ?c) now) k = None) = (?F = [] \<or> k \<notin> certPublicKey ` set anchors)"
    using e(1) unfolding entryFor_def new_slices by (metis option.distinct(1))
  show "heldNumber (Some ?c) k = maxNumber f \<and> maxNumber f \<noteq> None" if f: "map_of (freshness (Some ?c) now) k = Some f"
  proof -
    have ne: "\<not> (?F = [] \<or> k \<notin> certPublicKey ` set anchors)" using e(1) f unfolding entryFor_def new_slices by (metis option.distinct(1))
    obtain g where g: "map_of (freshness (Some ?c) 0) k = Some g" "marks 0 g (set ?F)"
      using e(2) ne unfolding entryFor_def new_slices by metis
    have m: "marks now f (set ?F)" using e(1) ne f unfolding entryFor_def new_slices by (metis option.inject)
    obtain x where "x \<in> set ?F" using ne by (cases "?F") auto
    then have "numbersOf (set ?F) \<noteq> {}" using assms unfolding numbered_def numbersOf_def by (fastforce simp: list_all_iff)
    then show ?thesis using g m by (simp add: heldNumber_def marks_def greatest_def)
  qed
qed

lemma verified_numbered:
  assumes "numberedFile (Some blocks)" "verifiedCRLs anchors blocks = Some crls"
  shows "numbered crls"
  using assms
  by (induction anchors blocks arbitrary: crls rule: verifiedCRLs.induct)
    (auto simp: numberedFile_def numbered_def List.map_filter_def split: if_splits option.splits)

lemma held_none: "numbered crls \<Longrightarrow> heldNumber (Some (NewClientCRLSet crls anchors)) k = Some n
    \<Longrightarrow> \<exists>f. map_of (freshness (Some (NewClientCRLSet crls anchors)) now) k = Some f \<and> maxNumber f = Some n"
proof -
  assume "numbered crls" "heldNumber (Some (NewClientCRLSet crls anchors)) k = Some n"
  moreover from this have "map_of (freshness (Some (NewClientCRLSet crls anchors)) 0) k \<noteq> None" by (cases "map_of (freshness (Some (NewClientCRLSet crls anchors)) 0) k") (simp_all add: heldNumber_def)
  ultimately show ?thesis using freshness_new by (metis (no_types, lifting) option.exhaust)
qed

lemma reload_step:
  assumes "caCRLFile entry \<noteq> []" "numberedFile file" "numbered crls"
    and "snd (refreshClientCRLs entry anchors file now (Some (NewClientCRLSet crls anchors))) = s'"
  shows "\<exists>crls'. numbered crls' \<and> s' = Some (NewClientCRLSet crls' anchors)
     \<and> (\<forall>k n. heldNumber (Some (NewClientCRLSet crls anchors)) k = Some n \<longrightarrow> (\<exists>m. heldNumber s' k = Some m \<and> n \<le> m))"
proof (cases "fst (refreshClientCRLs entry anchors file now (Some (NewClientCRLSet crls anchors))) = Reloaded")
  case False
  then have "s' = Some (NewClientCRLSet crls anchors)"
    using assms(4) by (auto simp: refreshClientCRLs_def Let_def split: option.splits)
  then show ?thesis using assms(3) by blast
next
  case True
  let ?s = "Some (NewClientCRLSet crls anchors)"
  obtain new where new: "loadDomainCRLs entry anchors file = Some new" "s' = Some (NewClientCRLSet new anchors)"
    "\<not> losesCoverage ?s s' now" "Regresses ?s s' now = []"
    using assms(1,4) True by (auto simp: refreshClientCRLs_def Let_def split: option.splits if_splits)
  have num: "numbered new" using new(1) assms(1,2) verified_numbered by (auto simp: loadDomainCRLs_def split: option.splits)
  have "\<exists>m. heldNumber s' k = Some m \<and> n \<le> m" if h: "heldNumber ?s k = Some n" for k n
  proof -
    obtain f where f: "map_of (freshness ?s now) k = Some f" "maxNumber f = Some n" using held_none [OF assms(3) h] by blast
    then have fs: "filter (\<lambda>c. filedUnder anchors k c \<and> coversPartially c = None) crls \<noteq> []" "k \<in> certPublicKey ` set anchors"
      using freshness_new(1) [OF assms(3), of anchors now k] by auto
    then have "k \<in> set (fst (Coverage ?s now))" by (auto simp: Coverage_def forIssuer_def Let_def)
    then have "k \<in> set (fst (Coverage s' now))" using new(3) unfolding losesCoverage_def by (auto simp: list_ex_iff)
    then have "filter (\<lambda>c. filedUnder anchors k c \<and> coversPartially c = None) new \<noteq> []"
      unfolding new(2) by (auto simp: Coverage_def forIssuer_def Let_def)
    then obtain g where g: "map_of (freshness s' now) k = Some g"
      using freshness_new(1) [OF num, of anchors now k] fs(2) unfolding new(2) by blast
    then obtain m where m: "heldNumber s' k = Some m" "maxNumber g = Some m"
      using freshness_new(2) [OF num] unfolding new(2) by fastforce
    have "(k, f) \<in> set (freshness ?s now)" using f(1) by (rule map_of_SomeD)
    then have "\<not> regressedFrom g f" using new(4) g unfolding Regresses_def by (auto simp: filter_empty_conv)
    then show ?thesis using m f(2) by (auto simp: regressedFrom_def split: if_splits)
  qed
  then show ?thesis using num new(2) by blast
qed

text \<open>
  C13. Reloads of the CRL file only move forward.  Start from a loaded set and let the reloader
  make any number of passes, each over any content of the file and at any time, whether or
  not the file can be read.  If every list carries a number, then an anchor that had a full
  list keeps one, and the highest number held for it never decreases.
\<close>

theorem reloads_only_move_forward:
  assumes "caCRLFile entry \<noteq> []" "numbered crls" "\<forall>pass \<in> set passes. numberedFile (fst pass)"
    and "heldNumber (Some (NewClientCRLSet crls anchors)) k = Some n"
  shows "\<exists>m. heldNumber (reloads entry anchors passes (Some (NewClientCRLSet crls anchors))) k = Some m \<and> n \<le> m"
  using assms(2-4)
proof (induction passes arbitrary: crls n)
  case (Cons pass passes)
  obtain content now where pass: "pass = (content, now)" by fastforce
  let ?s = "Some (NewClientCRLSet crls anchors)"
  from reload_step [OF assms(1) _ Cons.prems(1) refl, of content anchors now] Cons.prems(2) pass
  obtain crls' where c: "numbered crls'" "snd (refreshClientCRLs entry anchors content now ?s) = Some (NewClientCRLSet crls' anchors)"
    "\<forall>k n. heldNumber ?s k = Some n \<longrightarrow> (\<exists>m. heldNumber (Some (NewClientCRLSet crls' anchors)) k = Some m \<and> n \<le> m)"
    by auto
  then obtain m where m: "heldNumber (Some (NewClientCRLSet crls' anchors)) k = Some m" "n \<le> m" using Cons.prems(3) by blast
  from Cons.IH [OF c(1) _ m(1)] Cons.prems(2) m(2) show ?case by (auto simp: pass c(2))
qed simp

theorem reloads_only_move_forward_witness:
  "\<exists>m. heldNumber (reloads \<lparr>caName = ''p'', caCRLFile = ''f''\<rparr> [sampleCACert]
       [(Some [(''X509 CRL'', Some (demoRL (Some 3) []))], 10), (None, 20), (Some [(''X509 CRL'', Some (demoRL (Some 9) [7]))], 30)]
       (Some (NewClientCRLSet [demoRL (Some 5) [7]] [sampleCACert]))) sampleKey = Some m \<and> 5 \<le> m"
proof -
  have h: "heldNumber (Some (NewClientCRLSet [demoRL (Some 5) [7]] [sampleCACert])) sampleKey = Some 5"
    by (simp add: heldNumber_def freshness_def noteAnchor_def forIssuer_def filedUnder_def)
      (simp add: demoRL_def noteCRL_def Let_def zeroFreshness_def)
  show ?thesis
    by (rule reloads_only_move_forward [OF _ _ _ h]) (simp_all add: numbered_def numberedFile_def List.map_filter_def demoRL_def)
qed

end
