(* ===== verification/Storage.thy ===== *)
theory Storage
  imports Sample
begin

text \<open>
  StorageService (internal/storage/storage.go): the calls the CA makes on the store, each
  with its backend accesses in the source's order.  The inventory operations choose
  between the two forms of the theory Inventory as the source does with
  asInventoryStore.  The StorageService mutexes serialise calls inside the process and
  are not part of the state.  Lemmas: what an append, a prune and a verification do to
  the entries and to the stored integrity value, whatever the backend answers.
\<close>

section \<open>Blobs\<close>

definition lookupE :: "'k \<Rightarrow> ('k \<times> 'v) list \<Rightarrow> 'v res" where
  "lookupE k al = (case map_of al k of None \<Rightarrow> Inl ErrNotExist | Some v \<Rightarrow> Inr v)"

definition deleteE :: "'k \<Rightarrow> ('k \<times> 'v) list \<Rightarrow> ('k \<times> 'v) list res" where
  "deleteE k al = (case map_of al k of None \<Rightarrow> Inl ErrNotExist | Some v \<Rightarrow> Inr (AList.delete k al))"

definition optionE :: "'a option \<Rightarrow> 'a res" where
  "optionE x = (case x of None \<Rightarrow> Inl ErrNotExist | Some v \<Rightarrow> Inr v)"

definition GetCRL :: "CRLBlob opr" where
  "GetCRL = backendRead (\<lambda>st. optionE (stCRL st))"

definition UpdateCRL :: "CRLBlob \<Rightarrow> unit opr" where
  "UpdateCRL blob = backendWrite (\<lambda>st. Inr (st\<lparr>stCRL := Some blob\<rparr>, ()))"

definition GetSuperseded :: "supersededBlob opr" where
  "GetSuperseded = backendRead (\<lambda>st. optionE (stSuperseded st))"

definition SaveSuperseded :: "supersededBlob \<Rightarrow> unit opr" where
  "SaveSuperseded b = backendWrite (\<lambda>st. Inr (st\<lparr>stSuperseded := Some b\<rparr>, ()))"

definition GetCACert :: "CertBlock list opr" where
  "GetCACert = backendRead (\<lambda>st. optionE (stCACert st))"

definition SaveCSR :: "string \<Rightarrow> CertificateRequest pem \<Rightarrow> unit opr" where
  "SaveCSR subject csr =
     backendWrite (\<lambda>st. Inr (st\<lparr>stCSRs := AList.update subject csr (stCSRs st)\<rparr>, ()))"

definition GetCSR :: "string \<Rightarrow> CertificateRequest pem opr" where
  "GetCSR subject = backendRead (\<lambda>st. lookupE subject (stCSRs st))"

definition SaveCert :: "string \<Rightarrow> Certificate pem \<Rightarrow> unit opr" where
  "SaveCert subject cert =
     backendWrite (\<lambda>st. Inr (st\<lparr>stCerts := AList.update subject cert (stCerts st)\<rparr>, ()))"

definition GetCert :: "string \<Rightarrow> Certificate pem opr" where
  "GetCert subject = backendRead (\<lambda>st. lookupE subject (stCerts st))"

definition DeleteCSR :: "string \<Rightarrow> unit opr" where
  "DeleteCSR subject =
     backendWrite (\<lambda>st. map_sum id (\<lambda>al. (st\<lparr>stCSRs := al\<rparr>, ())) (deleteE subject (stCSRs st)))"

definition DeleteCert :: "string \<Rightarrow> unit opr" where
  "DeleteCert subject =
     backendWrite (\<lambda>st. map_sum id (\<lambda>al. (st\<lparr>stCerts := al\<rparr>, ())) (deleteE subject (stCerts st)))"

definition CertExists :: "string \<Rightarrow> bool opr" where
  "CertExists subject = backendRead (\<lambda>st. Inr (map_of (stCerts st) subject \<noteq> None))"

definition CSRExists :: "string \<Rightarrow> bool opr" where
  "CSRExists subject = backendRead (\<lambda>st. Inr (map_of (stCSRs st) subject \<noteq> None))"

text \<open>HasCert and HasCSR drop the error: a failed call reads as absent.\<close>

definition orFalse :: "bool opr \<Rightarrow> bool opr" where
  "orFalse m = bindE (attempt m) (\<lambda>r. ok (case r of Inr b \<Rightarrow> b | Inl _ \<Rightarrow> False))"

definition HasCert :: "string \<Rightarrow> bool opr" where "HasCert subject = orFalse (CertExists subject)"
definition HasCSR :: "string \<Rightarrow> bool opr" where "HasCSR subject = orFalse (CSRExists subject)"

definition ListCSRs :: "string list opr" where
  "ListCSRs = backendRead (\<lambda>st. Inr (map fst (stCSRs st)))"

section \<open>Reading the inventory\<close>

definition blobBytes :: "bytes option \<Rightarrow> bytes" where
  "blobBytes b = (case b of None \<Rightarrow> [] | Some d \<Rightarrow> d)"

definition renderInventoryText :: "InventoryEntry list \<Rightarrow> bytes" where
  "renderInventoryText es = concat (map (\<lambda>e. canonicalInventoryLine e @ [nl]) es)"

text \<open>The entries a store holds, whichever form it keeps them in.\<close>

definition storeEntries :: "store \<Rightarrow> InventoryEntry list" where
  "storeEntries st =
     (case stInventory st of InvBlob b \<Rightarrow> parseInventoryBlob (blobBytes b)
      | InvRows rows \<Rightarrow> map rowEntry rows)"

definition isChained :: "store \<Rightarrow> bool" where
  "isChained st = (case stInventory st of InvRows _ \<Rightarrow> True | InvBlob _ \<Rightarrow> False)"

definition storeBlob :: "store \<Rightarrow> bytes" where
  "storeBlob st = (case stInventory st of InvBlob b \<Rightarrow> blobBytes b | InvRows _ \<Rightarrow> [])"

text \<open>The integrity value over the inventory as it stands.\<close>

definition computedHead :: "(bytes \<Rightarrow> bytes \<Rightarrow> bytes) \<Rightarrow> bytes \<Rightarrow> store \<Rightarrow> bytes" where
  "computedHead hm key st = foldInventoryHead hm key (storeEntries st) (storeBlob st) (isChained st)"

definition computeInventoryHMAC :: "bytes \<Rightarrow> bytes opr" where
  "computeInventoryHMAC key =
     bindE (getsE (\<lambda>w. hmacSHA256 (wConfig w))) (\<lambda>hm.
     backendRead (\<lambda>st. Inr (computedHead hm key st)))"

definition updateInventoryHMACLocked :: "bytes \<Rightarrow> unit opr" where
  "updateInventoryHMACLocked key =
     bindE (computeInventoryHMAC key) (\<lambda>sum.
     backendWrite (\<lambda>st. Inr (st\<lparr>stInventoryHMAC := Some sum\<rparr>, ())))"

definition baselineInventoryHMACLocked :: "bytes \<Rightarrow> unit opr" where
  "baselineInventoryHMACLocked key =
     bindE (computeInventoryHMAC key) (\<lambda>sum.
     bindE (backendRead (\<lambda>st. Inr (stCRL st \<noteq> None))) (\<lambda>hasCRL.
     backendWrite (\<lambda>st. Inr (st\<lparr>stInventoryHMAC := Some sum\<rparr>, ()))))"

definition verifyInventoryHMACLocked :: "bytes \<Rightarrow> unit opr" where
  "verifyInventoryHMACLocked key =
     bindE (attempt (backendRead (\<lambda>st. optionE (stInventoryHMAC st)))) (\<lambda>stored.
     case stored of
       Inl ErrNotExist \<Rightarrow> baselineInventoryHMACLocked key
     | Inl e \<Rightarrow> fail e
     | Inr storedMAC \<Rightarrow>
         bindE (computeInventoryHMAC key) (\<lambda>computedMAC.
         if storedMAC \<noteq> computedMAC then fail ErrInventoryTampered else ok ()))"

definition compareInventoryMACLocked :: "bytes \<Rightarrow> unit opr" where
  "compareInventoryMACLocked computed =
     bindE (attempt (backendRead (\<lambda>st. optionE (stInventoryHMAC st)))) (\<lambda>stored.
     case stored of
       Inl ErrNotExist \<Rightarrow> ok ()
     | Inl e \<Rightarrow> fail e
     | Inr storedMAC \<Rightarrow> if storedMAC \<noteq> computed then fail ErrInventoryTampered else ok ())"

text \<open>The verification several readers run first when a key is configured.\<close>

definition verifyIfKeyed :: "unit opr" where
  "verifyIfKeyed =
     bindE (getsE (\<lambda>w. hmacKey (wCA w))) (\<lambda>k.
     case k of None \<Rightarrow> ok () | Some key \<Rightarrow> verifyInventoryHMACLocked key)"

definition ReadInventory :: "bytes opr" where
  "ReadInventory =
     bindE verifyIfKeyed (\<lambda>_.
     backendRead (\<lambda>st. case stInventory st of
       InvBlob b \<Rightarrow> optionE b | InvRows rows \<Rightarrow> Inr (renderInventoryText (map rowEntry rows))))"

definition inventoryEntriesLocked :: "InventoryEntry list opr" where
  "inventoryEntriesLocked = backendRead (\<lambda>st. Inr (storeEntries st))"

definition InventoryEntries :: "InventoryEntry list opr" where
  "InventoryEntries =
     bindE (backendRead (\<lambda>st. Inr (storeEntries st, storeBlob st, isChained st))) (\<lambda>(entries, blob, chained).
     bindE (getsE (\<lambda>w. (hmacKey (wCA w), hmacSHA256 (wConfig w)))) (\<lambda>(k, hm).
     case k of
       None \<Rightarrow> ok entries
     | Some key \<Rightarrow>
         bindE (compareInventoryMACLocked (foldInventoryHead hm key entries blob chained)) (\<lambda>_.
         ok entries)))"

definition LatestSerialForSubject :: "string \<Rightarrow> string opr" where
  "LatestSerialForSubject subject =
     bindE (getsE (\<lambda>w. isChained (wStore w))) (\<lambda>structured.
     if structured then
       backendRead (\<lambda>st. case stInventory st of
         InvRows rows \<Rightarrow> tblLatestSerialForSubject subject \<lparr>tblRows = rows, tblHead = stInventoryHMAC st\<rparr>
       | InvBlob b \<Rightarrow> Inl ErrNotExist)
     else bindE ReadInventory (\<lambda>data. lift (latestSerialFromBlob data subject)))"

fun subjectOfSerial :: "string \<Rightarrow> InventoryEntry list \<Rightarrow> string res" where
  "subjectOfSerial want [] = Inl ErrNotExist"
| "subjectOfSerial want (e # es) =
     (case NormaliseSerial (ieSerial e) of
        Inl _ \<Rightarrow> subjectOfSerial want es
      | Inr got \<Rightarrow> if got = want then Inr (ieSubject e) else subjectOfSerial want es)"

definition SubjectForSerial :: "string \<Rightarrow> string opr" where
  "SubjectForSerial serial =
     bindE (lift (NormaliseSerial serial)) (\<lambda>want.
     bindE (getsE (\<lambda>w. isChained (wStore w))) (\<lambda>structured.
     bindE (if structured then ok () else verifyIfKeyed) (\<lambda>_.
     bindE inventoryEntriesLocked (\<lambda>entries.
     lift (subjectOfSerial want entries)))))"

section \<open>Writing the inventory\<close>

text \<open>The transaction of a structured backend on the rows and the stored head.\<close>

definition onTable :: "(invTable \<Rightarrow> (invTable \<times> 'a) res) \<Rightarrow> store \<Rightarrow> (store \<times> 'a) res" where
  "onTable f st =
     (case stInventory st of
        InvRows rows \<Rightarrow>
          (case f \<lparr>tblRows = rows, tblHead = stInventoryHMAC st\<rparr> of
             Inl e \<Rightarrow> Inl e
           | Inr (t, x) \<Rightarrow> Inr (st\<lparr>stInventory := InvRows (tblRows t), stInventoryHMAC := tblHead t\<rparr>, x))
      | InvBlob _ \<Rightarrow> Inl ErrBackend)"

definition AppendInventoryRecord :: "string \<Rightarrow> unit opr" where
  "AppendInventoryRecord entry =
     (case parseInventoryEntry entry of
        None \<Rightarrow> fail (ErrOther ''malformed inventory entry'')
      | Some parsed \<Rightarrow>
          if entry \<noteq> canonicalInventoryLine parsed then fail (ErrOther ''non-canonical inventory entry'')
          else
          bindE (getsE (\<lambda>w. (isChained (wStore w), hmacKey (wCA w), hmacSHA256 (wConfig w)))) (\<lambda>(structured, k, hm).
          if structured then
            backendWrite (onTable (\<lambda>t. map_sum id (\<lambda>t'. (t', ()))
              (appendEntryOnce parsed (map_option (\<lambda>key prev. chainInventoryMAC hm key prev entry) k) t)))
          else
            bindE (backendRead (\<lambda>st. Inr (storeBlob st))) (\<lambda>data.
            if blobHasSerial data (inventorySerial (ieSerial parsed)) then fail ErrDuplicateSerial
            else let line = openVoxInventoryLine parsed entry in
            bindE (backendWrite (\<lambda>st. Inr (st\<lparr>stInventory :=
                InvBlob (Some (storeBlob st @ line @ [nl]))\<rparr>, ()))) (\<lambda>_.
            case k of
              None \<Rightarrow> ok ()
            | Some key \<Rightarrow> backendWrite (\<lambda>st.
                Inr (st\<lparr>stInventoryHMAC := Some (wholeBlobInventoryMAC hm key (data @ line @ [nl]))\<rparr>, ()))))))"

definition PruneInventory :: "(InventoryEntry \<Rightarrow> bool) \<Rightarrow> (InventoryEntry list \<times> err option) opr" where
  "PruneInventory keep =
     bindE verifyIfKeyed (\<lambda>_.
     bindE (getsE (\<lambda>w. (isChained (wStore w), hmacKey (wCA w), hmacSHA256 (wConfig w)))) (\<lambda>(structured, k, hm).
     if structured then
       bindE (backendWrite (onTable (\<lambda>t. Inr (pruneEntriesOnce keep
         (map_option (\<lambda>key prev e. chainInventoryMAC hm key prev (canonicalInventoryLine e)) k) t))))
         (\<lambda>removed. ok (removed, None))
     else
       bindE (backendRead (\<lambda>st. Inr (storeBlob st))) (\<lambda>data.
       let (buf, removed) = pruneInventoryBlob keep data in
       if removed = [] then ok ([], None)
       else
         bindE (backendWrite (\<lambda>st. Inr (st\<lparr>stInventory := InvBlob (Some buf)\<rparr>, ()))) (\<lambda>_.
         case k of
           None \<Rightarrow> ok (removed, None)
         | Some key \<Rightarrow>
             bindE (attempt (updateInventoryHMACLocked key)) (\<lambda>r.
             ok (removed, case r of Inl e \<Rightarrow> Some e | Inr _ \<Rightarrow> None))))))"

text \<open>A backend without the certificate index ignores the projection.\<close>

definition MarkCertRevoked :: "string \<Rightarrow> gotime \<Rightarrow> unit opr" where
  "MarkCertRevoked serial at =
     bindE (getsE (\<lambda>w. isChained (wStore w))) (\<lambda>structured.
     if structured then backendWrite (onTable (\<lambda>t. Inr (tblSetRevoked serial at t, ())))
     else ok ())"

section \<open>What the inventory operations leave alone\<close>

definition invFrame :: "world \<Rightarrow> world \<Rightarrow> bool" where
  "invFrame w v = (wCA v = wCA w \<and> wConfig v = wConfig w \<and> stCRL (wStore v) = stCRL (wStore w)
     \<and> stCSRs (wStore v) = stCSRs (wStore w) \<and> stCerts (wStore v) = stCerts (wStore w)
     \<and> stSuperseded (wStore v) = stSuperseded (wStore w) \<and> stCACert (wStore v) = stCACert (wStore w))"

interpretation inv: step_relation invFrame
  by unfold_locales (auto simp: invFrame_def sameState_def)

lemma onTable_fields:
  "onTable f st = Inr (st', x) \<Longrightarrow> stCRL st' = stCRL st \<and> stCSRs st' = stCSRs st
     \<and> stCerts st' = stCerts st \<and> stSuperseded st' = stSuperseded st \<and> stCACert st' = stCACert st"
  by (auto simp: onTable_def split: inventory.splits sum.splits)

lemma inv_write_table: "state_io_rel invFrame (backendWrite (onTable f))"
  by (rule inv.io_backendWrite) (simp add: invFrame_def onTable_fields)

lemma inv_write_mac:
  "state_io_rel invFrame (backendWrite (\<lambda>st. Inr (st\<lparr>stInventoryHMAC := g st\<rparr>, ())))"
  by (rule inv.io_backendWrite) (auto simp: invFrame_def)

lemma inv_write_blob:
  "state_io_rel invFrame (backendWrite (\<lambda>st. Inr (st\<lparr>stInventory := g st\<rparr>, ())))"
  by (rule inv.io_backendWrite) (auto simp: invFrame_def)

lemmas inv_io = inv.io inv_write_table inv_write_mac inv_write_blob

lemma inv_verify: "state_io_rel invFrame (verifyInventoryHMACLocked key)"
  unfolding verifyInventoryHMACLocked_def baselineInventoryHMACLocked_def computeInventoryHMAC_def
  by (intro inv_io) (auto intro!: inv_io split: sum.splits err.splits)

lemma inv_verifyIfKeyed: "state_io_rel invFrame verifyIfKeyed"
  unfolding verifyIfKeyed_def by (intro inv_io) (auto intro!: inv_io inv_verify split: option.splits)

lemma inv_append: "state_io_rel invFrame (AppendInventoryRecord entry)"
  unfolding AppendInventoryRecord_def
  by (auto intro!: inv_io simp: Let_def split: option.splits)

lemma inv_mark: "state_io_rel invFrame (MarkCertRevoked serial at)"
  unfolding MarkCertRevoked_def by (auto intro!: inv_io)

section \<open>Appending\<close>

definition invOk :: "store \<Rightarrow> bool" where
  "invOk st = (distinct (map ieSerial (storeEntries st)) \<and> terminated (storeBlob st))"

text \<open>The stored integrity value covers the inventory; an absent one covers the empty one.\<close>

definition headOk :: "(bytes \<Rightarrow> bytes \<Rightarrow> bytes) \<Rightarrow> bytes \<Rightarrow> store \<Rightarrow> bool" where
  "headOk hm key st = (blobBytes (stInventoryHMAC st) = computedHead hm key st)"

lemma blobBytes_simps [simp]: "blobBytes None = []" "blobBytes (Some d) = d"
  by (simp_all add: blobBytes_def)

lemma not_chained: "\<not> isChained st \<Longrightarrow> storeEntries st = parseInventoryBlob (storeBlob st)"
  by (simp add: isChained_def storeEntries_def storeBlob_def split: inventory.splits)

lemma store_blob_write [simp]:
  "storeEntries (st\<lparr>stInventory := InvBlob b\<rparr>) = parseInventoryBlob (blobBytes b)"
  "storeBlob (st\<lparr>stInventory := InvBlob b\<rparr>) = blobBytes b"
  "isChained (st\<lparr>stInventory := InvBlob b\<rparr>) = False"
  "storeEntries (st\<lparr>stInventoryHMAC := m\<rparr>) = storeEntries st"
  "storeBlob (st\<lparr>stInventoryHMAC := m\<rparr>) = storeBlob st"
  "isChained (st\<lparr>stInventoryHMAC := m\<rparr>) = isChained st"
  by (simp_all add: storeEntries_def storeBlob_def isChained_def)

text \<open>An append that reports an error may have recorded the entry; one that succeeds has.\<close>

definition appended :: "InventoryEntry \<Rightarrow> store \<Rightarrow> store \<Rightarrow> bool" where
  "appended e st st' = (ieSerial e \<notin> ieSerial ` set (storeEntries st)
     \<and> storeEntries st' = storeEntries st @ [e] \<and> invOk st' \<and> isChained st' = isChained st)"

lemma map_sum_Inr [simp]: "map_sum id g r = Inr y \<longleftrightarrow> (\<exists>x. r = Inr x \<and> g x = y)"
  by (cases r) auto

lemma appended_mac [simp]: "appended e st (st'\<lparr>stInventoryHMAC := m\<rparr>) = appended e st st'"
  by (simp add: appended_def invOk_def)

lemma appended_rows:
  assumes "onTable (\<lambda>t. map_sum id (\<lambda>t'. (t', ())) (appendEntryOnce e f t)) st = Inr (st', x)" "invOk st"
  shows "appended e st st'"
    "f = Some (\<lambda>prev. chainInventoryMAC hm key prev (canonicalInventoryLine e)) \<Longrightarrow> headOk hm key st \<Longrightarrow>
       stInventoryHMAC st' = Some (computedHead hm key st')"
proof -
  obtain rows t where rows: "stInventory st = InvRows rows"
    and t: "appendEntryOnce e f \<lparr>tblRows = rows, tblHead = stInventoryHMAC st\<rparr> = Inr t"
    and st': "st' = st\<lparr>stInventory := InvRows (tblRows t), stInventoryHMAC := tblHead t\<rparr>"
    using assms(1) by (auto simp: onTable_def split: inventory.splits sum.splits)
  then show "appended e st st'"
    using assms(2)
    by (auto simp: appendEntryOnce_def appended_def storeEntries_def invOk_def storeBlob_def isChained_def
        tblEntries_def inventoryRowFromEntry_def split: if_splits)
  assume "f = Some (\<lambda>prev. chainInventoryMAC hm key prev (canonicalInventoryLine e))" "headOk hm key st"
  then show "stInventoryHMAC st' = Some (computedHead hm key st')"
    using t st' rows
    by (auto simp: appendEntryOnce_def headOk_def computedHead_def storeEntries_def isChained_def
        foldInventoryHead_def inventoryRowFromEntry_def blobBytes_def split: if_splits option.splits)
qed

lemma appended_blob:
  assumes "\<not> isChained st" "invOk st" "entryOk e" "ieSerial e \<notin> ieSerial ` set (storeEntries st)"
  shows "appended e st (st\<lparr>stInventory := InvBlob (Some (storeBlob st @ openVoxInventoryLine e raw @ [nl]))\<rparr>)"
proof -
  have t: "terminated (storeBlob st)" using assms(2) by (simp add: invOk_def)
  show ?thesis
    using assms appendInventoryBlob_entries(2,3) [OF t assms(3), of raw] not_chained [OF assms(1)]
    by (auto simp: appended_def invOk_def)
qed

lemma append_step:
  assumes "run_state (AppendInventoryRecord (canonicalInventoryLine e)) w = (r, v)"
    and "entryOk e" "invOk (wStore w)"
  shows "sameState w v \<and> (\<exists>x. r = Inl x) \<or> appended e (wStore w) (wStore v)"
proof (cases "isChained (wStore w)")
  case True
  then show ?thesis
    using assms(1) parse_canonical [OF assms(2)] appended_rows(1) [OF _ assms(3)]
    by (auto simp: AppendInventoryRecord_def run_bindE elim!: backendWrite_cases)
next
  case False
  obtain n where n: "0 \<le> n" "ieSerial e = serialHexStr n" using entryOk_serial [OF assms(2)] .
  let ?m = "\<lambda>data. if blobHasSerial data (inventorySerial (ieSerial e)) then fail ErrDuplicateSerial
            else let line = openVoxInventoryLine e (canonicalInventoryLine e) in
            bindE (backendWrite (\<lambda>st. Inr (st\<lparr>stInventory :=
                InvBlob (Some (storeBlob st @ line @ [nl]))\<rparr>, ()))) (\<lambda>_.
            case hmacKey (wCA w) of
              None \<Rightarrow> ok ()
            | Some key \<Rightarrow> backendWrite (\<lambda>st. Inr (st\<lparr>stInventoryHMAC :=
                Some (wholeBlobInventoryMAC (hmacSHA256 (wConfig w)) key (data @ line @ [nl]))\<rparr>, ())))"
  have run: "run_state (bindE (backendRead (\<lambda>st. Inr (storeBlob st))) ?m) w = (r, v)"
    using assms(1) False parse_canonical [OF assms(2)] by (simp add: AppendInventoryRecord_def run_bindE)
  then show ?thesis
  proof (cases rule: bindE_E)
    case (error x)
    then show ?thesis using backendRead_same by blast
  next
    case (step data u)
    have u: "sameState w u" "data = storeBlob (wStore w)"
      using backendRead_same [OF step(1)] backendRead_ok [OF step(1)] by auto
    show ?thesis
    proof (cases "blobHasSerial data (inventorySerial (ieSerial e))")
      case True
      then show ?thesis using step(2) u by auto
    next
      case dup: False
      then have fresh: "ieSerial e \<notin> ieSerial ` set (storeEntries (wStore w))"
        using n u(2) by (simp add: blobHasSerial_entries not_chained [OF False])
      note app = appended_blob [OF False assms(3,2) fresh]
      let ?st = "(wStore w)\<lparr>stInventory := InvBlob (Some (storeBlob (wStore w)
          @ openVoxInventoryLine e (canonicalInventoryLine e) @ [nl]))\<rparr>"
      let ?wr = "backendWrite (\<lambda>st. Inr (st\<lparr>stInventory := InvBlob (Some (storeBlob st
          @ openVoxInventoryLine e (canonicalInventoryLine e) @ [nl]))\<rparr>, ()))"
      have wr: "sameState u x \<and> (\<exists>y. q = Inl y) \<or> wStore x = ?st" if "run_state ?wr u = (q, x)" for q x
        using that u(1) by (cases rule: backendWrite_cases) (auto simp: sameState_def)
      have tl: "wStore y = wStore x \<or> (\<exists>m. wStore y = (wStore x)\<lparr>stInventoryHMAC := m\<rparr>)"
        if "run_state (case hmacKey (wCA w) of None \<Rightarrow> ok () | Some key \<Rightarrow>
            backendWrite (\<lambda>st. Inr (st\<lparr>stInventoryHMAC := g key\<rparr>, ()))) x = (q, y)" for g q x y
        using that by (cases "hmacKey (wCA w)") (auto simp: sameState_def elim!: backendPut_cases)
      from step(2) dup have "run_state (bindE ?wr (\<lambda>_. case hmacKey (wCA w) of None \<Rightarrow> ok ()
          | Some key \<Rightarrow> backendWrite (\<lambda>st. Inr (st\<lparr>stInventoryHMAC := Some (wholeBlobInventoryMAC
              (hmacSHA256 (wConfig w)) key (data @ openVoxInventoryLine e (canonicalInventoryLine e) @ [nl]))\<rparr>, ())))) u
          = (r, v)" by (simp add: Let_def)
      then show ?thesis
      proof (cases rule: bindE_E)
        case (error y)
        then show ?thesis using wr [OF error(1)] app u(1) sameState_trans by auto
      next
        case (step z x)
        then have "wStore x = ?st" using wr by blast
        then show ?thesis using tl [OF step(2)] app by auto
      qed
    qed
  qed
qed

lemma append_ok:
  assumes "run_state (AppendInventoryRecord (canonicalInventoryLine e)) w = (Inr (), v)"
    and "entryOk e" "invOk (wStore w)"
  shows "appended e (wStore w) (wStore v)"
  using append_step [OF assms] by auto

lemma append_blob_ok:
  assumes "run_state (AppendInventoryRecord (canonicalInventoryLine e)) w = (Inr (), v)"
    and "entryOk e" "\<not> isChained (wStore w)"
  obtains line where "wStore v = (wStore w)\<lparr>stInventory := InvBlob (Some (storeBlob (wStore w) @ line)),
      stInventoryHMAC := (case hmacKey (wCA w) of None \<Rightarrow> stInventoryHMAC (wStore w)
        | Some key \<Rightarrow> Some (hmacSHA256 (wConfig w) key (storeBlob (wStore w) @ line)))\<rparr>"
proof -
  let ?line = "openVoxInventoryLine e (canonicalInventoryLine e) @ [nl]"
  let ?wr = "backendWrite (\<lambda>st. Inr (st\<lparr>stInventory := InvBlob (Some (storeBlob st @ ?line))\<rparr>, ()))"
  obtain data u where u: "run_state (backendRead (\<lambda>st. Inr (storeBlob st))) w = (Inr data, u)"
    and r: "run_state (bindE ?wr (\<lambda>_. case hmacKey (wCA w) of None \<Rightarrow> ok ()
          | Some key \<Rightarrow> backendWrite (\<lambda>st. Inr (st\<lparr>stInventoryHMAC :=
              Some (wholeBlobInventoryMAC (hmacSHA256 (wConfig w)) key (data @ ?line))\<rparr>, ())))) u = (Inr (), v)"
    using assms parse_canonical [OF assms(2)]
    by (auto simp: AppendInventoryRecord_def run_bindE Let_def split: prod.splits sum.splits if_splits)
  have d: "data = storeBlob (wStore w)" "sameState w u"
    using backendRead_ok [OF u] backendRead_same [OF u] by simp_all
  from r obtain x where x: "run_state ?wr u = (Inr (), x)"
    "run_state (case hmacKey (wCA w) of None \<Rightarrow> ok ()
          | Some key \<Rightarrow> backendWrite (\<lambda>st. Inr (st\<lparr>stInventoryHMAC :=
              Some (wholeBlobInventoryMAC (hmacSHA256 (wConfig w)) key (data @ ?line))\<rparr>, ()))) x = (Inr (), v)"
    by (rule bindE_okE) auto
  have "wStore x = (wStore w)\<lparr>stInventory := InvBlob (Some (storeBlob (wStore w) @ ?line))\<rparr>"
    using x(1) d(2) by (cases rule: backendPut_cases) (auto simp: sameState_def)
  then show ?thesis
    using that [of ?line] x(2) d(1)
    by (cases "hmacKey (wCA w)") (auto simp: wholeBlobInventoryMAC_def elim!: backendPut_cases)
qed

lemma append_head:
  assumes run: "run_state (AppendInventoryRecord (canonicalInventoryLine e)) w = (Inr (), v)"
    and ok: "entryOk e" "invOk (wStore w)" "hmacKey (wCA w) = Some key"
    and head: "isChained (wStore w) \<Longrightarrow> headOk (hmacSHA256 (wConfig w)) key (wStore w)"
  shows "stInventoryHMAC (wStore v) = Some (computedHead (hmacSHA256 (wConfig w)) key (wStore v))"
proof (cases "isChained (wStore w)")
  case True
  let ?f = "Some (\<lambda>prev. chainInventoryMAC (hmacSHA256 (wConfig w)) key prev (canonicalInventoryLine e))"
  have "run_state (backendWrite (onTable (\<lambda>t. map_sum id (\<lambda>t'. (t', ())) (appendEntryOnce e ?f t)))) w = (Inr (), v)"
    using run True ok(3) parse_canonical [OF ok(1)] by (simp add: AppendInventoryRecord_def run_bindE)
  from backendWrite_ok(1) [OF this] show ?thesis
    using appended_rows(2) [OF _ ok(2)] head [OF True] by blast
next
  case False
  obtain line where "wStore v = (wStore w)\<lparr>stInventory := InvBlob (Some (storeBlob (wStore w) @ line)),
      stInventoryHMAC := Some (hmacSHA256 (wConfig w) key (storeBlob (wStore w) @ line))\<rparr>"
    using append_blob_ok [OF run ok(1) False] ok(3) by auto
  then show ?thesis by (simp add: computedHead_def foldInventoryHead_def wholeBlobInventoryMAC_def)
qed

section \<open>Verified reads\<close>

lemma stored_mac_absent:
  assumes "run_state (backendRead (\<lambda>st. optionE (stInventoryHMAC st))) u = (Inl ErrNotExist, x)"
  shows "stInventoryHMAC (wStore u) = None"
proof -
  obtain out v where "run_state nextOutcome u = (out, v)" by fastforce
  with assms nextOutcome_same [OF this] show ?thesis
    by (cases out) (simp_all add: backendRead_def optionE_def sameState_def split: option.splits)
qed

lemma compare_ok:
  assumes run: "run_state (compareInventoryMACLocked c) u = (Inr (), y)"
  shows "sameState u y" "stInventoryHMAC (wStore u) = Some m \<Longrightarrow> m = c"
proof -
  obtain r x where r: "run_state (backendRead (\<lambda>st. optionE (stInventoryHMAC st))) u = (r, x)"
    by fastforce
  note s = backendRead_same [OF r]
  have "sameState u y \<and> (stInventoryHMAC (wStore u) = Some m \<longrightarrow> m = c)"
  proof (cases r)
    case (Inl e)
    then have "e = ErrNotExist \<and> x = y"
      using run r by (cases e) (simp_all add: compareInventoryMACLocked_def run_bindE run_attempt)
    then show ?thesis using stored_mac_absent r Inl s by simp
  next
    case (Inr d)
    then have "d = m" if "stInventoryHMAC (wStore u) = Some m"
      using backendRead_ok [OF r [unfolded Inr]] that by (simp add: optionE_def)
    then show ?thesis using run r Inr s
      by (simp add: compareInventoryMACLocked_def run_bindE run_attempt split: if_splits)
  qed
  then show "sameState u y" "stInventoryHMAC (wStore u) = Some m \<Longrightarrow> m = c" by simp_all
qed

lemma InventoryEntries_ok:
  assumes "run_state InventoryEntries w = (Inr es, v)"
  shows "es = storeEntries (wStore w)" "sameState w v"
    "hmacKey (wCA w) = Some key \<Longrightarrow> stInventoryHMAC (wStore w) = Some mac \<Longrightarrow>
       mac = computedHead (hmacSHA256 (wConfig w)) key (wStore w)"
proof -
  obtain x u where x: "run_state (backendRead (\<lambda>st. Inr (storeEntries st, storeBlob st, isChained st))) w = (Inr x, u)"
    and r: "run_state (case hmacKey (wCA u) of None \<Rightarrow> ok (fst x) | Some key \<Rightarrow>
         bindE (compareInventoryMACLocked (foldInventoryHead (hmacSHA256 (wConfig u)) key
           (fst x) (fst (snd x)) (snd (snd x)))) (\<lambda>_. ok (fst x))) u = (Inr es, v)"
    using assms unfolding InventoryEntries_def by (rule bindE_okE) (simp add: split_def run_bindE cong: option.case_cong)
  have u: "sameState w u" by (rule backendRead_same [OF x])
  have xs: "x = (storeEntries (wStore w), storeBlob (wStore w), isChained (wStore w))"
    using backendRead_ok [OF x] by simp
  have "es = storeEntries (wStore w) \<and> sameState u v
      \<and> (hmacKey (wCA w) = Some key \<longrightarrow> stInventoryHMAC (wStore w) = Some mac \<longrightarrow>
           mac = computedHead (hmacSHA256 (wConfig w)) key (wStore w))"
  proof (cases "hmacKey (wCA u)")
    case None
    then show ?thesis using r xs u by (simp add: sameState_def)
  next
    case (Some k)
    with r have "run_state (bindE (compareInventoryMACLocked (foldInventoryHead (hmacSHA256 (wConfig u)) k
        (fst x) (fst (snd x)) (snd (snd x)))) (\<lambda>_. ok (fst x))) u = (Inr es, v)" by simp
    then obtain q y where c: "run_state (compareInventoryMACLocked (foldInventoryHead (hmacSHA256 (wConfig u)) k
        (fst x) (fst (snd x)) (snd (snd x)))) u = (Inr q, y)" "es = fst x" "v = y"
      by (rule bindE_okE) simp
    have c1: "run_state (compareInventoryMACLocked (foldInventoryHead (hmacSHA256 (wConfig u)) k
        (fst x) (fst (snd x)) (snd (snd x)))) u = (Inr (), y)" using c(1) by simp
    show ?thesis
      using c(2,3) compare_ok(1) [OF c1] compare_ok(2) [OF c1, of mac] Some u xs
      by (auto simp: sameState_def computedHead_def)
  qed
  then show "es = storeEntries (wStore w)" "sameState w v"
    "hmacKey (wCA w) = Some key \<Longrightarrow> stInventoryHMAC (wStore w) = Some mac \<Longrightarrow>
       mac = computedHead (hmacSHA256 (wConfig w)) key (wStore w)"
    using sameState_trans [OF u] by simp_all
qed

section \<open>Appending without faults\<close>

lemma append_live:
  assumes "faultless w" "entryOk e" "ieSerial e \<notin> ieSerial ` set (storeEntries (wStore w))"
  obtains v where "run_state (AppendInventoryRecord (canonicalInventoryLine e)) w = (Inr (), v)" "faultless v"
proof (cases "stInventory (wStore w)")
  case (InvRows rows)
  then have "ieSerial e \<notin> ieSerial ` rowEntry ` set rows" using assms(3) by (simp add: storeEntries_def)
  then show ?thesis
    using that InvRows assms(1) parse_canonical [OF assms(2)]
    by (simp add: AppendInventoryRecord_def run_bindE isChained_def live onTable_def appendEntryOnce_def
        tblEntries_def image_image)
next
  case (InvBlob b)
  obtain n where n: "0 \<le> n" "ieSerial e = serialHexStr n" using entryOk_serial [OF assms(2)] .
  have "\<not> blobHasSerial (storeBlob (wStore w)) (inventorySerial (ieSerial e))"
    using assms(3) n InvBlob by (simp add: blobHasSerial_entries storeEntries_def storeBlob_def)
  then show ?thesis
    using that InvBlob assms(1) parse_canonical [OF assms(2)]
    by (cases "hmacKey (wCA w)")
      (simp_all add: AppendInventoryRecord_def run_bindE isChained_def live Let_def)
qed

text \<open>With an integrity key, the stored value covers the inventory as it stands.\<close>

definition inventoryIntact :: "world \<Rightarrow> bool" where
  "inventoryIntact w = (\<forall>key. hmacKey (wCA w) = Some key \<longrightarrow>
     stInventoryHMAC (wStore w) = Some (computedHead (hmacSHA256 (wConfig w)) key (wStore w)))"

lemma intact_same: "sameState w v \<Longrightarrow> inventoryIntact v = inventoryIntact w"
  by (simp add: inventoryIntact_def sameState_def)

lemma verify_live:
  assumes "faultless w" "inventoryIntact w"
  shows "run_state verifyIfKeyed w = (Inr (), w)"
  using assms by (cases "hmacKey (wCA w)")
    (simp_all add: verifyIfKeyed_def verifyInventoryHMACLocked_def computeInventoryHMAC_def inventoryIntact_def run_bindE live
      run_attempt optionE_def)

lemma entries_live:
  assumes "faultless w" "inventoryIntact w"
  shows "run_state InventoryEntries w = (Inr (storeEntries (wStore w)), w)"
  using assms by (cases "hmacKey (wCA w)")
    (simp_all add: InventoryEntries_def inventoryIntact_def run_bindE live compareInventoryMACLocked_def run_attempt optionE_def
      computedHead_def)

definition sampleRows :: world where
  "sampleRows = (let hm = (\<lambda>k m. replicate 32 CHR ''x'');
       st = sampleStore\<lparr>stInventory := InvRows [inventoryRowFromEntry (demoEntry 1 ''a'')]\<rparr> in
     sample\<lparr>wStore := st\<lparr>stInventoryHMAC := Some (computedHead hm ''k'' st)\<rparr>,
       wCA := sampleCA\<lparr>hmacKey := Some ''k''\<rparr>, wConfig := sampleConfig\<lparr>hmacSHA256 := hm\<rparr>\<rparr>)"

lemma sampleRows_parts:
  "faultless sampleRows" "isChained (wStore sampleRows)" "hmacKey (wCA sampleRows) = Some ''k''"
  "hmacSHA256 (wConfig sampleRows) = (\<lambda>k m. replicate 32 CHR ''x'')"
  "storeEntries (wStore sampleRows) = [demoEntry 1 ''a'']"
  "stInventoryHMAC (wStore sampleRows)
     = Some (computedHead (hmacSHA256 (wConfig sampleRows)) ''k'' (wStore sampleRows))"
  by (simp_all add: sampleRows_def sample_def sampleEnv_def faultless_def Let_def isChained_def storeEntries_def
      computedHead_def storeBlob_def inventoryRowFromEntry_def)

lemma sampleRows_intact: "inventoryIntact sampleRows"
  using sampleRows_parts(3,6) by (simp add: inventoryIntact_def)

section \<open>Properties\<close>

text \<open>
  C34. Whatever the backend answers, recording a well-formed entry in a well-formed
  inventory has one of two outcomes: nothing changed and an error is reported, or exactly
  that entry was added behind the others, its serial was new and the inventory is well
  formed.  A reported success is the second.  If moreover an integrity key is configured
  and the stored integrity value covered the inventory before, then after a success it
  covers the new one.
\<close>

theorem append_record_outcome:
  assumes "entryOk e" "invOk (wStore w)"
    and "run_state (AppendInventoryRecord (canonicalInventoryLine e)) w = (r, v)"
  shows "(sameState w v \<and> r \<noteq> Inr () \<or> appended e (wStore w) (wStore v))
    \<and> (r = Inr () \<and> hmacKey (wCA w) = Some key \<and> headOk (hmacSHA256 (wConfig w)) key (wStore w) \<longrightarrow>
         stInventoryHMAC (wStore v) = Some (computedHead (hmacSHA256 (wConfig w)) key (wStore v)))"
  using append_step [OF assms(3,1,2)] append_head [of e w v key] assms by auto

text \<open>The example has a key, one entry, and the integrity value of that entry.\<close>

theorem append_record_outcome_witness:
  "\<exists>v. run_state (AppendInventoryRecord (canonicalInventoryLine (demoEntry 255 ''b.example''))) sampleRows = (Inr (), v)
     \<and> storeEntries (wStore v) = [demoEntry 1 ''a'', demoEntry 255 ''b.example'']
     \<and> stInventoryHMAC (wStore v) = Some (computedHead (hmacSHA256 (wConfig sampleRows)) ''k'' (wStore v))"
proof -
  let ?e = "demoEntry 255 ''b.example''"
  have ok: "invOk (wStore sampleRows)" "headOk (hmacSHA256 (wConfig sampleRows)) ''k'' (wStore sampleRows)"
    using sampleRows_parts(2,5,6) by (simp_all add: invOk_def headOk_def isChained_def storeBlob_def terminated_def split: inventory.splits)
  have "ieSerial ?e \<notin> ieSerial ` set (storeEntries (wStore sampleRows))"
    by (simp add: sampleRows_parts(5) demoEntry_def serialHexStr_def hex_text.simps hex_digit_def)
  then obtain v where v: "run_state (AppendInventoryRecord (canonicalInventoryLine ?e)) sampleRows = (Inr (), v)"
    using append_live [OF sampleRows_parts(1) demoEntry_ok(2)] by blast
  with append_record_outcome [OF demoEntry_ok(2) ok(1) v, of "''k''"] ok(2) sampleRows_parts(3,5) show ?thesis
    by (auto simp: appended_def)
qed

text \<open>
  C35. A verified read of the inventory returns what the CA recorded, also when the store
  was tampered with.  An integrity key is configured and the keyed hash gives 32 bytes.  If
  the stored integrity value is the one of an inventory st0 in the same form, a
  successful read in the structured form returns entries with the same canonical lines as
  those of st0, and the very same entries if both consist of well-formed ones, or else the
  messages of the two chains contain a collision of the keyed hash, or one of its values is
  the beginning of an inventory line.  In the text form the text is that of st0, or the
  hash has a collision.
\<close>

theorem verified_read_authentic:
  assumes "run_state InventoryEntries w = (Inr es, v)"
    and "hmacKey (wCA w) = Some key" "hm = hmacSHA256 (wConfig w)" "\<And>m. length (hm key m) = 32"
    and "stInventoryHMAC (wStore w) = Some (computedHead hm key st0)" "isChained st0 = isChained (wStore w)"
  shows "if isChained st0
     then (map canonicalInventoryLine es = map canonicalInventoryLine (storeEntries st0)
           \<and> (list_all entryOk es \<and> list_all entryOk (storeEntries st0) \<longrightarrow> es = storeEntries st0))
         \<or> chainBreak hm key es (storeEntries st0)
     else storeBlob (wStore w) = storeBlob st0
       \<or> hm key (storeBlob (wStore w)) = hm key (storeBlob st0) \<and> storeBlob (wStore w) \<noteq> storeBlob st0"
proof -
  have es: "es = storeEntries (wStore w)" by (rule InventoryEntries_ok(1) [OF assms(1)])
  have eq: "computedHead hm key st0 = computedHead hm key (wStore w)"
    using InventoryEntries_ok(3) [OF assms(1,2,5)] assms(3) by simp
  show ?thesis
  proof (cases "isChained st0")
    case True
    then have "chainHead hm key es = chainHead hm key (storeEntries st0)"
      using eq es assms(6) by (simp add: computedHead_def foldInventoryHead_def chainHead_def)
    then show ?thesis using True chain_lines [of hm key es "storeEntries st0"] assms(4) lines_inject by auto
  next
    case False
    then show ?thesis
      using eq assms(6) by (auto simp: computedHead_def foldInventoryHead_def wholeBlobInventoryMAC_def)
  qed
qed

theorem verified_read_authentic_witness:
  "\<exists>v. run_state InventoryEntries sampleRows = (Inr [demoEntry 1 ''a''], v)
     \<and> ([demoEntry 1 ''a''] = storeEntries (wStore sampleRows)
        \<or> chainBreak (hmacSHA256 (wConfig sampleRows)) ''k'' [demoEntry 1 ''a''] (storeEntries (wStore sampleRows)))"
proof -
  have run: "run_state InventoryEntries sampleRows = (Inr [demoEntry 1 ''a''], sampleRows)"
    using entries_live [OF sampleRows_parts(1) sampleRows_intact] sampleRows_parts(5) by simp
  show ?thesis
    using run sampleRows_parts demoEntry_ok(1)
      verified_read_authentic [OF run sampleRows_parts(3) refl _ sampleRows_parts(6) refl] by simp
qed

end
