(* ===== verification/Crl.thy ===== *)
theory Crl
  imports Storage
begin

text \<open>
  Signing, publishing and caching this CA's CRL (internal/ca/crl.go, crlsync.go, the
  chain assembly of crlchain.go, the file reads of crlchainfile.go).  A re-sign reads
  the stored list, advances its number, keeps the ancestors and installs the result in
  the cache with the OCSP answers it invalidates.  Lemmas: whatever fails on the way,
  the stored list only moves forwards, keeps its entries and its ancestors, and the
  cache and the OCSP cache stay consistent with it.
\<close>

section \<open>Durations\<close>

definition daysDuration :: "int \<Rightarrow> duration" where
  "daysDuration d = wrap64 (d * 24 * hour)"

definition CRLValidity :: duration where "CRLValidity = 30 * 24 * hour"

definition CRLValidityDuration :: "config \<Rightarrow> duration" where
  "CRLValidityDuration c =
     (if 0 < CRLValidityDays c then daysDuration (CRLValidityDays c) else CRLValidity)"

text \<open>Go's division truncates towards zero.\<close>

definition DefaultCRLRefreshBefore :: "config \<Rightarrow> duration" where
  "DefaultCRLRefreshBefore c =
     (let d = CRLValidityDuration c in if 0 \<le> d then d div 3 else - ((- d) div 3))"

section \<open>The signing bound\<close>

text \<open>A slot is waited for until the deadline; the signature itself may be a remote call.\<close>

definition acquireSigningSlot :: "unit opr" where
  "acquireSigningSlot =
     bindE (getsE (\<lambda>w. SigningConcurrency (wConfig w))) (\<lambda>n.
     if n \<le> 0 then ok () else externalCall (Inr ()))"

section \<open>The cached list\<close>

definition ocspCacheHashes :: "hashAlg list" where
  "ocspCacheHashes = [SHA1, SHA256, SHA384, SHA512]"

definition ocspCacheableHash :: "hashAlg \<Rightarrow> bool" where
  "ocspCacheableHash h = (h \<in> set ocspCacheHashes)"

definition evictOCSPLocked :: "string \<Rightarrow> CA \<Rightarrow> CA" where
  "evictOCSPLocked serial ca =
     ca\<lparr>ocspCache := filter (\<lambda>((s, h), e). \<not> (s = serial \<and> ocspCacheableHash h)) (ocspCache ca)\<rparr>"

fun evictNewly :: "string list \<Rightarrow> RevocationListEntry list \<Rightarrow> CA \<Rightarrow> CA" where
  "evictNewly was [] ca = ca"
| "evictNewly was (entry # entries) ca =
     (let key = serialHexStr (rleSerialNumber entry) in
      evictNewly was entries (if key \<in> set was then ca else evictOCSPLocked key ca))"

definition invalidateOCSPForNewlyRevokedLocked ::
    "RevocationList option \<Rightarrow> RevocationList \<Rightarrow> CA \<Rightarrow> CA" where
  "invalidateOCSPForNewlyRevokedLocked previous current ca =
     (let was = (case previous of None \<Rightarrow> []
                 | Some p \<Rightarrow> map (\<lambda>e. serialHexStr (rleSerialNumber e)) (rlEntries p))
      in evictNewly was (rlEntries current) ca)"

definition installCachedCRLLocked :: "RevocationList \<Rightarrow> CA \<Rightarrow> CA" where
  "installCachedCRLLocked nxt ca =
     invalidateOCSPForNewlyRevokedLocked (cachedCRL ca) nxt (ca\<lparr>cachedCRL := Some nxt\<rparr>)"

section \<open>Ancestors from the operator's file\<close>

definition bundleCertificates :: "Certificate list opr" where
  "bundleCertificates = bindE GetCACert (\<lambda>bundle. lift (ParseCABundle bundle))"

definition chainFileFault :: "'a opr" where
  "chainFileFault = bindE (changeCA (crlChainFailures_update Suc)) (\<lambda>_. fail ErrChainFileFault)"

text \<open>The lists to publish, and whether the file made a statement.\<close>

definition upstreamCRLs :: "CRLBlob \<Rightarrow> bool \<Rightarrow> (RevocationList list \<times> bool) opr" where
  "upstreamCRLs storedBlob publishing =
     bindE (getsE (\<lambda>w. (CRLChainFile (wConfig w), chainFileData (wConfig w), CACert (wCA w)))) (\<lambda>(path, file, caCert).
     if path = [] then ok ([], False)
     else case file of
       ChainFileAbsent \<Rightarrow> ok ([], False)
     | ChainFileUnreadable \<Rightarrow> chainFileFault
     | ChainFileData blob \<Rightarrow>
         bindE timeNow (\<lambda>now.
         bindE (changeCA (\<lambda>ca. ca\<lparr>crlChainLastRead := now div second\<rparr>)) (\<lambda>_.
         case decodeCRLChainStrict blob of
           Inl e \<Rightarrow> chainFileFault
         | Inr parsed \<Rightarrow>
             bindE bundleCertificates (\<lambda>issuers.
             let foreign = filter (\<lambda>crl. \<not> ownsCRL caCert crl) parsed;
                 verified = filter (signedByAny issuers) foreign in
             bindE (changeCA (\<lambda>ca. ca\<lparr>crlChainDiscarded :=
                crlChainDiscarded ca + (length foreign - length verified)\<rparr>)) (\<lambda>_.
             case monotonicUpstream caCert (Some storedBlob) issuers (dedupeCRLs issuers verified) publishing of
               Inl e \<Rightarrow> fail e
             | Inr res \<Rightarrow>
                 bindE (changeCA (\<lambda>ca. ca\<lparr>crlChainRegressed := crlChainRegressed ca + urRegressed res,
                     crlChainRemoved := crlChainRemoved ca + urRemoved res\<rparr>)) (\<lambda>_.
                 ok (urCRLs res, True)))))))"

definition crlChainLocked :: "RevocationList \<Rightarrow> CRLBlob \<Rightarrow> CRLBlob opr" where
  "crlChainLocked ourCRL storedBlob =
     bindE (getsE (\<lambda>w. (CRLChainFile (wConfig w), CACert (wCA w)))) (\<lambda>(path, caCert).
     bindE (if path \<noteq> [] then upstreamCRLs storedBlob True else ok ([], False)) (\<lambda>(upstream, stated).
     if stated then ok (encodeCRLChain (ourCRL # upstream))
     else case decodeCRLChain storedBlob of
       Inl e \<Rightarrow> fail e
     | Inr stored \<Rightarrow> ok (encodeCRLChain (ourCRL # filter (\<lambda>crl. \<not> ownsCRL caCert crl) stored))))"

section \<open>Reading the stored list\<close>

record storedCRL =
  scOwn :: RevocationList
  scBlob :: CRLBlob

definition parseStoredBlob :: "Certificate option \<Rightarrow> CRLBlob \<Rightarrow> RevocationList res" where
  "parseStoredBlob caCert blob =
     (case cbBlocks blob of
        [] \<Rightarrow> Inl (ErrOther ''failed to decode CRL PEM'')
      | b # bs \<Rightarrow>
          (case blkCRL b of
             None \<Rightarrow> Inl (ErrOther ''failed to parse CRL'')
           | Some crl \<Rightarrow>
               if \<not> ownsCRL caCert crl then Inl ErrForeignStoredCRL
               else (case selectOwnCRL blob caCert of
                       Inr (Some newest) \<Rightarrow> Inr (if newerCRL newest crl then newest else crl)
                     | _ \<Rightarrow> Inr crl)))"

definition parseStoredCRL :: "storedCRL opr" where
  "parseStoredCRL =
     bindE GetCRL (\<lambda>blob.
     bindE (getsE (\<lambda>w. CACert (wCA w))) (\<lambda>caCert.
     bindE (lift (parseStoredBlob caCert blob)) (\<lambda>crl.
     ok \<lparr>scOwn = crl, scBlob = blob\<rparr>)))"

definition countUpdateFailure :: "unit comp" where
  "countUpdateFailure = modify (updCA (crlUpdateFailures_update Suc))"

definition readStoredCRL :: "storedCRL opr" where
  "readStoredCRL = onError parseStoredCRL (\<lambda>_. countUpdateFailure)"

section \<open>Re-signing\<close>

definition signCRL :: "int \<Rightarrow> gotime \<Rightarrow> gotime \<Rightarrow> RevocationListEntry list \<Rightarrow> RevocationList opr" where
  "signCRL number this nxt revoked =
     bindE (getsE (\<lambda>w. (CACert (wCA w), CAKey (wCA w)))) (\<lambda>(caCert, caKey).
     case (caCert, caKey) of
       (Some cert, Some key) \<Rightarrow>
         externalCall (case createRevocationList number this nxt revoked cert key of
           None \<Rightarrow> Inl (ErrOther ''failed to sign CRL'') | Some crl \<Rightarrow> Inr crl)
     | _ \<Rightarrow> fail ErrNotInitialized)"

definition nextNumber :: "RevocationList \<Rightarrow> int" where
  "nextNumber own = (case rlNumber own of None \<Rightarrow> 1 | Some n \<Rightarrow> n + 1)"

text \<open>The part of signCRLLocked before the write: the new list and the chain it leads.\<close>

definition prepareCRL :: "storedCRL \<Rightarrow> RevocationListEntry list \<Rightarrow> (RevocationList \<times> CRLBlob) opr" where
  "prepareCRL prev revoked =
     bindE timeNow (\<lambda>now.
     bindE (getsE (\<lambda>w. CRLValidityDuration (wConfig w))) (\<lambda>validity.
     bindE (onError acquireSigningSlot (\<lambda>_. countUpdateFailure)) (\<lambda>_.
     bindE (onError (signCRL (nextNumber (scOwn prev)) now (now + validity) revoked) (\<lambda>_. countUpdateFailure)) (\<lambda>parsedCRL.
     bindE (onError (crlChainLocked parsedCRL (scBlob prev)) (\<lambda>e.
         if errors_is e ErrChainFileFault then modify id else countUpdateFailure)) (\<lambda>newCRLPEM.
     ok (parsedCRL, newCRLPEM))))))"

definition signCRLLocked :: "storedCRL option \<Rightarrow> RevocationListEntry list \<Rightarrow> unit opr" where
  "signCRLLocked prev revoked =
     (case prev of
        None \<Rightarrow> onError (fail (ErrOther ''re-signing the CRL without a prior read'')) (\<lambda>_. countUpdateFailure)
      | Some p \<Rightarrow>
          bindE (prepareCRL p revoked) (\<lambda>(parsedCRL, newCRLPEM).
          bindE (onError (UpdateCRL newCRLPEM) (\<lambda>_. countUpdateFailure)) (\<lambda>_.
          bindE (changeCA (installCachedCRLLocked parsedCRL)) (\<lambda>_.
          changeCA (\<lambda>ca. ca\<lparr>crlNotify := True\<rparr>)))))"

text \<open>Only a lock that could not be taken is counted here.\<close>

definition withCRLLockCounted :: "'a opr \<Rightarrow> 'a opr" where
  "withCRLLockCounted fn =
     bindE (onError (WithLock LockCRL (attempt fn)) (\<lambda>_. countUpdateFailure)) lift"

definition reissueCRLLocked :: "unit opr" where
  "reissueCRLLocked =
     bindE readStoredCRL (\<lambda>stored. signCRLLocked (Some stored) (rlEntries (scOwn stored)))"

definition ReissueCRL :: "unit opr" where
  "ReissueCRL = withCRLLockCounted (withMu reissueCRLLocked)"

definition nextUpdateOf :: "RevocationList \<Rightarrow> gotime" where
  "nextUpdateOf crl = (case rlNextUpdate crl of None \<Rightarrow> zero_time | Some t \<Rightarrow> t)"

text \<open>A list another replica signed is adopted when its number is higher.\<close>

definition adoptable :: "RevocationList \<Rightarrow> RevocationList option \<Rightarrow> bool" where
  "adoptable stored cached =
     (case rlNumber stored of
        None \<Rightarrow> False
      | Some n \<Rightarrow>
          (case cached of None \<Rightarrow> True
           | Some c \<Rightarrow> (case rlNumber c of None \<Rightarrow> True | Some m \<Rightarrow> n > m)))"

definition RefreshCRLIfDue :: "duration \<Rightarrow> bool opr" where
  "RefreshCRLIfDue refreshBefore =
     withCRLLockCounted (withMu (
       bindE readStoredCRL (\<lambda>stored.
       bindE timeNow (\<lambda>now.
       if time_sub (nextUpdateOf (scOwn stored)) now > refreshBefore then
         bindE (getsE (\<lambda>w. cachedCRL (wCA w))) (\<lambda>cached.
         if adoptable (scOwn stored) cached
         then bindE (changeCA (installCachedCRLLocked (scOwn stored))) (\<lambda>_. ok False)
         else ok False)
       else bindE (signCRLLocked (Some stored) (rlEntries (scOwn stored))) (\<lambda>_. ok True)))))"

record crlSnapshot =
  snapNumber :: "int option"
  snapNextUpdate :: "gotime option"
  snapRevoked :: nat

definition CRLSnapshot :: "crlSnapshot option opr" where
  "CRLSnapshot = withMu (getsE (\<lambda>w. map_option (\<lambda>crl.
     \<lparr>snapNumber = rlNumber crl, snapNextUpdate = rlNextUpdate crl, snapRevoked = length (rlEntries crl)\<rparr>)
     (cachedCRL (wCA w))))"

definition CachedCRLNumber :: "int option opr" where
  "CachedCRLNumber = withMu (getsE (\<lambda>w. case cachedCRL (wCA w) of None \<Rightarrow> None | Some crl \<Rightarrow> rlNumber crl))"

section \<open>Following other replicas\<close>

definition countSyncFailure :: "unit comp" where
  "countSyncFailure = modify (updCA (crlSyncFailures_update Suc))"

text \<open>The part under c.mu, on the blob read before.\<close>

definition syncFrom :: "CRLBlob \<Rightarrow> bool opr" where
  "syncFrom blob =
     bindE (getsE (\<lambda>w. (CACert (wCA w), cachedCRL (wCA w)))) (\<lambda>(caCert, cached).
     bindE (onError (lift (selectOwnCRL blob caCert)) (\<lambda>_. countSyncFailure)) (\<lambda>ours.
     case ours of
       None \<Rightarrow> onError (fail (ErrOther ''no CRL signed by this CA'')) (\<lambda>_. countSyncFailure)
     | Some crl \<Rightarrow>
         if cached = Some crl then ok False
         else if (case cached of None \<Rightarrow> False | Some c \<Rightarrow> ownsCRL caCert c \<and> \<not> newerCRL crl c) then ok False
         else bindE (changeCA (installCachedCRLLocked crl)) (\<lambda>_. ok True)))"

definition SyncCRLCache :: "bool opr" where
  "SyncCRLCache =
     bindE (onError GetCRL (\<lambda>_. countSyncFailure)) (\<lambda>blob. withMu (syncFrom blob))"

definition RefreshCRLChainFile :: "bool opr" where
  "RefreshCRLChainFile =
     bindE (getsE (\<lambda>w. (CRLChainFile (wConfig w), CACert (wCA w)))) (\<lambda>(path, caCert).
     if path = [] then ok False
     else
       bindE (onError (WithLock LockCRL (withMu (
           bindE GetCRL (\<lambda>current.
           bindE (upstreamCRLs current False) (\<lambda>(wanted, stated).
           if \<not> stated then ok (False, Inr ())
           else bindE (lift (publishedUpstream caCert (Some current))) (\<lambda>storedUpstream.
             if sameCRLSet storedUpstream wanted then ok (False, Inr ())
             else bindE (attempt reissueCRLLocked) (\<lambda>r. ok (True, r))))))))
         (\<lambda>e. if errors_is e ErrChainFileFault then modify id else countUpdateFailure)) (\<lambda>(rewritten, r).
       case r of Inl e \<Rightarrow> fail e | Inr _ \<Rightarrow> ok rewritten))"

section \<open>Steps that only count\<close>

definition caFrame :: "CA \<Rightarrow> CA \<Rightarrow> bool" where
  "caFrame ca ca' = (CACert ca' = CACert ca \<and> CAKey ca' = CAKey ca \<and> hmacKey ca' = hmacKey ca
     \<and> cachedCRL ca' = cachedCRL ca \<and> ocspCache ca' = ocspCache ca \<and> serialIndex ca' = serialIndex ca
     \<and> serialIndexEpoch ca' = serialIndexEpoch ca
     \<and> serialIndexRemovalEpoch ca' = serialIndexRemovalEpoch ca)"

definition quiet :: "world \<Rightarrow> world \<Rightarrow> bool" where
  "quiet w v = (wStore v = wStore w \<and> wConfig v = wConfig w \<and> caFrame (wCA w) (wCA v))"

lemma caFrame_refl [simp]: "caFrame ca ca"
  and caFrame_trans: "caFrame a b \<Longrightarrow> caFrame b c \<Longrightarrow> caFrame a c"
  by (simp_all add: caFrame_def)

interpretation qt: step_relation quiet
  by unfold_locales (auto simp: quiet_def sameState_def caFrame_def)

lemma quiet_changeCA: "(\<And>ca. caFrame ca (f ca)) \<Longrightarrow> state_io_rel quiet (changeCA f)"
  by (rule qt.io_changeCA) (simp add: quiet_def)

lemma quiet_count: "state_io_rel quiet countUpdateFailure" "state_io_rel quiet countSyncFailure"
    "state_io_rel quiet (modify id)"
  unfolding countUpdateFailure_def countSyncFailure_def
  by (rule qt.io_modify; simp add: quiet_def caFrame_def)+

lemma quiet_reads:
  "state_io_rel quiet GetCRL" "state_io_rel quiet GetCACert" "state_io_rel quiet GetSuperseded"
  "state_io_rel quiet (GetCert s)" "state_io_rel quiet (GetCSR s)" "state_io_rel quiet (CertExists s)"
  "state_io_rel quiet (CSRExists s)" "state_io_rel quiet ListCSRs"
  unfolding GetCRL_def GetCACert_def GetSuperseded_def GetCert_def GetCSR_def CertExists_def
    CSRExists_def ListCSRs_def
  by (rule qt.io)+

lemmas quiet_io = qt.io quiet_count quiet_reads

lemma quiet_bundle: "state_io_rel quiet bundleCertificates"
  unfolding bundleCertificates_def by (intro quiet_io)

lemma quiet_fault: "state_io_rel quiet chainFileFault"
  unfolding chainFileFault_def by (intro quiet_io quiet_changeCA) (simp add: caFrame_def)

lemma quiet_upstream: "state_io_rel quiet (upstreamCRLs blob publishing)"
  unfolding upstreamCRLs_def
  by (auto intro!: quiet_io quiet_fault quiet_bundle quiet_changeCA
      simp: Let_def caFrame_def split: chainFile.splits sum.splits)

lemma quiet_chain: "state_io_rel quiet (crlChainLocked ourCRL blob)"
  unfolding crlChainLocked_def by (auto intro!: quiet_io quiet_upstream split: sum.splits)

lemma quiet_slot: "state_io_rel quiet acquireSigningSlot"
  unfolding acquireSigningSlot_def by (auto intro!: quiet_io)

lemma quiet_signCRL: "state_io_rel quiet (signCRL n t u es)"
  unfolding signCRL_def by (auto intro!: quiet_io split: option.splits)

lemma quiet_readStored: "state_io_rel quiet readStoredCRL"
  unfolding readStoredCRL_def parseStoredCRL_def by (intro quiet_io)

lemma readStoredCRL_ok:
  assumes "run_state readStoredCRL w = (Inr p, v)"
  shows "stCRL (wStore w) = Some (scBlob p)" "parseStoredBlob (CACert (wCA w)) (scBlob p) = Inr (scOwn p)"
    "quiet w v"
proof -
  from assms have "run_state parseStoredCRL w = (Inr p, v)"
    unfolding readStoredCRL_def by (cases rule: onErrorE) simp_all
  then obtain blob u where g: "run_state GetCRL w = (Inr blob, u)"
    and r: "parseStoredBlob (CACert (wCA u)) blob = Inr (scOwn p)" "p = \<lparr>scOwn = scOwn p, scBlob = blob\<rparr>"
    unfolding parseStoredCRL_def by (elim bindE_okE) auto
  have "sameState w u" using g unfolding GetCRL_def by (rule backendRead_same)
  moreover have "optionE (stCRL (wStore w)) = Inr blob" using g unfolding GetCRL_def by (rule backendRead_ok)
  ultimately show "stCRL (wStore w) = Some (scBlob p)"
    "parseStoredBlob (CACert (wCA w)) (scBlob p) = Inr (scOwn p)"
    using r by (cases p; auto simp: sameState_def optionE_def split: option.splits)+
  show "quiet w v" by (rule state_io_relD [OF quiet_readStored assms])
qed

section \<open>What a re-sign writes\<close>

lemma upstream_foreign:
  assumes "run_state (upstreamCRLs blob publishing) w = (Inr (ups, stated), v)" "u \<in> set ups"
  shows "\<not> ownsCRL (CACert (wCA w)) u"
proof -
  let ?cert = "CACert (wCA w)"
  obtain parsed issuers res where u: "ups = urCRLs res"
    and m: "monotonicUpstream ?cert (Some blob) issuers (dedupeCRLs issuers (filter (signedByAny issuers)
        (filter (\<lambda>crl. \<not> ownsCRL ?cert crl) parsed))) publishing = Inr res"
    using assms by (auto simp: upstreamCRLs_def chainFileFault_def Let_def run_bindE timeNow_def
        split: if_splits chainFile.splits sum.splits prod.splits list.splits)
  have "u \<in> set (urCRLs res)" using assms(2) u by simp
  from m this show ?thesis
  proof (cases rule: monotonicUpstream_mem)
    case 1
    then show ?thesis using dedupeCRLs_mem by fastforce
  next
    case (2 published)
    then show ?thesis by (rule publishedUpstream_foreign)
  qed
qed

lemma crlChain_ok:
  assumes "run_state (crlChainLocked ourCRL blob) w = (Inr b, v)"
  obtains ups where "b = encodeCRLChain (ourCRL # ups)" "\<forall>u \<in> set ups. \<not> ownsCRL (CACert (wCA w)) u"
    "CRLChainFile (wConfig w) = [] \<longrightarrow> publishedUpstream (CACert (wCA w)) (Some blob) = Inr ups"
proof -
  let ?up = "if CRLChainFile (wConfig w) \<noteq> [] then upstreamCRLs blob True else ok ([], False)"
  obtain ups stated u where up: "run_state ?up w = (Inr (ups, stated), u)"
    and r: "run_state (if stated then ok (encodeCRLChain (ourCRL # ups)) else case decodeCRLChain blob of
          Inl e \<Rightarrow> fail e
        | Inr stored \<Rightarrow> ok (encodeCRLChain (ourCRL # filter (\<lambda>crl. \<not> ownsCRL (CACert (wCA w)) crl) stored))) u = (Inr b, v)"
    using assms unfolding crlChainLocked_def by (auto simp: run_bindE [of "getsE f" for f] elim!: bindE_okE)
  show ?thesis
  proof (cases stated)
    case True
    then have "CRLChainFile (wConfig w) \<noteq> []" using up by (auto split: if_splits)
    then show ?thesis using that [of ups] True r up upstream_foreign [of blob True w ups stated u] by auto
  next
    case False
    then show ?thesis using that r by (auto simp: publishedUpstream_def split: sum.splits)
  qed
qed

text \<open>A list and a chain that a re-sign from what was read can produce.\<close>

definition resigned :: "world \<Rightarrow> storedCRL \<Rightarrow> RevocationListEntry list \<Rightarrow> RevocationList \<Rightarrow> CRLBlob \<Rightarrow> bool" where
  "resigned w p revoked l b = (\<exists>c k now ups. CACert (wCA w) = Some c \<and> CAKey (wCA w) = Some k
     \<and> createRevocationList (nextNumber (scOwn p)) now (now + CRLValidityDuration (wConfig w)) revoked c k = Some l
     \<and> b = encodeCRLChain (l # ups) \<and> (\<forall>u \<in> set ups. \<not> ownsCRL (Some c) u)
     \<and> (CRLChainFile (wConfig w) = [] \<longrightarrow> publishedUpstream (Some c) (Some (scBlob p)) = Inr ups))"

lemma quiet_prepare: "state_io_rel quiet (prepareCRL p revoked)"
  unfolding prepareCRL_def
  by (auto intro!: quiet_io quiet_slot quiet_signCRL quiet_chain)

lemma onError_ok: "run_state (onError m h) w = (Inr x, v) \<longleftrightarrow> run_state m w = (Inr x, v)"
  by (auto simp: run_onError split: prod.splits sum.splits)

lemma signCRL_ok:
  assumes "run_state (signCRL n t u es) w = (Inr l, v)"
  obtains c k where "CACert (wCA w) = Some c" "CAKey (wCA w) = Some k" "createRevocationList n t u es c k = Some l"
  using assms by (auto simp: signCRL_def run_bindE split: option.splits dest!: externalCall_ok)

lemma prepare_ok:
  assumes "run_state (prepareCRL p revoked) w = (Inr (l, b), v)"
  shows "resigned w p revoked l b"
proof -
  obtain now w1 w2 w3 w4 where
      t: "run_state timeNow w = (Inr now, w1)"
    and s: "run_state acquireSigningSlot w1 = (Inr (), w2)"
    and g: "run_state (signCRL (nextNumber (scOwn p)) now (now + CRLValidityDuration (wConfig w1)) revoked) w2 = (Inr l, w3)"
    and c: "run_state (crlChainLocked l (scBlob p)) w3 = (Inr b, w4)"
    using assms unfolding prepareCRL_def by (elim bindE_okE) (auto simp: onError_ok)
  have q: "quiet w w1" "quiet w1 w2" "quiet w2 w3"
    using state_io_relD [OF qt.io_env(2) t] state_io_relD [OF quiet_slot s] state_io_relD [OF quiet_signCRL g] .
  from g obtain ct k where ck: "CACert (wCA w2) = Some ct" "CAKey (wCA w2) = Some k"
    "createRevocationList (nextNumber (scOwn p)) now (now + CRLValidityDuration (wConfig w1)) revoked ct k = Some l"
    by (rule signCRL_ok)
  from c obtain ups where "b = encodeCRLChain (l # ups)" "\<forall>u \<in> set ups. \<not> ownsCRL (CACert (wCA w3)) u"
    "CRLChainFile (wConfig w3) = [] \<longrightarrow> publishedUpstream (CACert (wCA w3)) (Some (scBlob p)) = Inr ups"
    by (rule crlChain_ok)
  then show ?thesis using ck q unfolding resigned_def quiet_def caFrame_def by auto
qed

lemma evictNewly_filter:
  "evictNewly was es ca = ca\<lparr>ocspCache := filter (\<lambda>((s, h), e).
     \<not> ocspCacheableHash h \<or> s \<in> set was
     \<or> s \<notin> (\<lambda>x. serialHexStr (rleSerialNumber x)) ` set es) (ocspCache ca)\<rparr>"
proof (induction es arbitrary: ca)
  case Nil
  then show ?case by (simp add: split_def)
next
  case (Cons x es)
  show ?case
    by (auto simp: Cons.IH evictOCSPLocked_def Let_def
        intro!: filter_cong arg_cong [of _ _ "\<lambda>c. ca\<lparr>ocspCache := c\<rparr>"])
qed

lemma install_fields:
  "installCachedCRLLocked l ca = ca\<lparr>cachedCRL := Some l, ocspCache := filter (\<lambda>((s, h), e).
     \<not> ocspCacheableHash h \<or> (\<exists>p. cachedCRL ca = Some p \<and> s \<in> (\<lambda>x. serialHexStr (rleSerialNumber x)) ` set (rlEntries p))
     \<or> s \<notin> (\<lambda>x. serialHexStr (rleSerialNumber x)) ` set (rlEntries l)) (ocspCache ca)\<rparr>"
  by (cases "cachedCRL ca")
    (simp_all add: installCachedCRLLocked_def invalidateOCSPForNewlyRevokedLocked_def evictNewly_filter)

lemma caFrame_install: "caFrame a b \<Longrightarrow> caFrame (installCachedCRLLocked l a) (installCachedCRLLocked l b)"
  by (simp add: caFrame_def install_fields)

lemma sign_cases:
  assumes run: "run_state (signCRLLocked (Some p) revoked) w = (r, v)"
  obtains (failed) e where "r = Inl e" "quiet w v"
    | (unsure) e l b where "r = Inl e" "resigned w p revoked l b" "wStore v = (wStore w)\<lparr>stCRL := Some b\<rparr>"
        "wConfig v = wConfig w" "caFrame (wCA w) (wCA v)"
    | (signed) l b where "r = Inr ()" "resigned w p revoked l b" "wStore v = (wStore w)\<lparr>stCRL := Some b\<rparr>"
        "wConfig v = wConfig w" "caFrame (installCachedCRLLocked l (wCA w)) (wCA v)"
proof -
  let ?tail = "\<lambda>(l, b). bindE (onError (UpdateCRL b) (\<lambda>_. countUpdateFailure)) (\<lambda>_.
          bindE (changeCA (installCachedCRLLocked l)) (\<lambda>_. changeCA (\<lambda>ca. ca\<lparr>crlNotify := True\<rparr>)))"
  from run have "run_state (bindE (prepareCRL p revoked) ?tail) w = (r, v)" by (simp add: signCRLLocked_def)
  then show ?thesis
  proof (cases rule: bindE_E)
    case (error e)
    then show ?thesis using failed state_io_relD [OF quiet_prepare error(1)] by blast
  next
    case (step x u)
    obtain l b where x: "x = (l, b)" by fastforce
    have q: "quiet w u" by (rule state_io_relD [OF quiet_prepare step(1)])
    have rs: "resigned w p revoked l b" using prepare_ok step(1) x by blast
    from step(2) x have "run_state (bindE (onError (UpdateCRL b) (\<lambda>_. countUpdateFailure)) (\<lambda>_.
          bindE (changeCA (installCachedCRLLocked l)) (\<lambda>_. changeCA (\<lambda>ca. ca\<lparr>crlNotify := True\<rparr>)))) u = (r, v)" by simp
    then show ?thesis
    proof (cases rule: bindE_E)
      case (error e)
      from error(1) obtain z where z: "run_state (UpdateCRL b) u = (Inl e, z)" "quiet z v"
        by (cases rule: onErrorE) (auto simp: countUpdateFailure_def quiet_def caFrame_def)
      from z(1) show ?thesis unfolding UpdateCRL_def
      proof (cases rule: backendPut_cases)
        case unchanged
        then have "quiet u z" by (auto intro: qt.same)
        then show ?thesis using failed [of e] error(2) qt.trans q z(2) by blast
      next
        case written
        then show ?thesis using unsure [of e l b] error(2) rs z(2) q unfolding quiet_def caFrame_def by simp
      qed
    next
      case inner: (step y z)
      have "run_state (UpdateCRL b) u = (Inr (), z)" using inner(1) by (simp add: onError_ok)
      then have z: "wStore z = (wStore u)\<lparr>stCRL := Some b\<rparr>" "wCA z = wCA u" "wConfig z = wConfig u"
        unfolding UpdateCRL_def using backendWrite_ok by fastforce+
      have v: "r = Inr ()" "v = updCA (\<lambda>ca. ca\<lparr>crlNotify := True\<rparr>) (updCA (installCachedCRLLocked l) z)"
        using inner(2) by (simp_all add: run_bindE)
      have "caFrame (installCachedCRLLocked l (wCA w)) (installCachedCRLLocked l (wCA u))"
        using q caFrame_install by (simp add: quiet_def)
      then have "caFrame (installCachedCRLLocked l (wCA w)) (wCA v)" using v z by (simp add: caFrame_def)
      then show ?thesis using signed [of l b] v(1) rs z q v(2) by (simp add: quiet_def)
    qed
  qed
qed

section \<open>Forwards only\<close>

definition revokedSerials :: "RevocationList \<Rightarrow> int set" where
  "revokedSerials crl = rleSerialNumber ` set (rlEntries crl)"

text \<open>The loaded key belongs to the loaded certificate.\<close>

definition keyOk :: "CA \<Rightarrow> bool" where
  "keyOk ca = (\<forall>c k. CACert ca = Some c \<longrightarrow> CAKey ca = Some k \<longrightarrow> k = certPublicKey c)"

lemma own_parse:
  assumes "parseStoredBlob cert b = Inr l"
  shows "ownsCRL cert l"
  using assms ownCRLIn_Some(2)
  by (fastforce simp: parseStoredBlob_def selectOwnCRL_def
      split: list.splits option.splits if_splits sum.splits)

lemma own_canParent: "ownsCRL (Some c) l \<Longrightarrow> canParent c KUCRLSign"
  by (simp add: ownsCRL_def crlSignedBy_def rlSignedBy_def)

lemma parse_encoded:
  assumes "ownsCRL cert l" "\<forall>u \<in> set ups. \<not> ownsCRL cert u"
  shows "parseStoredBlob cert (encodeCRLChain (l # ups)) = Inr l"
proof -
  have "selectOwnCRL (encodeCRLChain (l # ups)) cert = Inr (Some l)"
    using ownCRLIn_lead [OF assms] by (simp add: selectOwnCRL_def)
  moreover have "cbBlocks (encodeCRLChain (l # ups)) = \<lparr>blkType = crlType, blkCRL = Some l\<rparr>
      # cbBlocks (encodeCRLChain ups)" by (simp add: encodeCRLChain_def)
  ultimately show ?thesis using assms(1) crl.irrefl by (simp add: parseStoredBlob_def)
qed

lemma published_encoded:
  assumes "ownsCRL cert l" "\<forall>u \<in> set ups. \<not> ownsCRL cert u"
  shows "publishedUpstream cert (Some (encodeCRLChain (l # ups))) = Inr ups"
  using assms by (simp add: publishedUpstream_def)

lemma create_fields:
  assumes "createRevocationList n t u es c k = Some l"
  shows "rlNumber l = Some n" "revokedSerials l = rleSerialNumber ` set es" "rlSigKey l = k"
    "KUCRLSign \<in> set (certKeyUsage c)" "rlNextUpdate l = Some (trunc_sec u)" "rlThisUpdate l = trunc_sec t"
  using assms by (auto simp: createRevocationList_def revokedSerials_def image_image split: if_splits)

lemma newer_next: "rlNumber l = Some (nextNumber own) \<Longrightarrow> newerCRL l own"
  by (simp add: newerCRL_def nextNumber_def split: option.splits)

lemma resigned_forward:
  assumes "resigned w p revoked l b" "keyOk (wCA w)"
    and "parseStoredBlob (CACert (wCA w)) (scBlob p) = Inr (scOwn p)"
  shows "ownsCRL (CACert (wCA w)) l" "parseStoredBlob (CACert (wCA w)) b = Inr l" "newerCRL l (scOwn p)"
    "revokedSerials l = rleSerialNumber ` set revoked" "blkType (hd (cbBlocks b)) = crlType"
    "CRLChainFile (wConfig w) = [] \<Longrightarrow>
       publishedUpstream (CACert (wCA w)) (Some b) = publishedUpstream (CACert (wCA w)) (Some (scBlob p))"
proof -
  obtain c k now ups where r: "CACert (wCA w) = Some c" "CAKey (wCA w) = Some k"
    "createRevocationList (nextNumber (scOwn p)) now (now + CRLValidityDuration (wConfig w)) revoked c k = Some l"
    "b = encodeCRLChain (l # ups)" "\<forall>u \<in> set ups. \<not> ownsCRL (Some c) u"
    "CRLChainFile (wConfig w) = [] \<longrightarrow> publishedUpstream (Some c) (Some (scBlob p)) = Inr ups"
    using assms(1) unfolding resigned_def by blast
  have "canParent c KUCRLSign" using own_canParent own_parse [OF assms(3)] r(1) by simp
  then have own: "ownsCRL (Some c) l"
    using create_fields(3) [OF r(3)] assms(2) r(1,2)
    by (simp add: ownsCRL_def crlSignedBy_def rlSignedBy_def keyOk_def)
  then show "ownsCRL (CACert (wCA w)) l" "parseStoredBlob (CACert (wCA w)) b = Inr l"
    using r parse_encoded by simp_all
  show "newerCRL l (scOwn p)" "revokedSerials l = rleSerialNumber ` set revoked"
    using create_fields(1,2) [OF r(3)] newer_next by simp_all
  show "blkType (hd (cbBlocks b)) = crlType" using r(4) by (simp add: encodeCRLChain_def)
  show "CRLChainFile (wConfig w) = [] \<Longrightarrow>
       publishedUpstream (CACert (wCA w)) (Some b) = publishedUpstream (CACert (wCA w)) (Some (scBlob p))"
    using r own published_encoded by simp
qed

section \<open>The relation every operation respects\<close>

definition ownOf :: "Certificate option \<Rightarrow> CRLBlob option \<Rightarrow> RevocationList option" where
  "ownOf cert blob = (case blob of None \<Rightarrow> None
     | Some b \<Rightarrow> (case parseStoredBlob cert b of Inl _ \<Rightarrow> None | Inr l \<Rightarrow> Some l))"

definition storedOwn :: "world \<Rightarrow> RevocationList option" where
  "storedOwn w = ownOf (CACert (wCA w)) (stCRL (wStore w))"

definition sameId :: "world \<Rightarrow> world \<Rightarrow> bool" where
  "sameId w v = (wConfig v = wConfig w \<and> CACert (wCA v) = CACert (wCA w) \<and> CAKey (wCA v) = CAKey (wCA w)
     \<and> hmacKey (wCA v) = hmacKey (wCA w))"

text \<open>
  The stored list is untouched, or a newer one of ours that keeps every entry outside a
  set of serials allowed to be dropped, and, without a crl_chain_file, every ancestor.
\<close>

definition advanced :: "int set \<Rightarrow> world \<Rightarrow> world \<Rightarrow> bool" where
  "advanced D w v = (stCRL (wStore v) = stCRL (wStore w) \<or>
     (\<exists>l l'. storedOwn w = Some l \<and> storedOwn v = Some l' \<and> newerCRL l' l
        \<and> revokedSerials l - D \<subseteq> revokedSerials l'
        \<and> (CRLChainFile (wConfig w) = [] \<longrightarrow> publishedUpstream (CACert (wCA w)) (stCRL (wStore v))
             = publishedUpstream (CACert (wCA w)) (stCRL (wStore w)))))"

definition leadTyped :: "world \<Rightarrow> bool" where
  "leadTyped w = (\<forall>b. stCRL (wStore w) = Some b \<longrightarrow> cbBlocks b \<noteq> [] \<longrightarrow> blkType (hd (cbBlocks b)) = crlType)"

text \<open>The cached list is ours and not ahead of the stored one, entry by entry.\<close>

definition cacheOk :: "int set \<Rightarrow> world \<Rightarrow> bool" where
  "cacheOk D w = (leadTyped w \<and> (\<exists>l. storedOwn w = Some l \<and> (\<forall>k. cachedCRL (wCA w) = Some k \<longrightarrow>
     ownsCRL (CACert (wCA w)) k \<and> (k = l \<or> newerCRL l k) \<and> revokedSerials k - D \<subseteq> revokedSerials l)))"

definition cacheForward :: "int set \<Rightarrow> world \<Rightarrow> world \<Rightarrow> bool" where
  "cacheForward D w v = (\<forall>k. cachedCRL (wCA w) = Some k \<longrightarrow> (\<exists>k'. cachedCRL (wCA v) = Some k'
     \<and> (k' = k \<or> newerCRL k' k) \<and> revokedSerials k - D \<subseteq> revokedSerials k'))"

text \<open>
  No cached OCSP answer vouches for a serial on the cached list, and only answers an
  eviction can reach are cached.
\<close>

definition ocspOk :: "CA \<Rightarrow> bool" where
  "ocspOk ca = (\<forall>s h e. ((s, h), e) \<in> set (ocspCache ca) \<longrightarrow> ocspCacheableHash h
     \<and> (\<forall>crl. cachedCRL ca = Some crl \<longrightarrow> orStatus (oceResponse e) = OCSPGood
          \<longrightarrow> s \<notin> serialHexStr ` revokedSerials crl))"

definition crlStep :: "int set \<Rightarrow> world \<Rightarrow> world \<Rightarrow> bool" where
  "crlStep D w v = (sameId w v
     \<and> (keyOk (wCA w) \<longrightarrow> advanced D w v \<and> (cacheOk D w \<longrightarrow> cacheOk D v \<and> cacheForward D w v))
     \<and> (ocspOk (wCA w) \<longrightarrow> ocspOk (wCA v)))"

definition crlFrame :: "world \<Rightarrow> world \<Rightarrow> bool" where
  "crlFrame w v = (sameId w v \<and> stCRL (wStore v) = stCRL (wStore w) \<and> cachedCRL (wCA v) = cachedCRL (wCA w)
     \<and> set (ocspCache (wCA v)) \<subseteq> set (ocspCache (wCA w)))"

lemma crlFrame_step: "crlFrame w v \<Longrightarrow> crlStep D w v"
proof -
  assume f: "crlFrame w v"
  then have own: "storedOwn v = storedOwn w" and lead: "leadTyped v = leadTyped w"
    by (simp_all add: crlFrame_def sameId_def storedOwn_def leadTyped_def)
  have "ocspOk (wCA w) \<Longrightarrow> ocspOk (wCA v)" using f unfolding crlFrame_def ocspOk_def by (metis subsetD)
  moreover have "cacheOk D w \<Longrightarrow> cacheOk D v"
    using f own lead by (simp add: cacheOk_def crlFrame_def sameId_def)
  moreover have "cacheForward D w v" using f by (auto simp: cacheForward_def crlFrame_def)
  ultimately show ?thesis using f by (simp add: crlStep_def crlFrame_def advanced_def)
qed

lemma quiet_frame: "quiet w v \<Longrightarrow> crlFrame w v"
  by (simp add: quiet_def crlFrame_def caFrame_def sameId_def)

lemma quiet_step: "quiet w v \<Longrightarrow> crlStep D w v"
  by (rule crlFrame_step [OF quiet_frame])

lemma invFrame_step: "invFrame w v \<Longrightarrow> crlStep D w v"
  by (rule crlFrame_step) (simp add: invFrame_def crlFrame_def sameId_def)

lemma sameId_keyOk: "sameId w v \<Longrightarrow> keyOk (wCA v) = keyOk (wCA w)"
  by (simp add: sameId_def keyOk_def)

lemma advanced_trans: "\<lbrakk>advanced D w v; advanced D v u; sameId w v; sameId v u\<rbrakk> \<Longrightarrow> advanced D w u"
proof -
  assume a: "advanced D w v" "advanced D v u" and id: "sameId w v" "sameId v u"
  show ?thesis
  proof (cases "stCRL (wStore v) = stCRL (wStore w) \<or> stCRL (wStore u) = stCRL (wStore v)")
    case True
    moreover have "storedOwn v = storedOwn w" if "stCRL (wStore v) = stCRL (wStore w)"
      using that id by (simp add: storedOwn_def sameId_def)
    moreover have "storedOwn u = storedOwn v" if "stCRL (wStore u) = stCRL (wStore v)"
      using that id by (simp add: storedOwn_def sameId_def)
    ultimately show ?thesis using a id unfolding advanced_def sameId_def by auto
  next
    case False
    then obtain l l' l'' where l: "storedOwn w = Some l" "storedOwn v = Some l'" "storedOwn u = Some l''"
      "newerCRL l' l" "newerCRL l'' l'" "revokedSerials l - D \<subseteq> revokedSerials l'"
      "revokedSerials l' - D \<subseteq> revokedSerials l''"
      using a unfolding advanced_def by auto
    have "revokedSerials l - D \<subseteq> revokedSerials l''" using l(6,7) by blast
    moreover have "newerCRL l'' l" using newerCRL_trans l(4,5) by blast
    ultimately show ?thesis using l a id False unfolding advanced_def sameId_def by auto
  qed
qed

lemma cacheForward_trans: "\<lbrakk>cacheForward D w v; cacheForward D v u\<rbrakk> \<Longrightarrow> cacheForward D w u"
  unfolding cacheForward_def by (blast intro: newerCRL_trans)

interpretation cs: step_relation "crlStep D" for D
proof
  show "crlStep D w v" if "sameState w v" for w v
    by (rule quiet_step [OF qt.same [OF that]])
  show "crlStep D w u" if s: "crlStep D w v" "crlStep D v u" for w v u
  proof -
    have id: "sameId w v" "sameId v u" "sameId w u"
      using s by (auto simp: crlStep_def sameId_def)
    show ?thesis
      using s sameId_keyOk [OF id(1)] advanced_trans [of D w v u] cacheForward_trans [of D w v u] id
      unfolding crlStep_def by simp
  qed
qed

section \<open>Re-signing from a read\<close>

definition readOf :: "storedCRL \<Rightarrow> world \<Rightarrow> bool" where
  "readOf p w = (stCRL (wStore w) = Some (scBlob p)
     \<and> parseStoredBlob (CACert (wCA w)) (scBlob p) = Inr (scOwn p))"

text \<open>A computation that respects the relation when it starts from what was just read.\<close>

definition stepFrom :: "int set \<Rightarrow> storedCRL \<Rightarrow> 'a opr \<Rightarrow> bool" where
  "stepFrom D p m = (\<forall>w r v. readOf p w \<longrightarrow> run_state m w = (r, v) \<longrightarrow> crlStep D w v)"

lemma readOf_quiet: "quiet w v \<Longrightarrow> readOf p w \<Longrightarrow> readOf p v"
  by (simp add: readOf_def quiet_def caFrame_def)

lemma readOf_own: "readOf p w \<Longrightarrow> storedOwn w = Some (scOwn p)"
  by (simp add: readOf_def storedOwn_def ownOf_def)

lemma ocspOk_install: "ocspOk ca \<Longrightarrow> ocspOk (installCachedCRLLocked l ca)"
  by (fastforce simp: ocspOk_def install_fields revokedSerials_def image_image)

lemma ocspOk_frame: "caFrame a b \<Longrightarrow> ocspOk b = ocspOk a"
  by (simp add: caFrame_def ocspOk_def)

lemma install_id [simp]:
  "CACert (installCachedCRLLocked l ca) = CACert ca" "CAKey (installCachedCRLLocked l ca) = CAKey ca"
  "hmacKey (installCachedCRLLocked l ca) = hmacKey ca" "cachedCRL (installCachedCRLLocked l ca) = Some l"
  "serialIndex (installCachedCRLLocked l ca) = serialIndex ca"
  by (simp_all add: install_fields)

lemma cacheOk_advance:
  assumes "cacheOk D w" "storedOwn w = Some l" "storedOwn v = Some l'" "newerCRL l' l"
    and "revokedSerials l - D \<subseteq> revokedSerials l'" "leadTyped v" "sameId w v"
    and "cachedCRL (wCA v) = cachedCRL (wCA w) \<or> (cachedCRL (wCA v) = Some l' \<and> ownsCRL (CACert (wCA w)) l')"
  shows "cacheOk D v \<and> cacheForward D w v"
proof -
  have k: "ownsCRL (CACert (wCA w)) k \<and> (k = l' \<or> newerCRL l' k) \<and> revokedSerials k - D \<subseteq> revokedSerials l'"
    if "cachedCRL (wCA w) = Some k" for k
    using assms(1-5) that newerCRL_trans [of l' l k] unfolding cacheOk_def by auto
  show ?thesis
    using assms(3,6-8) k unfolding cacheOk_def cacheForward_def sameId_def
    by (cases "cachedCRL (wCA w)") auto
qed

lemma sf_sign:
  assumes "revokedSerials (scOwn p) - D \<subseteq> rleSerialNumber ` set revoked"
  shows "stepFrom D p (signCRLLocked (Some p) revoked)"
  unfolding stepFrom_def
proof (intro allI impI)
  fix w r v assume rd: "readOf p w" and run: "run_state (signCRLLocked (Some p) revoked) w = (r, v)"
  have wr: "crlStep D w v" if rs: "resigned w p revoked l b" and st: "wStore v = (wStore w)\<lparr>stCRL := Some b\<rparr>"
    and id: "sameId w v"
    and ca: "cachedCRL (wCA v) = cachedCRL (wCA w) \<or> cachedCRL (wCA v) = Some l"
    and oc: "ocspOk (wCA w) \<longrightarrow> ocspOk (wCA v)" for l b
  proof -
    have "advanced D w v \<and> (cacheOk D w \<longrightarrow> cacheOk D v \<and> cacheForward D w v)" if "keyOk (wCA w)"
    proof -
      note f = resigned_forward [OF rs that rd [unfolded readOf_def, THEN conjunct2]]
      have own: "storedOwn v = Some l" using f(2) st id by (simp add: storedOwn_def ownOf_def sameId_def)
      have sub: "revokedSerials (scOwn p) - D \<subseteq> revokedSerials l" using assms f(4) by simp
      have "publishedUpstream (CACert (wCA w)) (stCRL (wStore v)) = publishedUpstream (CACert (wCA w)) (stCRL (wStore w))"
        if "CRLChainFile (wConfig w) = []" using f(6) that st rd by (simp add: readOf_def)
      then have "advanced D w v"
        unfolding advanced_def using readOf_own [OF rd] own f(3) sub by blast
      moreover have "leadTyped v" using f(5) st by (simp add: leadTyped_def)
      ultimately show ?thesis
        using cacheOk_advance [of D w "scOwn p" v l] readOf_own [OF rd] own f(1,3) sub id ca by blast
    qed
    then show ?thesis using id oc by (simp add: crlStep_def)
  qed
  from run show "crlStep D w v"
  proof (cases rule: sign_cases)
    case (failed e)
    then show ?thesis by (simp add: quiet_step)
  next
    case (unsure e l b)
    then show ?thesis using wr [of l b] ocspOk_frame [OF unsure(5)] by (simp add: sameId_def caFrame_def)
  next
    case (signed l b)
    then show ?thesis
      using wr [of l b] ocspOk_frame [OF signed(5)] ocspOk_install by (simp add: sameId_def caFrame_def)
  qed
qed

text \<open>A re-sign that reports success has stored and cached the list it was asked for.\<close>

lemma sign_ok:
  assumes run: "run_state (signCRLLocked (Some p) revoked) w = (Inr (), v)"
    and rd: "readOf p w" and k: "keyOk (wCA w)"
  obtains l where "storedOwn v = Some l" "cachedCRL (wCA v) = Some l" "rlNumber l = Some (nextNumber (scOwn p))"
    "revokedSerials l = rleSerialNumber ` set revoked" "sameId w v"
  using run
proof (cases rule: sign_cases)
  case (signed l b)
  note f = resigned_forward [OF signed(2) k rd [unfolded readOf_def, THEN conjunct2]]
  have "rlNumber l = Some (nextNumber (scOwn p))"
    using signed(2) unfolding resigned_def by (auto dest: create_fields(1))
  moreover have "sameId w v" using signed by (simp add: sameId_def caFrame_def)
  moreover from this have "storedOwn v = Some l"
    using f(2) signed(3) by (simp add: storedOwn_def ownOf_def sameId_def)
  ultimately show ?thesis using that [of l] f(4) signed(5) by (simp add: caFrame_def)
qed simp_all

lemma sf_step: "state_io_rel (crlStep D) m \<Longrightarrow> stepFrom D p m"
  unfolding stepFrom_def by (blast dest: state_io_relD)

lemma sf_quiet:
  assumes "state_io_rel quiet q" "\<And>x. stepFrom D p (f x)"
  shows "stepFrom D p (bindE q f)"
  unfolding stepFrom_def
proof (intro allI impI)
  fix w r v assume rd: "readOf p w" and "run_state (bindE q f) w = (r, v)"
  from this(2) show "crlStep D w v"
  proof (cases rule: bindE_E)
    case (error e)
    show ?thesis by (rule quiet_step [OF state_io_relD [OF assms(1) error(1)]])
  next
    case (step x u)
    have q: "quiet w u" by (rule state_io_relD [OF assms(1) step(1)])
    have "crlStep D u v" using assms(2) readOf_quiet [OF q rd] step(2) unfolding stepFrom_def by blast
    then show ?thesis by (rule cs.trans [OF quiet_step [OF q]])
  qed
qed

lemma sf_then:
  assumes "stepFrom D p m" "\<And>x. state_io_rel (crlStep D) (f x)"
  shows "stepFrom D p (bindE m f)"
  unfolding stepFrom_def
proof (intro allI impI)
  fix w r v assume rd: "readOf p w" and "run_state (bindE m f) w = (r, v)"
  from this(2) show "crlStep D w v"
  proof (cases rule: bindE_E)
    case (error e)
    then show ?thesis using assms(1) rd unfolding stepFrom_def by blast
  next
    case (step x u)
    then have "crlStep D w u" using assms(1) rd unfolding stepFrom_def by blast
    then show ?thesis by (rule cs.trans [OF _ state_io_relD [OF assms(2) step(2)]])
  qed
qed

lemma sf_read:
  assumes "\<And>p. stepFrom D p (f p)"
  shows "state_io_rel (crlStep D) (bindE readStoredCRL f)"
proof
  fix r w v assume "run_state (bindE readStoredCRL f) w = (r, v)"
  then show "crlStep D w v"
  proof (cases rule: bindE_E)
    case (error e)
    show ?thesis by (rule quiet_step [OF state_io_relD [OF quiet_readStored error(1)]])
  next
    case (step p u)
    have q: "quiet w u" and rd: "readOf p w"
      using readStoredCRL_ok [OF step(1)] by (simp_all add: readOf_def)
    have "crlStep D u v" using assms readOf_quiet [OF q rd] step(2) unfolding stepFrom_def by blast
    then show ?thesis by (rule cs.trans [OF quiet_step [OF q]])
  qed
qed

lemma quiet_is_step: "state_io_rel quiet m \<Longrightarrow> state_io_rel (crlStep D) m"
  by (blast intro: quiet_step dest: state_io_relD)

lemma inv_is_step: "state_io_rel invFrame m \<Longrightarrow> state_io_rel (crlStep D) m"
  by (blast intro: invFrame_step dest: state_io_relD)

lemma step_counted: "state_io_rel (crlStep D) fn \<Longrightarrow> state_io_rel (crlStep D) (withCRLLockCounted fn)"
  unfolding withCRLLockCounted_def by (intro cs.io quiet_is_step [OF quiet_count(1)])

section \<open>The operations respect it\<close>

lemma own_of_read: "readOf p w \<Longrightarrow> ownsCRL (CACert (wCA w)) (scOwn p)"
  by (auto simp: readOf_def dest: own_parse)

lemma install_step:
  assumes "ownsCRL (CACert (wCA w)) l" "cacheOk D w \<longrightarrow> storedOwn w = Some l"
  shows "crlStep D w (updCA (installCachedCRLLocked l) w)"
proof -
  have "storedOwn (updCA (installCachedCRLLocked l) w) = storedOwn w"
    and "leadTyped (updCA (installCachedCRLLocked l) w) = leadTyped w"
    by (simp_all add: storedOwn_def leadTyped_def)
  then have "cacheOk D w \<longrightarrow> cacheOk D (updCA (installCachedCRLLocked l) w)
      \<and> cacheForward D w (updCA (installCachedCRLLocked l) w)"
    using assms by (auto simp: cacheOk_def cacheForward_def)
  then show ?thesis by (simp add: crlStep_def sameId_def advanced_def ocspOk_install)
qed

lemma sf_adopt: "stepFrom D p (changeCA (installCachedCRLLocked (scOwn p)))"
  unfolding stepFrom_def using install_step own_of_read readOf_own by simp

lemma sf_same_entries: "stepFrom D p (signCRLLocked (Some p) (rlEntries (scOwn p)))"
  by (rule sf_sign) (auto simp: revokedSerials_def)

lemma step_reissueLocked: "state_io_rel (crlStep D) reissueCRLLocked"
  unfolding reissueCRLLocked_def by (intro sf_read sf_same_entries)

lemma step_ReissueCRL: "state_io_rel (crlStep D) ReissueCRL"
  unfolding ReissueCRL_def by (intro step_counted cs.io step_reissueLocked)

lemma step_RefreshCRLIfDue: "state_io_rel (crlStep D) (RefreshCRLIfDue d)"
proof -
  have adopt: "stepFrom D p (if b then bindE (changeCA (installCachedCRLLocked (scOwn p))) (\<lambda>_. ok False)
      else ok False)" for p b
    by (auto intro: sf_then [OF sf_adopt] cs.io sf_step)
  have sign: "stepFrom D p (bindE (signCRLLocked (Some p) (rlEntries (scOwn p))) (\<lambda>_. ok True))" for p
    by (intro sf_then [OF sf_same_entries] cs.io)
  show ?thesis
    unfolding RefreshCRLIfDue_def
    by (intro step_counted cs.io_withMu sf_read sf_quiet [OF qt.io_env(2)])
      (auto intro!: sf_quiet [OF qt.io_pure(5)] adopt sign)
qed

lemma lead_select:
  assumes "leadTyped w" "stCRL (wStore w) = Some b" "storedOwn w = Some l"
    and "selectOwnCRL b (CACert (wCA w)) = Inr (Some x)"
  shows "x = l"
proof -
  let ?c = "CACert (wCA w)"
  obtain blk bs y where b: "cbBlocks b = blk # bs" "blkCRL blk = Some y" "ownsCRL ?c y"
    using assms(2,3) by (auto simp: storedOwn_def ownOf_def parseStoredBlob_def
        split: list.splits option.splits sum.splits if_splits)
  obtain chain where ch: "decodeCRLChain b = Inr chain" "ownCRLIn chain ?c = Some x"
    using assms(4) by (auto simp: selectOwnCRL_def split: sum.splits)
  have "blkType blk = crlType" using assms(1,2) b(1) by (simp add: leadTyped_def)
  then obtain rest where "chain = y # rest" using decode_lead [OF ch(1) b(1) _ b(2)] by blast
  then have "pickNewest newerCRL (Some y) (filter (ownsCRL ?c) rest) = Some x"
    using ch(2) b(3) by (simp add: ownCRLIn_pick)
  then have "x = y \<or> newerCRL x y" by (rule crl.pick_first)
  then show ?thesis
    using assms(2-4) b crl.irrefl by (auto simp: storedOwn_def ownOf_def parseStoredBlob_def)
qed

lemma syncFrom_cases:
  assumes "run_state (syncFrom blob) w = (r, v)"
  obtains (kept) "quiet w v" "r \<noteq> Inr True"
    | (installed) crl where "selectOwnCRL blob (CACert (wCA w)) = Inr (Some crl)" "r = Inr True"
        "v = updCA (installCachedCRLLocked crl) w"
  using assms
  by (auto simp: syncFrom_def run_bindE run_onError countSyncFailure_def quiet_def caFrame_def
      split: sum.splits option.splits if_splits)

lemma selectOwn_owns: "selectOwnCRL b cert = Inr (Some x) \<Longrightarrow> ownsCRL cert x"
  by (auto simp: selectOwnCRL_def ownCRLIn_Some split: sum.splits)

lemma step_SyncCRLCache: "state_io_rel (crlStep D) SyncCRLCache"
proof
  fix r w v assume "run_state SyncCRLCache w = (r, v)"
  then show "crlStep D w v" unfolding SyncCRLCache_def
  proof (cases rule: bindE_E)
    case (error e)
    have "state_io_rel quiet (onError GetCRL (\<lambda>_. countSyncFailure))" by (intro quiet_io)
    then show ?thesis using error(1) by (blast intro: quiet_step dest: state_io_relD)
  next
    case (step blob u)
    have g: "run_state GetCRL w = (Inr blob, u)" using step(1) by (simp add: onError_ok)
    then have st: "stCRL (wStore w) = Some blob" and su: "sameState w u"
      unfolding GetCRL_def using backendRead_ok backendRead_same
      by (force simp: optionE_def split: option.splits)+
    from step(2) obtain x y where xy: "sameState u x" "run_state (syncFrom blob) x = (r, y)" "sameState y v"
      by (rule withMu_cases)
    have sx: "sameState w x" using sameState_trans su xy(1) .
    from xy(2) have "crlStep D x y"
    proof (cases rule: syncFrom_cases)
      case kept
      then show ?thesis by (simp add: quiet_step)
    next
      case (installed crl)
      have "storedOwn x = Some crl" if "cacheOk D x"
        using that lead_select [OF _ _ _ installed(1)] st sx by (auto simp: cacheOk_def sameState_def)
      then show ?thesis using install_step [OF selectOwn_owns [OF installed(1)]] installed(3) by blast
    qed
    then show ?thesis by (rule cs.trans [OF cs.same [OF sx] cs.trans [OF _ cs.same [OF xy(3)]]])
  qed
qed

text \<open>After a successful sync the cached list is the stored one.\<close>

lemma syncFrom_fresh:
  assumes run: "run_state (syncFrom blob) w = (Inr b, v)" and ok: "cacheOk D w" "stCRL (wStore w) = Some blob"
  shows "cachedCRL (wCA v) = storedOwn w"
proof -
  obtain l where l: "leadTyped w" "storedOwn w = Some l"
    "\<forall>k. cachedCRL (wCA w) = Some k \<longrightarrow> ownsCRL (CACert (wCA w)) k \<and> (k = l \<or> newerCRL l k)"
    using ok(1) by (auto simp: cacheOk_def)
  obtain crl where crl: "selectOwnCRL blob (CACert (wCA w)) = Inr (Some crl)"
    using run by (auto simp: syncFrom_def run_bindE run_onError split: sum.splits option.splits)
  have "crl = l" using lead_select [OF l(1) ok(2) l(2) crl] .
  then show ?thesis using run crl l
    by (auto simp: syncFrom_def run_bindE run_onError install_fields split: if_splits option.splits)
qed

lemma SyncCRLCache_fresh:
  assumes run: "run_state SyncCRLCache w = (Inr b, v)" and ok: "cacheOk D w"
  shows "cachedCRL (wCA v) = storedOwn w"
proof -
  from run obtain blob u where g: "run_state GetCRL w = (Inr blob, u)"
    and s: "run_state (withMu (syncFrom blob)) u = (Inr b, v)"
    unfolding SyncCRLCache_def by (auto elim!: bindE_okE simp: onError_ok)
  then have st: "stCRL (wStore w) = Some blob" and su: "sameState w u"
    unfolding GetCRL_def using backendRead_ok backendRead_same
    by (force simp: optionE_def split: option.splits)+
  from s obtain x y where xy: "sameState u x" "run_state (syncFrom blob) x = (Inr b, y)" "sameState y v"
    by (rule withMu_cases)
  have "sameState w x" using sameState_trans su xy(1) .
  then have "cacheOk D x" "stCRL (wStore x) = Some blob" "storedOwn x = storedOwn w"
    using ok st by (simp_all add: sameState_def cacheOk_def leadTyped_def storedOwn_def)
  then show ?thesis using syncFrom_fresh [OF xy(2)] xy(3) by (simp add: sameState_def)
qed

lemma step_RefreshCRLChainFile: "state_io_rel (crlStep D) RefreshCRLChainFile"
  unfolding RefreshCRLChainFile_def
  by (auto intro!: cs.io quiet_is_step [OF quiet_upstream] quiet_is_step [OF quiet_reads(1)]
      quiet_is_step [OF quiet_count(1)] quiet_is_step [OF quiet_count(3)] step_reissueLocked split: sum.splits)

section \<open>Signing without faults\<close>

text \<open>What a re-sign needs beside a backend that answers.\<close>

definition canSignCRL :: "world \<Rightarrow> bool" where
  "canSignCRL w = (faultless w \<and> (\<exists>c b l chain. CACert (wCA w) = Some c \<and> CAKey (wCA w) = Some (certPublicKey c)
     \<and> KUCRLSign \<in> set (certKeyUsage c) \<and> certSubjectKeyId c \<noteq> None
     \<and> stCRL (wStore w) = Some b \<and> parseStoredBlob (Some c) b = Inr l \<and> decodeCRLChain b = Inr chain
     \<and> \<bar>nextNumber l\<bar> < 2 ^ 159)
     \<and> 0 \<le> CRLValidityDuration (wConfig w) \<and> CRLChainFile (wConfig w) = [])"

lemma canSign_same: "sameState w v \<Longrightarrow> faultless v = faultless w \<Longrightarrow> canSignCRL v = canSignCRL w"
  by (simp add: canSignCRL_def sameState_def)

lemma canSign_keyOk: "canSignCRL w \<Longrightarrow> keyOk (wCA w)"
  by (auto simp: canSignCRL_def keyOk_def)

lemma live_readStored:
  assumes "canSignCRL w"
  obtains p where "run_state readStoredCRL w = (Inr p, w)" "readOf p w"
proof -
  from assms obtain c b l where c: "faultless w" "CACert (wCA w) = Some c" "stCRL (wStore w) = Some b"
    "parseStoredBlob (Some c) b = Inr l" by (auto simp: canSignCRL_def)
  then have "run_state readStoredCRL w = (Inr \<lparr>scOwn = l, scBlob = b\<rparr>, w)"
    by (simp add: readStoredCRL_def parseStoredCRL_def GetCRL_def run_onError run_bindE live optionE_def)
  then show ?thesis using that [of "\<lparr>scOwn = l, scBlob = b\<rparr>"] c by (simp add: readOf_def)
qed

lemma live_slot: "faultless w \<Longrightarrow> run_state acquireSigningSlot w = (Inr (), w)"
  by (simp add: acquireSigningSlot_def run_bindE live)

lemma live_signCRL:
  assumes "canSignCRL w" "readOf p w"
  obtains v where "run_state (signCRLLocked (Some p) revoked) w = (Inr (), v)" "faultless v" "wConfig v = wConfig w"
proof -
  from assms obtain c chain where c: "faultless w" "CACert (wCA w) = Some c" "CAKey (wCA w) = Some (certPublicKey c)"
    "KUCRLSign \<in> set (certKeyUsage c)" "certSubjectKeyId c \<noteq> None" "decodeCRLChain (scBlob p) = Inr chain"
    "\<bar>nextNumber (scOwn p)\<bar> < 2 ^ 159" "0 \<le> CRLValidityDuration (wConfig w)" "CRLChainFile (wConfig w) = []"
    by (auto simp: canSignCRL_def readOf_def)
  obtain u where u: "run_state timeNow w = (Inr (clockOf w), u)" "sameState w u" "faultless u"
    using live_time [of w] c(1) by metis
  have f: "wConfig u = wConfig w" "wCA u = wCA w" using u(2) by (simp_all add: sameState_def)
  obtain l where l: "createRevocationList (nextNumber (scOwn p)) (clockOf w) (clockOf w + CRLValidityDuration (wConfig w))
      revoked c (certPublicKey c) = Some l" using c(4,5,7,8) by (simp add: createRevocationList_def)
  have "run_state (prepareCRL p revoked) w
      = (Inr (l, encodeCRLChain (l # filter (\<lambda>crl. \<not> ownsCRL (Some c) crl) chain)), u)"
    unfolding prepareCRL_def
    using u(1,3) f c(2,3,6,9) l
    by (simp add: run_bindE run_onError live_slot signCRL_def live_external crlChainLocked_def)
  then show ?thesis
    using that u(3) f by (simp add: signCRLLocked_def run_bindE run_onError UpdateCRL_def live_write)
qed

section \<open>The sample\<close>

lemma sampleWith_own: "storedOwn (sampleWith n ss) = Some (sampleCRL n ss)"
  by (simp add: storedOwn_def ownOf_def sampleWith_def sampleCA_def parse_encoded)

lemma sampleWith_ok: "keyOk (wCA (sampleWith n ss))" "cacheOk D (sampleWith n ss)" "faultless (sampleWith n ss)"
proof -
  have "leadTyped (sampleWith n ss)" by (simp add: leadTyped_def sampleWith_def encodeCRLChain_def)
  then show "cacheOk D (sampleWith n ss)"
    by (simp add: cacheOk_def sampleWith_own) (simp add: sampleWith_def sampleCA_def)
  show "keyOk (wCA (sampleWith n ss))" by (simp add: keyOk_def sampleWith_def sampleCA_def)
  show "faultless (sampleWith n ss)" by (simp add: faultless_def sampleWith_def sampleEnv_def)
qed

lemma sampleWith_canSign: "canSignCRL (sampleWith n ss)" if "n < 1000"
proof -
  have "\<bar>nextNumber (sampleCRL n ss)\<bar> < 2 ^ 159"
  proof -
    have "\<bar>nextNumber (sampleCRL n ss)\<bar> \<le> 1000" using that by (simp add: nextNumber_def sampleCRL_def)
    then show ?thesis by (rule order_le_less_trans) simp
  qed
  moreover have "0 \<le> CRLValidityDuration sampleConfig"
    by (simp add: CRLValidityDuration_def sampleConfig_def daysDuration_def wrap64_def hour_def second_def)
  ultimately show ?thesis
    using sampleWith_ok(3) [of n ss]
    by (simp add: canSignCRL_def) (simp add: sampleWith_def sampleCA_def sampleConfig_def parse_encoded)
qed

text \<open>A validity in days is a product in int64, and more days than a duration can hold wrap around.\<close>

lemma long_validity_wraps: "0 < daysDuration 106751" "daysDuration 106752 < 0"
  by (simp_all add: daysDuration_def wrap64_def hour_def second_def)

end
