(* ===== verification/Revoke.thy ===== *)
theory Revoke
  imports Crl
begin

text \<open>
  Revocation (internal/ca/revoke.go) with the pending-supersession list it consults
  (the reads and writes of internal/ca/supersede.go and
  retireSupersededForSubjectLocked).  A revocation appends one entry to the stored list
  and re-signs it; revoking a subject first retires the certificates a renewal has
  already scheduled.  Lemmas: a revocation that reports success has its serial on the
  stored list, nothing else leaves it, and an entry of the pending list is removed only
  when its serial is revoked.
\<close>

section \<open>Revocation status\<close>

definition serialInCRL :: "RevocationList \<Rightarrow> int \<Rightarrow> bool" where
  "serialInCRL crl serial = list_ex (\<lambda>entry. rleSerialNumber entry = serial) (rlEntries crl)"

definition IsRevokedSerial :: "int \<Rightarrow> bool opr" where
  "IsRevokedSerial serial =
     withMu (bindE (getsE (\<lambda>w. cachedCRL (wCA w))) (\<lambda>crl.
       case crl of None \<Rightarrow> fail (ErrOther ''CRL not loaded'') | Some l \<Rightarrow> ok (serialInCRL l serial)))"

text \<open>Display only: an unreadable certificate or a missing list answers no.\<close>

definition IsRevoked :: "string \<Rightarrow> bool opr" where
  "IsRevoked subject =
     bindE (attempt (GetCert subject)) (\<lambda>r.
     case r of
       Inr (PEM cert) \<Rightarrow>
         bindE (withMu (getsE (\<lambda>w. cachedCRL (wCA w)))) (\<lambda>crl.
         case crl of None \<Rightarrow> ok False | Some l \<Rightarrow> ok (serialInCRL l (certSerialNumber cert)))
     | _ \<Rightarrow> ok False)"

definition storedCertSerial :: "string \<Rightarrow> string opr" where
  "storedCertSerial subject =
     bindE (GetCert subject) (\<lambda>p.
     case p of
       NotPEM \<Rightarrow> fail (ErrOther ''stored certificate is not valid PEM'')
     | BadDER \<Rightarrow> fail (ErrOther ''parsing stored certificate'')
     | PEM cert \<Rightarrow> ok (serialHexStr (certSerialNumber cert)))"

definition findSerialForSubject :: "string \<Rightarrow> string opr" where
  "findSerialForSubject subject = LatestSerialForSubject subject"

section \<open>Revoking a serial\<close>

definition markCertRevokedIndex :: "string \<Rightarrow> gotime \<Rightarrow> unit opr" where
  "markCertRevokedIndex serialStr at = bindE (attempt (MarkCertRevoked serialStr at)) (\<lambda>_. ok ())"

definition revokeSerialLocked :: "string \<Rightarrow> unit opr" where
  "revokeSerialLocked serialStr =
     (case set_string16 serialStr of
        None \<Rightarrow> onError (fail (ErrOther ''malformed serial'')) (\<lambda>_. countUpdateFailure)
      | Some serialInt \<Rightarrow>
          bindE readStoredCRL (\<lambda>stored.
          case find (\<lambda>entry. rleSerialNumber entry = serialInt) (rlEntries (scOwn stored)) of
            Some entry \<Rightarrow> markCertRevokedIndex serialStr (rleRevocationTime entry)
          | None \<Rightarrow>
              bindE timeNow (\<lambda>now.
              bindE (signCRLLocked (Some stored) (rlEntries (scOwn stored)
                  @ [\<lparr>rleSerialNumber = serialInt, rleRevocationTime = now\<rparr>])) (\<lambda>_.
              bindE (markCertRevokedIndex serialStr now) (\<lambda>_.
              changeCA (evictOCSPLocked (serialHexStr serialInt)))))))"

section \<open>The pending list\<close>

definition countSupersedeFailure :: "unit opr" where
  "countSupersedeFailure = changeCA (supersedeFailures_update Suc)"

definition loadSuperseded :: "supersededBlob opr" where
  "loadSuperseded =
     bindE (attempt GetSuperseded) (\<lambda>r.
     case r of
       Inr b \<Rightarrow> ok b
     | Inl ErrNotExist \<Rightarrow> ok \<lparr>sbEntries = [], sbCorrupt = False\<rparr>
     | Inl _ \<Rightarrow> fail (ErrOther ''reading pending certificate revocations''))"

definition parseSuperseded :: "supersededBlob \<Rightarrow> supersededEntry list \<times> bool" where
  "parseSuperseded b = (sbEntries b, sbCorrupt b)"

text \<open>The entries that decoded, and whether the bytes were unusable.\<close>

definition readSuperseded :: "(supersededEntry list \<times> bool) opr" where
  "readSuperseded =
     bindE loadSuperseded (\<lambda>data.
     let (entries, corrupt) = parseSuperseded data in
     if corrupt then bindE countSupersedeFailure (\<lambda>_. ok (entries, True)) else ok (entries, False))"

definition writeSuperseded :: "supersededEntry list \<Rightarrow> unit opr" where
  "writeSuperseded entries =
     bindE (attempt (SaveSuperseded \<lparr>sbEntries = entries, sbCorrupt = False\<rparr>)) (\<lambda>r.
     case r of Inr _ \<Rightarrow> ok () | Inl _ \<Rightarrow> fail (ErrOther ''saving pending certificate revocations''))"

definition PendingSupersessions :: "nat opr" where
  "PendingSupersessions = bindE loadSuperseded (\<lambda>data. ok (length (fst (parseSuperseded data))))"

text \<open>The entries whose revocation failed.\<close>

fun retireEach :: "supersededEntry list \<Rightarrow> supersededEntry list opr" where
  "retireEach [] = ok []"
| "retireEach (e # es) =
     bindE (attempt (revokeSerialLocked (seSerial e))) (\<lambda>r.
     bindE (retireEach es) (\<lambda>failed.
     ok (case r of Inl _ \<Rightarrow> e # failed | Inr _ \<Rightarrow> failed)))"

definition retireSupersededForSubjectLocked :: "string \<Rightarrow> unit opr" where
  "retireSupersededForSubjectLocked subject =
     bindE (attempt readSuperseded) (\<lambda>r.
     case r of
       Inl _ \<Rightarrow> countSupersedeFailure
     | Inr (entries, _) \<Rightarrow>
         let mine = filter (\<lambda>e. seSubject e = subject) entries;
             kept = filter (\<lambda>e. seSubject e \<noteq> subject) entries in
         if mine = [] then ok ()
         else
           bindE (retireEach mine) (\<lambda>failed.
           bindE (if failed \<noteq> [] then countSupersedeFailure else ok ()) (\<lambda>_.
           bindE (attempt (writeSuperseded (kept @ failed))) (\<lambda>w.
           case w of Inl _ \<Rightarrow> countSupersedeFailure | Inr _ \<Rightarrow> ok ()))))"

section \<open>Revoking a subject\<close>

definition revokeLocked :: "string \<Rightarrow> unit opr" where
  "revokeLocked subject =
     bindE (retireSupersededForSubjectLocked subject) (\<lambda>_.
     bindE (attempt (findSerialForSubject subject)) (\<lambda>r.
     case r of
       Inl e \<Rightarrow>
         if errors_is e ErrNotExist then fail ErrSubjectUnknown
         else onError (fail e) (\<lambda>_. countUpdateFailure)
     | Inr serialStr \<Rightarrow> revokeSerialLocked serialStr))"

definition Revoke :: "string \<Rightarrow> unit opr" where
  "Revoke subject =
     bindE (lift (ValidateSubject subject)) (\<lambda>_.
     WithLock (LockSubject subject) (withCRLLockCounted (withMu (revokeLocked subject))))"

definition revokeSerialCheckedLocked :: "string \<Rightarrow> bool \<Rightarrow> unit opr" where
  "revokeSerialCheckedLocked serial force =
     bindE (attempt (SubjectForSerial serial)) (\<lambda>r.
     case r of
       Inl e \<Rightarrow>
         if errors_is e ErrNotExist then fail ErrSerialUnknown
         else onError (fail e) (\<lambda>_. countUpdateFailure)
     | Inr subject \<Rightarrow>
         bindE (attempt (storedCertSerial subject)) (\<lambda>live.
         case live of
           Inl e \<Rightarrow>
             if \<not> errors_is e ErrNotExist \<and> \<not> force then fail ErrSerialStateUnknown
             else revokeSerialLocked serial
         | Inr l \<Rightarrow>
             if l = serial \<and> \<not> force then fail ErrSerialIsCurrent
             else revokeSerialLocked serial))"

definition RevokeSerial :: "string \<Rightarrow> bool \<Rightarrow> unit opr" where
  "RevokeSerial serial force =
     bindE (lift (NormaliseSerial serial)) (\<lambda>normalised.
     withCRLLockCounted (withMu (revokeSerialCheckedLocked normalised force)))"

section \<open>The operations move the list forwards\<close>

lemma mem_revoked: "serialInCRL l n \<longleftrightarrow> n \<in> revokedSerials l"
  by (auto simp: serialInCRL_def revokedSerials_def list_ex_iff)

lemma find_revoked: "find (\<lambda>e. rleSerialNumber e = n) (rlEntries l) = None \<longleftrightarrow> n \<notin> revokedSerials l"
  by (auto simp: find_None_iff revokedSerials_def)

lemma inv_markIndex: "state_io_rel invFrame (markCertRevokedIndex s t)"
  unfolding markCertRevokedIndex_def by (intro inv.io inv_mark)

lemma step_evict: "state_io_rel (crlStep D) (changeCA (evictOCSPLocked s))"
  by (rule cs.io_changeCA, rule crlFrame_step) (auto simp: crlFrame_def sameId_def evictOCSPLocked_def)

lemma step_revokeSerialLocked: "state_io_rel (crlStep D) (revokeSerialLocked s)"
proof -
  have sign: "stepFrom D p (signCRLLocked (Some p) (rlEntries (scOwn p) @ es))" for p es
    by (rule sf_sign) (auto simp: revokedSerials_def)
  have rest: "state_io_rel (crlStep D) (bindE (markCertRevokedIndex s now) (\<lambda>_. changeCA (evictOCSPLocked k)))" for now k
    by (intro cs.io inv_is_step [OF inv_markIndex] step_evict)
  have mark: "stepFrom D p (markCertRevokedIndex s t)" for p t
    by (rule sf_step [OF inv_is_step [OF inv_markIndex]])
  show ?thesis
    unfolding revokeSerialLocked_def
    by (auto intro!: sf_read sf_quiet [OF qt.io_env(2)] sf_then [OF sign] rest mark
        cs.io quiet_is_step [OF quiet_count(1)] split: option.splits)
qed

lemma quiet_supersedeCount: "state_io_rel quiet countSupersedeFailure"
  unfolding countSupersedeFailure_def by (rule quiet_changeCA) (simp add: caFrame_def)

lemma count_if: "\<exists>v. run_state (if b then countSupersedeFailure else ok ()) w = (Inr (), v)"
  by (cases b) (simp_all add: countSupersedeFailure_def)

lemma quiet_load: "state_io_rel quiet loadSuperseded"
  unfolding loadSuperseded_def by (auto intro!: quiet_io split: sum.splits err.splits)

lemma quiet_readSuperseded: "state_io_rel quiet readSuperseded"
  unfolding readSuperseded_def
  by (auto intro!: quiet_io quiet_load quiet_supersedeCount simp: parseSuperseded_def)

lemma step_save: "state_io_rel (crlStep D) (SaveSuperseded b)"
  unfolding SaveSuperseded_def
  by (rule cs.io_backendWrite, rule crlFrame_step) (auto simp: crlFrame_def sameId_def)

lemma step_writeSuperseded: "state_io_rel (crlStep D) (writeSuperseded es)"
  unfolding writeSuperseded_def by (auto intro!: cs.io step_save split: sum.splits)

lemma step_retireEach: "state_io_rel (crlStep D) (retireEach es)"
  by (induction es) (auto intro!: cs.io step_revokeSerialLocked)

lemma step_retire: "state_io_rel (crlStep D) (retireSupersededForSubjectLocked subject)"
  unfolding retireSupersededForSubjectLocked_def
  by (auto intro!: cs.io quiet_is_step [OF quiet_readSuperseded] quiet_is_step [OF quiet_supersedeCount]
      step_retireEach step_writeSuperseded simp: Let_def split: sum.splits)

lemma inv_latest: "state_io_rel invFrame (LatestSerialForSubject subject)"
  unfolding LatestSerialForSubject_def ReadInventory_def
  by (auto intro!: inv_io inv_verifyIfKeyed)

lemma inv_subjectFor: "state_io_rel invFrame (SubjectForSerial serial)"
  unfolding SubjectForSerial_def inventoryEntriesLocked_def
  by (auto intro!: inv_io inv_verifyIfKeyed)

lemma step_revokeLocked: "state_io_rel (crlStep D) (revokeLocked subject)"
  unfolding revokeLocked_def findSerialForSubject_def
  by (auto intro!: cs.io step_retire inv_is_step [OF inv_latest] quiet_is_step [OF quiet_count(1)]
      step_revokeSerialLocked split: sum.splits)

lemma step_Revoke: "state_io_rel (crlStep D) (Revoke subject)"
  unfolding Revoke_def by (intro cs.io step_counted step_revokeLocked)

lemma quiet_storedCertSerial: "state_io_rel quiet (storedCertSerial subject)"
  unfolding storedCertSerial_def by (auto intro!: quiet_io split: pem.splits)

lemma step_RevokeSerial: "state_io_rel (crlStep D) (RevokeSerial serial force)"
  unfolding RevokeSerial_def revokeSerialCheckedLocked_def
  by (auto intro!: cs.io step_counted inv_is_step [OF inv_subjectFor] quiet_is_step [OF quiet_storedCertSerial]
      quiet_is_step [OF quiet_count(1)] step_revokeSerialLocked split: sum.splits)

section \<open>A revocation that succeeds\<close>

definition onList :: "world \<Rightarrow> int \<Rightarrow> bool" where
  "onList w n = (\<exists>l. storedOwn w = Some l \<and> n \<in> revokedSerials l)"

lemma onList_mono:
  assumes "crlStep {} w v" "keyOk (wCA w)" "onList w n"
  shows "onList v n"
proof -
  have id: "sameId w v" and adv: "advanced {} w v" using assms by (simp_all add: crlStep_def)
  show ?thesis
  proof (cases "stCRL (wStore v) = stCRL (wStore w)")
    case True
    then have "storedOwn v = storedOwn w" using id by (simp add: storedOwn_def sameId_def)
    then show ?thesis using assms(3) by (simp add: onList_def)
  next
    case False
    then show ?thesis using adv assms(3) unfolding advanced_def onList_def by auto
  qed
qed

lemma keyOk_step: "crlStep D w v \<Longrightarrow> keyOk (wCA w) \<Longrightarrow> keyOk (wCA v)"
  by (auto simp: crlStep_def dest: sameId_keyOk)

lemma onList_frame:
  "\<lbrakk>invFrame w v; onList w n\<rbrakk> \<Longrightarrow> onList v n"
  by (simp add: onList_def storedOwn_def invFrame_def)

lemma revokeSerialLocked_ok:
  assumes run: "run_state (revokeSerialLocked s) w = (Inr (), v)" and k: "keyOk (wCA w)"
  obtains n where "set_string16 s = Some n" "onList v n"
    "\<not> onList w n \<longrightarrow> cachedCRL (wCA v) = storedOwn v \<and> (\<forall>h e. ((serialHexStr n, h), e) \<in> set (ocspCache (wCA v)) \<longrightarrow> \<not> ocspCacheableHash h)"
proof -
  obtain n where n: "set_string16 s = Some n"
    using run by (cases "set_string16 s") (auto simp: revokeSerialLocked_def run_onError)
  let ?rest = "\<lambda>stored. case find (\<lambda>e. rleSerialNumber e = n) (rlEntries (scOwn stored)) of
      Some entry \<Rightarrow> markCertRevokedIndex s (rleRevocationTime entry)
    | None \<Rightarrow> bindE timeNow (\<lambda>now. bindE (signCRLLocked (Some stored) (rlEntries (scOwn stored)
        @ [\<lparr>rleSerialNumber = n, rleRevocationTime = now\<rparr>])) (\<lambda>_. bindE (markCertRevokedIndex s now)
          (\<lambda>_. changeCA (evictOCSPLocked (serialHexStr n)))))"
  from run n have "run_state (bindE readStoredCRL ?rest) w = (Inr (), v)" by (simp add: revokeSerialLocked_def)
  then obtain p u where rd: "run_state readStoredCRL w = (Inr p, u)" and r: "run_state (?rest p) u = (Inr (), v)"
    by (rule bindE_okE)
  have q: "quiet w u" and pw: "readOf p w" using readStoredCRL_ok [OF rd] by (simp_all add: readOf_def)
  then have pu: "readOf p u" by (rule readOf_quiet)
  have own: "storedOwn w = Some (scOwn p)" "storedOwn u = Some (scOwn p)" using readOf_own pw pu by blast+
  show ?thesis
  proof (cases "n \<in> revokedSerials (scOwn p)")
    case True
    then obtain e where "find (\<lambda>e. rleSerialNumber e = n) (rlEntries (scOwn p)) = Some e"
      using find_revoked by fastforce
    then have "invFrame u v" using r state_io_relD [OF inv_markIndex] by fastforce
    moreover have "onList u n" "onList w n" using own True by (simp_all add: onList_def)
    ultimately show ?thesis using that [OF n] onList_frame by blast
  next
    case False
    then have "find (\<lambda>e. rleSerialNumber e = n) (rlEntries (scOwn p)) = None" using find_revoked by blast
    then obtain now x y z where x: "run_state timeNow u = (Inr now, x)"
      and y: "run_state (signCRLLocked (Some p) (rlEntries (scOwn p)
          @ [\<lparr>rleSerialNumber = n, rleRevocationTime = now\<rparr>])) x = (Inr (), y)"
      and z: "run_state (markCertRevokedIndex s now) y = (Inr (), z)" "v = updCA (evictOCSPLocked (serialHexStr n)) z"
      using r by (auto elim!: bindE_okE)
    have qx: "quiet u x" using state_io_relD [OF qt.io_env(2) x] .
    have "keyOk (wCA x)" using k q qx by (simp add: keyOk_def quiet_def caFrame_def)
    from y readOf_quiet [OF qx pu] this obtain l where l: "storedOwn y = Some l" "cachedCRL (wCA y) = Some l"
      "revokedSerials l = rleSerialNumber ` set (rlEntries (scOwn p) @ [\<lparr>rleSerialNumber = n, rleRevocationTime = now\<rparr>])"
      by (rule sign_ok)
    have "invFrame y z" by (rule state_io_relD [OF inv_markIndex z(1)])
    then have "storedOwn v = Some l" "cachedCRL (wCA v) = Some l"
      using l z(2) by (simp_all add: invFrame_def storedOwn_def evictOCSPLocked_def)
    moreover have "\<forall>h e. ((serialHexStr n, h), e) \<in> set (ocspCache (wCA v)) \<longrightarrow> \<not> ocspCacheableHash h"
      using z(2) by (simp add: evictOCSPLocked_def)
    ultimately show ?thesis using that [OF n] l(3) by (simp add: onList_def)
  qed
qed

section \<open>Nothing owed a revocation is forgotten\<close>

definition pending :: "world \<Rightarrow> supersededEntry list" where
  "pending w = (case stSuperseded (wStore w) of None \<Rightarrow> [] | Some b \<Rightarrow> sbEntries b)"

definition entryRevoked :: "world \<Rightarrow> supersededEntry \<Rightarrow> bool" where
  "entryRevoked w e = (\<exists>n. (set_string16 (seSerial e) = Some n \<or> NormaliseSerial (seSerial e) = Inr (serialHexStr n))
     \<and> onList w n)"

definition malformed :: "supersededEntry \<Rightarrow> bool" where
  "malformed e = (case NormaliseSerial (seSerial e) of Inl _ \<Rightarrow> True | Inr _ \<Rightarrow> False)"

definition accounted :: "world \<Rightarrow> world \<Rightarrow> bool" where
  "accounted w v = (\<forall>e \<in> set (pending w). e \<in> set (pending v) \<or> entryRevoked v e \<or> malformed e)"

definition owes :: "world \<Rightarrow> world \<Rightarrow> bool" where
  "owes w v = ((\<forall>D. crlStep D w v) \<and> (keyOk (wCA w) \<longrightarrow> accounted w v))"

lemma entryRevoked_mono: "\<lbrakk>crlStep {} w v; keyOk (wCA w); entryRevoked w e\<rbrakk> \<Longrightarrow> entryRevoked v e"
  unfolding entryRevoked_def using onList_mono by blast

interpretation ow: step_relation owes
proof
  show "owes w v" if "sameState w v" for w v
    using that cs.same by (auto simp: owes_def accounted_def pending_def sameState_def)
  show "owes w u" if s: "owes w v" "owes v u" for w v u
    using s cs.trans keyOk_step entryRevoked_mono unfolding owes_def accounted_def by blast
qed

lemma owes_frame:
  assumes "\<And>D. state_io_rel (crlStep D) m" "\<And>w r v. run_state m w = (r, v) \<Longrightarrow> stSuperseded (wStore v) = stSuperseded (wStore w)"
  shows "state_io_rel owes m"
proof
  fix r w v assume "run_state m w = (r, v)"
  then show "owes w v"
    using assms(2) state_io_relD [OF assms(1)] by (auto simp: owes_def accounted_def pending_def)
qed

text \<open>Re-signing and revoking leave the other blobs alone.\<close>

definition otherSame :: "world \<Rightarrow> world \<Rightarrow> bool" where
  "otherSame w v = (stSuperseded (wStore v) = stSuperseded (wStore w) \<and> stCSRs (wStore v) = stCSRs (wStore w)
     \<and> stCerts (wStore v) = stCerts (wStore w) \<and> stCACert (wStore v) = stCACert (wStore w))"

interpretation os: step_relation otherSame
  by unfold_locales (auto simp: otherSame_def sameState_def)

lemma quiet_other: "state_io_rel quiet m \<Longrightarrow> state_io_rel otherSame m"
  unfolding state_io_rel_def quiet_def otherSame_def by fastforce

lemma inv_other: "state_io_rel invFrame m \<Longrightarrow> state_io_rel otherSame m"
  unfolding state_io_rel_def invFrame_def otherSame_def by fastforce

lemma other_changeCA: "state_io_rel otherSame (changeCA f)"
  by (rule os.io_changeCA) (simp add: otherSame_def)

lemma other_update: "state_io_rel otherSame (UpdateCRL b)"
  unfolding UpdateCRL_def by (rule os.io_backendWrite) (auto simp: otherSame_def)

lemma other_sign: "state_io_rel otherSame (signCRLLocked p es)"
  unfolding signCRLLocked_def
  by (auto intro!: os.io quiet_other [OF quiet_prepare] quiet_other [OF quiet_count(1)] other_update
      other_changeCA split: option.splits)

lemma other_revokeSerial: "state_io_rel otherSame (revokeSerialLocked s)"
  unfolding revokeSerialLocked_def
  by (auto intro!: os.io quiet_other [OF quiet_readStored] quiet_other [OF quiet_count(1)] other_sign
      inv_other [OF inv_markIndex] other_changeCA split: option.splits)

lemma owes_other:
  assumes "\<And>D. state_io_rel (crlStep D) m" "state_io_rel otherSame m"
  shows "state_io_rel owes m"
  using owes_frame [OF assms(1)] state_io_relD [OF assms(2)] by (simp add: otherSame_def)

lemma owes_revokeSerial: "state_io_rel owes (revokeSerialLocked s)"
  by (rule owes_other [OF step_revokeSerialLocked other_revokeSerial])

lemma other_retireEach: "state_io_rel otherSame (retireEach es)"
  by (induction es) (auto intro!: os.io other_revokeSerial)

lemma retireEach_ok:
  assumes "run_state (retireEach es) w = (Inr failed, v)" "keyOk (wCA w)"
  shows "set failed \<subseteq> set es \<and> (\<forall>e \<in> set es. e \<in> set failed \<or> entryRevoked v e)"
  using assms
proof (induction es arbitrary: w failed)
  case (Cons e es)
  obtain r u f where r: "run_state (revokeSerialLocked (seSerial e)) w = (r, u)"
    and f: "run_state (retireEach es) u = (Inr f, v)"
    and d: "failed = (case r of Inl _ \<Rightarrow> e # f | Inr _ \<Rightarrow> f)"
    using Cons.prems(1) by (auto elim!: bindE_okE attemptE)
  have st: "crlStep {} w u" "crlStep {} u v"
    using state_io_relD [OF step_revokeSerialLocked r] state_io_relD [OF step_retireEach f] .
  have k: "keyOk (wCA u)" using keyOk_step st(1) Cons.prems(2) by blast
  have "entryRevoked v e" if "r = Inr ()"
  proof -
    from r [unfolded that] Cons.prems(2) obtain n where "set_string16 (seSerial e) = Some n" "onList u n"
      by (rule revokeSerialLocked_ok)
    then have "entryRevoked u e" by (auto simp: entryRevoked_def)
    then show ?thesis using entryRevoked_mono st(2) k by blast
  qed
  then show ?case using Cons.IH [OF f k] d by (cases r) auto
qed simp

lemma loadSuperseded_ok:
  assumes "run_state loadSuperseded w = (Inr b, v)"
  shows "sbEntries b = pending w" "sameState w v"
proof -
  obtain r where r: "run_state GetSuperseded w = (r, v)"
    using assms unfolding loadSuperseded_def
    by (auto simp: run_bindE run_attempt split: sum.splits prod.splits err.splits)
  then show "sameState w v" unfolding GetSuperseded_def by (rule backendRead_same)
  have absent: "stSuperseded (wStore w) = None" if "r = Inl ErrNotExist"
  proof -
    obtain out u where "run_state nextOutcome w = (out, u)" by fastforce
    with r that nextOutcome_same [OF this] show ?thesis
      by (cases out) (simp_all add: GetSuperseded_def backendRead_def optionE_def sameState_def split: option.splits)
  qed
  show "sbEntries b = pending w"
  proof (cases r)
    case (Inl e)
    then have "e = ErrNotExist \<and> b = \<lparr>sbEntries = [], sbCorrupt = False\<rparr>"
      using assms r by (cases e) (simp_all add: loadSuperseded_def run_bindE run_attempt)
    then show ?thesis using absent Inl by (simp add: pending_def)
  next
    case (Inr d)
    have "optionE (stSuperseded (wStore w)) = Inr d"
      using r Inr unfolding GetSuperseded_def by (auto dest: backendRead_ok)
    then show ?thesis using assms r Inr
      by (auto simp: loadSuperseded_def run_bindE run_attempt pending_def optionE_def split: option.splits)
  qed
qed

lemma readSuperseded_ok:
  assumes "run_state readSuperseded w = (Inr (es, c), v)"
  shows "es = pending w" "quiet w v"
proof -
  show "quiet w v" by (rule state_io_relD [OF quiet_readSuperseded assms])
  from assms show "es = pending w" unfolding readSuperseded_def
    by (auto simp: Let_def parseSuperseded_def countSupersedeFailure_def run_bindE
        split: sum.splits prod.splits if_splits dest!: loadSuperseded_ok(1))
qed

lemma writeSuperseded_pending:
  assumes "run_state (writeSuperseded es) w = (r, v)"
  shows "stSuperseded (wStore v) = stSuperseded (wStore w) \<or> pending v = es" "r = Inr () \<Longrightarrow> pending v = es"
proof -
  obtain q where q: "run_state (SaveSuperseded \<lparr>sbEntries = es, sbCorrupt = False\<rparr>) w = (q, v)"
    and r: "r = (case q of Inr _ \<Rightarrow> Inr () | Inl _ \<Rightarrow> Inl (ErrOther ''saving pending certificate revocations''))"
    using assms unfolding writeSuperseded_def
    by (auto simp: run_bindE run_attempt split: sum.splits prod.splits)
  from q have "stSuperseded (wStore v) = stSuperseded (wStore w) \<and> q \<noteq> Inr () \<or> pending v = es"
    unfolding SaveSuperseded_def
    by (cases rule: backendPut_cases) (auto simp: sameState_def pending_def)
  then show "stSuperseded (wStore v) = stSuperseded (wStore w) \<or> pending v = es" "r = Inr () \<Longrightarrow> pending v = es"
    using r by (auto split: sum.splits)
qed

text \<open>Writing back a list is safe when what it leaves out is revoked or can never be.\<close>

lemma owes_write:
  assumes run: "run_state (writeSuperseded es) w = (r, v)"
    and "keyOk (wCA w) \<longrightarrow> (\<forall>e \<in> set (pending w). e \<in> set es \<or> entryRevoked w e \<or> malformed e)"
  shows "owes w v"
proof -
  have st: "crlStep D w v" for D by (rule state_io_relD [OF step_writeSuperseded run])
  moreover have "accounted w v" if "keyOk (wCA w)"
    using writeSuperseded_pending(1) [OF run] assms(2) that entryRevoked_mono [OF st that]
    unfolding accounted_def pending_def by fastforce
  ultimately show ?thesis by (simp add: owes_def)
qed

lemma owes_quiet: "state_io_rel quiet m \<Longrightarrow> state_io_rel owes m"
  by (rule owes_other [OF quiet_is_step quiet_other])

lemma owes_inv: "state_io_rel invFrame m \<Longrightarrow> state_io_rel owes m"
  by (rule owes_other [OF inv_is_step inv_other])

lemma owes_counted: "state_io_rel owes fn \<Longrightarrow> state_io_rel owes (withCRLLockCounted fn)"
  unfolding withCRLLockCounted_def by (intro ow.io owes_quiet [OF quiet_count(1)])

lemma quiet_owes: "quiet w v \<Longrightarrow> owes w v"
  using quiet_step by (auto simp: owes_def accounted_def pending_def quiet_def)

lemma quiet_entryRevoked: "quiet w v \<Longrightarrow> keyOk (wCA w) \<Longrightarrow> entryRevoked w e \<Longrightarrow> entryRevoked v e"
  using entryRevoked_mono quiet_step by blast

lemma owes_retire_tail:
  assumes p: "entries = pending w"
    and run: "run_state (bindE (retireEach (filter (\<lambda>e. seSubject e = subject) entries)) (\<lambda>failed.
      bindE (if failed \<noteq> [] then countSupersedeFailure else ok ()) (\<lambda>_.
      attempt (writeSuperseded (filter (\<lambda>e. seSubject e \<noteq> subject) entries @ failed))))) w = (r, v)"
  shows "owes w v"
  using run
proof (cases rule: bindE_E)
  case (error e)
  show ?thesis by (rule state_io_relD [OF owes_other [OF step_retireEach other_retireEach] error(1)])
next
  case (step failed x)
  have wx: "owes w x" by (rule state_io_relD [OF owes_other [OF step_retireEach other_retireEach] step(1)])
  have px: "pending x = pending w"
    using state_io_relD [OF other_retireEach step(1)] by (simp add: otherSame_def pending_def)
  let ?c = "if failed \<noteq> [] then countSupersedeFailure else ok ()"
  let ?w = "writeSuperseded (filter (\<lambda>e. seSubject e \<noteq> subject) entries @ failed)"
  obtain y where c: "run_state ?c x = (Inr (), y)"
    using count_if by blast
  have "state_io_rel quiet ?c" by (auto intro!: quiet_io quiet_supersedeCount)
  then have xy: "quiet x y" by (rule state_io_relD [OF _ c])
  from step(2) c have "run_state (attempt ?w) y = (r, v)" by (simp only: run_bindE prod.case sum.case)
  then obtain r' where y: "run_state ?w y = (r', v)" by (rule attemptE)
  have py: "pending y = pending w" using px xy by (simp add: pending_def quiet_def)
  have "keyOk (wCA y) \<longrightarrow> (\<forall>e \<in> set (pending y). e \<in> set (filter (\<lambda>e. seSubject e \<noteq> subject) entries @ failed)
      \<or> entryRevoked y e \<or> malformed e)"
  proof
    assume "keyOk (wCA y)"
    then have k: "keyOk (wCA w)" "keyOk (wCA x)"
      using xy wx by (auto simp: owes_def quiet_def caFrame_def crlStep_def sameId_def keyOk_def)
    show "\<forall>e \<in> set (pending y). e \<in> set (filter (\<lambda>e. seSubject e \<noteq> subject) entries @ failed)
      \<or> entryRevoked y e \<or> malformed e"
      using retireEach_ok [OF step(1) k(1)] quiet_entryRevoked [OF xy k(2)] p py by auto
  qed
  then have "owes y v" by (rule owes_write [OF y])
  then show ?thesis using ow.trans [OF wx ow.trans [OF quiet_owes [OF xy]]] by blast
qed

lemma retire_alt:
  "retireSupersededForSubjectLocked subject =
     bindE (attempt readSuperseded) (\<lambda>r.
     case r of
       Inl _ \<Rightarrow> countSupersedeFailure
     | Inr (entries, _) \<Rightarrow>
         if filter (\<lambda>e. seSubject e = subject) entries = [] then ok ()
         else
           bindE (bindE (retireEach (filter (\<lambda>e. seSubject e = subject) entries)) (\<lambda>failed.
             bindE (if failed \<noteq> [] then countSupersedeFailure else ok ()) (\<lambda>_.
             attempt (writeSuperseded (filter (\<lambda>e. seSubject e \<noteq> subject) entries @ failed))))) (\<lambda>w.
           case w of Inl _ \<Rightarrow> countSupersedeFailure | Inr _ \<Rightarrow> ok ()))"
  unfolding retireSupersededForSubjectLocked_def Let_def bindE_assoc ..

lemma owes_retire: "state_io_rel owes (retireSupersededForSubjectLocked subject)"
proof
  fix r w v assume "run_state (retireSupersededForSubjectLocked subject) w = (r, v)"
  then show "owes w v" unfolding retire_alt
  proof (cases rule: bindE_E)
    case (error e)
    then show ?thesis by (auto elim!: attemptE)
  next
    case (step x u)
    from step(1) obtain q where q: "run_state readSuperseded w = (q, u)" "x = q"
      by (auto elim!: attemptE)
    have wu: "quiet w u" by (rule state_io_relD [OF quiet_readSuperseded q(1)])
    have fin: "state_io_rel owes (case_sum (\<lambda>_. countSupersedeFailure) ok z)" for z :: "unit res"
      by (auto intro!: ow.io owes_quiet [OF quiet_supersedeCount] split: sum.splits)
    have "owes u v"
    proof (cases q)
      case (Inl e)
      then show ?thesis using step(2) q(2) state_io_relD [OF owes_quiet [OF quiet_supersedeCount]] by auto
    next
      case (Inr y)
      obtain es c where y: "y = (es, c)" by fastforce
      then have es: "es = pending u"
        using readSuperseded_ok(1) q(1) Inr wu by (simp add: pending_def quiet_def)
      show ?thesis
      proof (cases "filter (\<lambda>e. seSubject e = subject) es = []")
        case True
        then show ?thesis using step(2) q(2) Inr y by (simp add: ow.same)
      next
        case False
        let ?m = "bindE (retireEach (filter (\<lambda>e. seSubject e = subject) es)) (\<lambda>failed.
          bindE (if failed \<noteq> [] then countSupersedeFailure else ok ()) (\<lambda>_.
          attempt (writeSuperseded (filter (\<lambda>e. seSubject e \<noteq> subject) es @ failed))))"
        from False step(2) q(2) Inr y have "run_state (bindE ?m (case_sum (\<lambda>_. countSupersedeFailure) ok)) u = (r, v)"
          by simp
        then show ?thesis
        proof (cases rule: bindE_E)
          case (error e)
          show ?thesis by (rule owes_retire_tail [OF es error(1)])
        next
          case inner: (step z t)
          show ?thesis
            by (rule ow.trans [OF owes_retire_tail [OF es inner(1)] state_io_relD [OF fin inner(2)]])
        qed
      qed
    qed
    then show ?thesis by (rule ow.trans [OF quiet_owes [OF wu]])
  qed
qed

lemma owes_Revoke: "state_io_rel owes (Revoke subject)"
  unfolding Revoke_def revokeLocked_def findSerialForSubject_def
  by (auto intro!: ow.io owes_counted owes_retire owes_inv [OF inv_latest] owes_quiet [OF quiet_count(1)]
      owes_revokeSerial split: sum.splits)

lemma owes_RevokeSerial: "state_io_rel owes (RevokeSerial serial force)"
  unfolding RevokeSerial_def revokeSerialCheckedLocked_def
  by (auto intro!: ow.io owes_counted owes_inv [OF inv_subjectFor] owes_quiet [OF quiet_storedCertSerial]
      owes_quiet [OF quiet_count(1)] owes_revokeSerial split: sum.splits)

end
