(* ===== verification/Supersede.thy ===== *)
theory Supersede
  imports Revoke
begin

text \<open>
  Delayed revocation of replaced certificates (internal/ca/supersede.go).  A renewal
  either revokes the certificate it replaced at once or records it with the time its
  window ends; a sweep revokes every due entry in one re-sign; the renewal gate refuses a
  certificate that is waiting.  Lemmas: the four dispositions of a sweep account for
  every due entry, no entry leaves the list unless its serial is revoked or can never
  be, and the gate recognises a serial however it was written.
\<close>

section \<open>The renewal gate\<close>

definition refuseIfSuperseded :: "Certificate option \<Rightarrow> string \<Rightarrow> unit opr" where
  "refuseIfSuperseded presentedCert subject =
     (case presentedCert of
        None \<Rightarrow> ok ()
      | Some cert \<Rightarrow>
          let serial = serialHexStr (certSerialNumber cert) in
          bindE (attempt loadSuperseded) (\<lambda>r.
          case r of
            Inl e \<Rightarrow> bindE countSupersedeFailure (\<lambda>_. fail e)
          | Inr data \<Rightarrow>
              let (entries, corrupt) = parseSuperseded data in
              if corrupt then fail ErrCertSuperseded
              else if list_ex (\<lambda>e. NormaliseSerial (seSerial e) = Inr serial) entries
              then fail ErrCertSuperseded
              else ok ()))"

section \<open>Recording\<close>

definition recordSuperseded :: "string \<Rightarrow> string \<Rightarrow> duration \<Rightarrow> unit opr" where
  "recordSuperseded subject serial after =
     (case NormaliseSerial serial of
        Inl e \<Rightarrow> bindE countSupersedeFailure (\<lambda>_. fail e)
      | Inr canonical \<Rightarrow>
          bindE timeNow (\<lambda>now.
          bindE (attempt (WithLock LockCRL (
            bindE readSuperseded (\<lambda>(entries, _).
            writeSuperseded (entries @
              [\<lparr>seSerial = canonical, seSubject = subject, seRevokeAt = now + after\<rparr>]))))) (\<lambda>r.
          case r of
            Inl e \<Rightarrow> bindE countSupersedeFailure (\<lambda>_. fail e)
          | Inr _ \<Rightarrow> ok ())))"

definition supersedeReplacedAfter :: "string \<Rightarrow> string \<Rightarrow> duration \<Rightarrow> unit opr" where
  "supersedeReplacedAfter subject oldSerial after =
     (if after \<le> 0 then WithLock LockCRL (withMu (revokeSerialLocked oldSerial))
      else recordSuperseded subject oldSerial after)"

definition supersedeReplaced :: "string \<Rightarrow> string \<Rightarrow> unit opr" where
  "supersedeReplaced subject oldSerial =
     bindE (getsE (\<lambda>w. SupersedeAfter (wConfig w))) (supersedeReplacedAfter subject oldSerial)"

section \<open>Draining\<close>

record drainOutcome =
  doRevoked :: nat
  doFailed :: "supersededEntry list"
  doDeferred :: "supersededEntry list"
  doDiscarded :: nat

text \<open>One pass over the serials: what is listed, the times to report, the entries to append.\<close>

fun appendBatch :: "gotime \<Rightarrow> (string \<rightharpoonup> gotime) \<Rightarrow> (string \<rightharpoonup> gotime) \<Rightarrow> RevocationListEntry list \<Rightarrow> int list
    \<Rightarrow> (string \<rightharpoonup> gotime) \<times> RevocationListEntry list" where
  "appendBatch now listed revokedAt new [] = (revokedAt, new)"
| "appendBatch now listed revokedAt new (n # ns) =
     (let key = serialHexStr n in
      case listed key of
        Some at \<Rightarrow> appendBatch now listed (revokedAt(key \<mapsto> at)) new ns
      | None \<Rightarrow> appendBatch now (listed(key \<mapsto> now)) (revokedAt(key \<mapsto> now))
                  (new @ [\<lparr>rleSerialNumber = n, rleRevocationTime = now\<rparr>]) ns)"

text \<open>The map of the stored entries; a later entry for the same serial replaces an earlier one.\<close>

definition listedTimes :: "RevocationList \<Rightarrow> (string \<rightharpoonup> gotime)" where
  "listedTimes crl = map_of (rev (map (\<lambda>e. (serialHexStr (rleSerialNumber e), rleRevocationTime e)) (rlEntries crl)))"

definition appendCRLEntriesLocked :: "int list \<Rightarrow> (string \<rightharpoonup> gotime) opr" where
  "appendCRLEntriesLocked add =
     bindE readStoredCRL (\<lambda>stored.
     bindE timeNow (\<lambda>now.
     let (revokedAt, new) = appendBatch now (listedTimes (scOwn stored)) (\<lambda>_. None) [] add in
     if new = [] then ok revokedAt
     else bindE (signCRLLocked (Some stored) (rlEntries (scOwn stored) @ new)) (\<lambda>_. ok revokedAt)))"

definition dueSerial :: "supersededEntry \<Rightarrow> (supersededEntry \<times> string \<times> int) option" where
  "dueSerial e =
     (case NormaliseSerial (seSerial e) of
        Inl _ \<Rightarrow> None
      | Inr canon \<Rightarrow> map_option (\<lambda>number. (e, canon, number)) (set_string16 canon))"

fun projectEach :: "(string \<rightharpoonup> gotime) \<Rightarrow> (supersededEntry \<times> string \<times> int) list \<Rightarrow> unit opr" where
  "projectEach revokedAt [] = ok ()"
| "projectEach revokedAt ((e, canon, number) # ds) =
     bindE (markCertRevokedIndex canon (case revokedAt canon of None \<Rightarrow> zero_time | Some t \<Rightarrow> t)) (\<lambda>_.
     projectEach revokedAt ds)"

definition drainDueLocked :: "supersededEntry list \<Rightarrow> drainOutcome opr" where
  "drainDueLocked due =
     (let batch = List.map_filter dueSerial due;
          discarded = length due - length batch in
      if batch = [] then ok \<lparr>doRevoked = 0, doFailed = [], doDeferred = [], doDiscarded = discarded\<rparr>
      else
        bindE (attempt (appendCRLEntriesLocked (map (\<lambda>(e, canon, number). number) batch))) (\<lambda>r.
        case r of
          Inl _ \<Rightarrow> ok \<lparr>doRevoked = 0, doFailed = map fst batch, doDeferred = [], doDiscarded = discarded\<rparr>
        | Inr revokedAt \<Rightarrow>
            bindE (projectEach revokedAt batch) (\<lambda>_.
            ok \<lparr>doRevoked = length batch, doFailed = [], doDeferred = [], doDiscarded = discarded\<rparr>)))"

section \<open>The sweep\<close>

text \<open>
  The number revoked and the error are reported together.  The order of due entries with
  equal times is not determined by the source.
\<close>

definition sweepLocked :: "(nat \<times> unit res) opr" where
  "sweepLocked =
     bindE (attempt readSuperseded) (\<lambda>r.
     case r of
       Inl e \<Rightarrow> ok (0, Inl e)
     | Inr (entries, corrupt) \<Rightarrow>
         if entries = [] then
           (if corrupt then bindE (attempt (writeSuperseded [])) (\<lambda>x. ok (0, x)) else ok (0, Inr ()))
         else
           bindE timeNow (\<lambda>now.
           let waiting = filter (\<lambda>e. now < seRevokeAt e) entries;
               due = filter (\<lambda>e. \<not> now < seRevokeAt e) entries in
           if due = [] \<and> \<not> corrupt then ok (0, Inr ())
           else
             bindE (withMu (drainDueLocked (sort_key seRevokeAt due))) (\<lambda>out.
             bindE (if doFailed out \<noteq> [] \<or> doDeferred out \<noteq> [] \<or> 0 < doDiscarded out
                    then countSupersedeFailure else ok ()) (\<lambda>_.
             bindE (attempt (writeSuperseded (waiting @ doFailed out @ doDeferred out))) (\<lambda>x.
             ok (doRevoked out, x))))))"

definition ReconcileSuperseded :: "(nat \<times> unit res) opr" where
  "ReconcileSuperseded =
     bindE (attempt loadSuperseded) (\<lambda>r0.
     if (case r0 of Inl _ \<Rightarrow> False | Inr data \<Rightarrow> parseSuperseded data = ([], False)) then ok (0, Inr ())
     else
       bindE (attempt (WithLock LockCRL sweepLocked)) (\<lambda>q.
       let (revoked, res) = (case q of Inl e \<Rightarrow> (0, Inl e) | Inr p \<Rightarrow> p) in
       bindE (case res of Inl _ \<Rightarrow> countSupersedeFailure | Inr _ \<Rightarrow> ok ()) (\<lambda>_.
       ok (revoked, res))))"

section \<open>The batch\<close>

lemma appendBatch_new:
  assumes "appendBatch now listed revokedAt new ns = (at, out)"
  shows "set new \<subseteq> set out"
    "n \<in> set ns \<Longrightarrow> listed (serialHexStr n) \<noteq> None \<or> n \<in> rleSerialNumber ` set out"
  using assms
proof (induction ns arbitrary: listed revokedAt new)
  case (Cons m ns)
  {
    case 1
    then show ?case using Cons.IH(1) by (fastforce simp: Let_def split: option.splits)
  next
    case 2
    show ?case
    proof (cases "listed (serialHexStr m)")
      case None
      let ?new = "new @ [\<lparr>rleSerialNumber = m, rleRevocationTime = now\<rparr>]"
      have r: "appendBatch now (listed(serialHexStr m \<mapsto> now)) (revokedAt(serialHexStr m \<mapsto> now)) ?new ns = (at, out)"
        using 2 None by (simp add: Let_def)
      have m: "m \<in> rleSerialNumber ` set out" using Cons.IH(1) [OF r] by force
      show ?thesis
      proof (cases "n = m")
        case True
        then show ?thesis using m by simp
      next
        case False
        then show ?thesis using Cons.IH(2) [OF _ r] 2(1) by auto
      qed
    next
      case (Some t)
      have r: "appendBatch now listed (revokedAt(serialHexStr m \<mapsto> t)) new ns = (at, out)"
        using 2 Some by (simp add: Let_def)
      then show ?thesis using Cons.IH(2) [OF _ r] 2(1) Some by auto
    qed
  }
qed simp_all

lemma listedTimes_listed: "listedTimes crl (serialHexStr n) \<noteq> None \<longleftrightarrow> n \<in> revokedSerials crl"
  by (auto simp: listedTimes_def revokedSerials_def map_of_eq_None_iff image_image)

lemma step_append: "state_io_rel (crlStep D) (appendCRLEntriesLocked add)"
proof -
  have sign: "stepFrom D p (signCRLLocked (Some p) (rlEntries (scOwn p) @ es))" for p es
    by (rule sf_sign) (auto simp: revokedSerials_def)
  have tail: "stepFrom D p (if new = [] then ok m
      else bindE (signCRLLocked (Some p) (rlEntries (scOwn p) @ new)) (\<lambda>_. ok m))" for p new and m :: "string \<rightharpoonup> gotime"
    by (cases "new = []") (auto intro: sf_then [OF sign] sf_step cs.io)
  show ?thesis
    unfolding appendCRLEntriesLocked_def
    by (intro sf_read sf_quiet [OF qt.io_env(2)]) (simp add: Let_def split_def tail)
qed

lemma other_append: "state_io_rel otherSame (appendCRLEntriesLocked add)"
  unfolding appendCRLEntriesLocked_def
  by (auto intro!: os.io quiet_other [OF quiet_readStored] other_sign simp: Let_def split_def)

lemma append_onList:
  assumes run: "run_state (appendCRLEntriesLocked add) w = (Inr at, v)" and k: "keyOk (wCA w)"
    and n: "n \<in> set add"
  shows "onList v n"
proof -
  obtain p u now x where rd: "run_state readStoredCRL w = (Inr p, u)" and t: "run_state timeNow u = (Inr now, x)"
    and r: "run_state (let (revokedAt, new) = appendBatch now (listedTimes (scOwn p)) (\<lambda>_. None) [] add in
       if new = [] then ok revokedAt
       else bindE (signCRLLocked (Some p) (rlEntries (scOwn p) @ new)) (\<lambda>_. ok revokedAt)) x = (Inr at, v)"
    using run unfolding appendCRLEntriesLocked_def by (auto elim!: bindE_okE)
  obtain m new where b: "appendBatch now (listedTimes (scOwn p)) (\<lambda>_. None) [] add = (m, new)" by fastforce
  have q: "quiet w u" "quiet u x" using readStoredCRL_ok(3) [OF rd] state_io_relD [OF qt.io_env(2) t] .
  have px: "readOf p x" using readStoredCRL_ok [OF rd] readOf_quiet q by (auto simp: readOf_def)
  have nn: "n \<in> revokedSerials (scOwn p) \<or> n \<in> rleSerialNumber ` set new"
    using appendBatch_new(2) [OF b n] listedTimes_listed by blast
  show ?thesis
  proof (cases "new = []")
    case True
    then show ?thesis using r b nn readOf_own [OF px] by (auto simp: onList_def)
  next
    case False
    then have s: "run_state (signCRLLocked (Some p) (rlEntries (scOwn p) @ new)) x = (Inr (), v)"
      using r b by (auto elim!: bindE_okE)
    have "keyOk (wCA x)" using k q by (simp add: keyOk_def quiet_def caFrame_def)
    from s px this obtain l where "storedOwn v = Some l"
      "revokedSerials l = rleSerialNumber ` set (rlEntries (scOwn p) @ new)" by (rule sign_ok)
    then show ?thesis using nn by (auto simp: onList_def revokedSerials_def)
  qed
qed

lemma dueSerial_Some:
  assumes "dueSerial e = Some d"
  obtains n where "d = (e, serialHexStr n, n)" "NormaliseSerial (seSerial e) = Inr (serialHexStr n)"
  using assms NormaliseSerial_canonical [of "seSerial e"]
  by (fastforce simp: dueSerial_def split: sum.splits)

lemma dueSerial_fst: "dueSerial e = Some d \<Longrightarrow> fst d = e"
  by (auto simp: dueSerial_def split: sum.splits)

lemma dueSerial_None: "dueSerial e = None \<Longrightarrow> malformed e"
  using NormaliseSerial_canonical [of "seSerial e"]
  by (fastforce simp: dueSerial_def malformed_def split: sum.splits)

lemma inv_project: "state_io_rel invFrame (projectEach m ds)"
  by (induction m ds rule: projectEach.induct) (auto intro!: inv.io inv_markIndex)

lemma owes_append: "state_io_rel owes (appendCRLEntriesLocked add)"
  by (rule owes_other [OF step_append other_append])

lemma step_drain: "state_io_rel (crlStep D) (drainDueLocked due)"
  unfolding drainDueLocked_def
  by (auto intro!: cs.io step_append inv_is_step [OF inv_project] simp: Let_def split: sum.splits)

lemma other_drain: "state_io_rel otherSame (drainDueLocked due)"
  unfolding drainDueLocked_def
  by (auto intro!: os.io other_append inv_other [OF inv_project] simp: Let_def split: sum.splits)

lemma owes_drain: "state_io_rel owes (drainDueLocked due)"
  by (rule owes_other [OF step_drain other_drain])

lemma project_total: "\<exists>v. run_state (projectEach m ds) w = (Inr (), v)"
  by (induction m ds arbitrary: w rule: projectEach.induct)
    (auto simp: run_bindE markCertRevokedIndex_def run_attempt split: prod.splits)

text \<open>Every due entry ends in exactly one disposition.\<close>

lemma drain_ok:
  assumes run: "run_state (drainDueLocked due) w = (r, v)"
  obtains out where "r = Inr out"
    "doRevoked out + length (doFailed out) + length (doDeferred out) + doDiscarded out = length due"
    "doDeferred out = []" "set (doFailed out) \<subseteq> set due"
    "keyOk (wCA w) \<longrightarrow> (\<forall>e \<in> set due. e \<in> set (doFailed out) \<or> entryRevoked v e \<or> malformed e)"
proof -
  let ?batch = "List.map_filter dueSerial due"
  have len: "length ?batch \<le> length due" by (simp add: map_filter_def)
  have fst: "map fst ?batch = filter (\<lambda>e. dueSerial e \<noteq> None) due"
    unfolding map_filter_def by (auto simp: o_def dueSerial_fst intro!: map_idI)
  then have sub: "fst ` set ?batch \<subseteq> set due" by (metis image_set filter_is_subset)
  have mal: "malformed e" if "e \<in> set due" "e \<notin> fst ` set ?batch" for e
  proof -
    have "e \<notin> set (filter (\<lambda>e. dueSerial e \<noteq> None) due)" using that(2) fst by (metis image_set)
    then show ?thesis using that(1) dueSerial_None by (cases "dueSerial e") auto
  qed
  show ?thesis
  proof (cases "?batch = []")
    case True
    then show ?thesis using run that len mal by (auto simp: drainDueLocked_def)
  next
    case False
    let ?add = "map (\<lambda>(e, canon, number). number) ?batch"
    obtain q u where q: "run_state (appendCRLEntriesLocked ?add) w = (q, u)" by fastforce
    show ?thesis
    proof (cases q)
      case (Inl x)
      then have "r = Inr \<lparr>doRevoked = 0, doFailed = map fst ?batch, doDeferred = [],
          doDiscarded = length due - length ?batch\<rparr>"
        using run False q by (simp add: drainDueLocked_def run_bindE run_attempt Let_def)
      from that [OF this] show ?thesis using len mal sub by auto
    next
      case (Inr at)
      obtain y where y: "run_state (projectEach at ?batch) u = (Inr (), y)" using project_total by blast
      have r: "r = Inr \<lparr>doRevoked = length ?batch, doFailed = [], doDeferred = [],
          doDiscarded = length due - length ?batch\<rparr>" and v: "v = y"
        using run False q Inr y by (simp_all add: drainDueLocked_def run_bindE run_attempt Let_def)
      have "entryRevoked v e" if k: "keyOk (wCA w)" and e: "e \<in> fst ` set ?batch" for e
      proof -
        obtain d where d: "d \<in> set ?batch" "fst d = e" using e by blast
        then obtain x where "dueSerial x = Some d" unfolding map_filter_def by auto
        then have ds: "dueSerial e = Some d" using dueSerial_fst d(2) by blast
        from ds obtain n where n: "d = (e, serialHexStr n, n)" "NormaliseSerial (seSerial e) = Inr (serialHexStr n)"
          by (rule dueSerial_Some)
        have "onList u n"
          using append_onList [OF _ k, of ?add at u n] q Inr d(1) n(1) by force
        then have "onList v n"
          using onList_frame state_io_relD [OF inv_project y] v by blast
        then show ?thesis using n(2) by (auto simp: entryRevoked_def)
      qed
      then show ?thesis using that r len mal by fastforce
    qed
  qed
qed

section \<open>The list and the gate\<close>

lemma owes_writing:
  assumes p: "\<forall>e \<in> set (pending w). e \<in> set es \<or> (keyOk (wCA w) \<longrightarrow> entryRevoked w e \<or> malformed e)"
    and run: "run_state (bindE (attempt (writeSuperseded es)) f) w = (r, v)" and f: "\<And>x. state_io_rel owes (f x)"
  shows "owes w v"
  using run
proof (cases rule: bindE_E)
  case (error e)
  then show ?thesis by (auto elim!: attemptE)
next
  case (step x u)
  then obtain q where "run_state (writeSuperseded es) w = (q, u)" by (auto elim!: attemptE)
  then have "owes w u" by (rule owes_write) (use p in blast)
  then show ?thesis by (rule ow.trans [OF _ state_io_relD [OF f step(2)]])
qed

lemma owes_sweep_tail:
  assumes p: "set (pending w) \<subseteq> set waiting \<union> set due"
    and run: "run_state (bindE (withMu (drainDueLocked (sort_key seRevokeAt due))) (\<lambda>out.
             bindE (if doFailed out \<noteq> [] \<or> doDeferred out \<noteq> [] \<or> 0 < doDiscarded out
                    then countSupersedeFailure else ok ()) (\<lambda>_.
             bindE (attempt (writeSuperseded (waiting @ doFailed out @ doDeferred out))) (\<lambda>x.
             ok (doRevoked out, x))))) w = (r, v)"
  shows "owes w v"
  using run
proof (cases rule: bindE_E)
  case (error e)
  show ?thesis by (rule state_io_relD [OF ow.io_withMu [OF owes_drain] error(1)])
next
  case (step out x)
  have wx: "owes w x" by (rule state_io_relD [OF ow.io_withMu [OF owes_drain] step(1)])
  have px: "pending x = pending w"
    using state_io_relD [OF os.io_withMu [OF other_drain] step(1)] by (simp add: otherSame_def pending_def)
  from step(1) obtain a b where ab: "sameState w a" "run_state (drainDueLocked (sort_key seRevokeAt due)) a = (Inr out, b)"
    "sameState b x" by (rule withMu_cases)
  let ?c = "if doFailed out \<noteq> [] \<or> doDeferred out \<noteq> [] \<or> 0 < doDiscarded out then countSupersedeFailure else ok ()"
  have qc: "state_io_rel quiet ?c" by (auto intro!: quiet_io quiet_supersedeCount)
  obtain y where c: "run_state ?c x = (Inr (), y)" using count_if by blast
  have xy: "quiet x y" by (rule state_io_relD [OF qc c])
  have r: "run_state (bindE (attempt (writeSuperseded (waiting @ doFailed out @ doDeferred out))) (\<lambda>z.
      ok (doRevoked out, z))) y = (r, v)"
    using step(2) c by (simp only: run_bindE [of ?c] prod.case sum.case)
  have "entryRevoked y e \<or> malformed e \<or> e \<in> set (doFailed out)" if "keyOk (wCA y)" "e \<in> set due" for e
  proof -
    have k: "keyOk (wCA a)" "keyOk (wCA b)" "keyOk (wCA x)"
      using that(1) xy wx ab by (auto simp: owes_def quiet_def caFrame_def crlStep_def sameId_def keyOk_def sameState_def)
    have "e \<in> set (doFailed out) \<or> entryRevoked b e \<or> malformed e"
      using ab(2) by (rule drain_ok) (use k that(2) in auto)
    then show ?thesis
      using entryRevoked_mono [OF cs.same [OF ab(3)] k(2)] quiet_entryRevoked [OF xy k(3)] by blast
  qed
  then have "\<forall>e \<in> set (pending y). e \<in> set (waiting @ doFailed out @ doDeferred out)
      \<or> (keyOk (wCA y) \<longrightarrow> entryRevoked y e \<or> malformed e)"
    using p px xy by (auto simp: pending_def quiet_def)
  then have "owes y v" using r by (rule owes_writing) (intro ow.io)
  then show ?thesis by (rule ow.trans [OF wx ow.trans [OF quiet_owes [OF xy]]])
qed

lemma owes_sweep: "state_io_rel owes sweepLocked"
proof
  fix r w v assume "run_state sweepLocked w = (r, v)"
  then show "owes w v" unfolding sweepLocked_def
  proof (cases rule: bindE_E)
    case (error e)
    then show ?thesis by (auto elim!: attemptE)
  next
    case (step x u)
    from step(1) have q: "run_state readSuperseded w = (x, u)" by (auto elim!: attemptE)
    have wu: "quiet w u" by (rule state_io_relD [OF quiet_readSuperseded q])
    have "owes u v"
    proof (cases x)
      case (Inl e)
      then show ?thesis using step(2) by (simp add: ow.same)
    next
      case (Inr y)
      obtain es c where y: "y = (es, c)" by fastforce
      have pu: "pending u = es"
        using readSuperseded_ok(1) q Inr y wu by (simp add: pending_def quiet_def)
      have wr: "owes u v" if "run_state (bindE (attempt (writeSuperseded [])) (\<lambda>x. ok (0 :: nat, x))) u = (r, v)" "es = []"
        using _ that(1) by (rule owes_writing) (use pu that(2) in \<open>auto intro!: ow.io\<close>)
      show ?thesis
      proof (cases "es = []")
        case True
        then show ?thesis using step(2) Inr y wr by (cases c) (auto simp: ow.same)
      next
        case False
        obtain now t where t: "run_state timeNow u = (Inr now, t)"
          using timeNow_same by (metis surj_pair)
        have ut: "sameState u t" using timeNow_same [OF t] by simp
        have "owes t v"
        proof (cases "filter (\<lambda>e. \<not> now < seRevokeAt e) es = [] \<and> \<not> c")
          case True
          then show ?thesis using step(2) Inr y False t by (simp add: run_bindE [of timeNow] ow.same)
        next
          case due: False
          have "set (pending t) \<subseteq> set (filter (\<lambda>e. now < seRevokeAt e) es)
              \<union> set (filter (\<lambda>e. \<not> now < seRevokeAt e) es)" using pu ut by (auto simp: pending_def sameState_def)
          then show ?thesis
            using step(2) Inr y False t due by (intro owes_sweep_tail) (auto simp: run_bindE [of timeNow] Let_def)
        qed
        then show ?thesis by (rule ow.trans [OF ow.same [OF ut]])
      qed
    qed
    then show ?thesis by (rule ow.trans [OF quiet_owes [OF wu]])
  qed
qed

lemma owes_Reconcile: "state_io_rel owes ReconcileSuperseded"
  unfolding ReconcileSuperseded_def
  by (auto intro!: ow.io owes_sweep owes_quiet [OF quiet_load] owes_quiet [OF quiet_supersedeCount]
      simp: Let_def split_def split: sum.splits)

lemma owes_record: "state_io_rel owes (recordSuperseded subject serial after)"
proof -
  have wr: "state_io_rel owes (bindE readSuperseded (\<lambda>(entries, _). writeSuperseded (entries @ [x])))" for x
  proof
    fix r w v assume "run_state (bindE readSuperseded (\<lambda>(entries, _). writeSuperseded (entries @ [x]))) w = (r, v)"
    then show "owes w v"
    proof (cases rule: bindE_E)
      case (error e)
      show ?thesis by (rule quiet_owes [OF state_io_relD [OF quiet_readSuperseded error(1)]])
    next
      case (step y u)
      obtain es c where y: "y = (es, c)" by fastforce
      have q: "quiet w u" and es: "es = pending w" using readSuperseded_ok step(1) y by blast+
      have "pending u = es" using q es by (simp add: pending_def quiet_def)
      then have "owes u v" using step(2) y by (auto intro!: owes_write [of "es @ [x]"])
      then show ?thesis by (rule ow.trans [OF quiet_owes [OF q]])
    qed
  qed
  show ?thesis
    unfolding recordSuperseded_def
    by (auto intro!: ow.io wr owes_quiet [OF quiet_supersedeCount] split: sum.splits)
qed

lemma owes_supersedeReplacedAfter: "state_io_rel owes (supersedeReplacedAfter subject serial after)"
  unfolding supersedeReplacedAfter_def by (auto intro!: ow.io owes_revokeSerial owes_record)

lemma owes_supersedeReplaced: "state_io_rel owes (supersedeReplaced subject serial)"
  unfolding supersedeReplaced_def by (intro ow.io owes_supersedeReplacedAfter)

lemma owes_is_step: "state_io_rel owes m \<Longrightarrow> state_io_rel (crlStep D) m"
  unfolding state_io_rel_def owes_def by blast

lemma quiet_refuse: "state_io_rel quiet (refuseIfSuperseded cert subject)"
  unfolding refuseIfSuperseded_def
  by (auto intro!: quiet_io quiet_load quiet_supersedeCount simp: Let_def parseSuperseded_def
      split: option.splits sum.splits)

text \<open>A certificate whose serial is on the list, in any spelling, does not pass the gate.\<close>

lemma refuseIfSuperseded_ok:
  assumes "run_state (refuseIfSuperseded (Some cert) subject) w = (Inr (), v)" "e \<in> set (pending w)"
  shows "NormaliseSerial (seSerial e) \<noteq> Inr (serialHexStr (certSerialNumber cert))"
proof -
  obtain r u where r: "run_state loadSuperseded w = (r, u)" by fastforce
  then obtain data where d: "r = Inr data"
    "\<not> list_ex (\<lambda>e. NormaliseSerial (seSerial e) = Inr (serialHexStr (certSerialNumber cert))) (sbEntries data)"
    using assms(1) by (auto simp: refuseIfSuperseded_def run_bindE run_attempt countSupersedeFailure_def
        Let_def parseSuperseded_def split: sum.splits if_splits)
  then show ?thesis using loadSuperseded_ok(1) [of w data u] r assms(2) by (auto simp: list_ex_iff)
qed

lemma record_ok:
  assumes "run_state (recordSuperseded subject serial after) w = (Inr (), v)"
  obtains canonical t where "NormaliseSerial serial = Inr canonical"
    "\<lparr>seSerial = canonical, seSubject = subject, seRevokeAt = t\<rparr> \<in> set (pending v)"
proof -
  obtain canonical where c: "NormaliseSerial serial = Inr canonical"
    using assms by (cases "NormaliseSerial serial") (auto simp: recordSuperseded_def run_bindE countSupersedeFailure_def)
  obtain now u where r: "run_state (WithLock LockCRL (bindE readSuperseded (\<lambda>(entries, _).
      writeSuperseded (entries @ [\<lparr>seSerial = canonical, seSubject = subject, seRevokeAt = now + after\<rparr>])))) u = (Inr (), v)"
    using assms c
    by (auto simp: recordSuperseded_def run_bindE [of countSupersedeFailure] countSupersedeFailure_def
        elim!: bindE_okE attemptE split: sum.splits)
  from r show ?thesis
  proof (cases rule: WithLock_cases)
    case (ran x y)
    obtain es c' z where z: "run_state (writeSuperseded (es @
        [\<lparr>seSerial = canonical, seSubject = subject, seRevokeAt = now + after\<rparr>])) z = (Inr (), y)"
      using ran(2) by (auto elim!: bindE_okE)
    have "pending v = es @ [\<lparr>seSerial = canonical, seSubject = subject, seRevokeAt = now + after\<rparr>]"
      using writeSuperseded_pending(2) [OF z] ran(3) by (simp add: pending_def sameState_def)
    then show ?thesis using that [OF c] by auto
  qed simp
qed

end
