(* ===== verification/Signing.thy ===== *)
theory Signing
  imports Supersede
begin

text \<open>
  Issuance (internal/ca/signing.go): the shared tail issueLeafLocked, signing a pending
  request, renewal with and without a new key, cleaning, and the request queue; the key
  policy of internal/ca/keys.go and the serial index of internal/ca/ocsp.go they use.
  Lemmas: what a certificate signed from a request can and cannot carry, that it never
  outlives the CA, what a renewal requires and carries over, and what each outcome leaves
  in the store.
\<close>

section \<open>Policy\<close>

definition validatePublicKey :: "PublicKey \<Rightarrow> unit res" where
  "validatePublicKey pub =
     (case pub of
        RSAKey bits _ \<Rightarrow> if bits < 2048 then Inl ErrKeyPolicy else Inr ()
      | ECDSAKey curve _ \<Rightarrow> if curve \<in> {P256, P384, P521} then Inr () else Inl ErrKeyPolicy
      | OtherKey _ \<Rightarrow> Inl ErrKeyPolicy)"

definition certValidity :: duration where "certValidity = 5 * 365 * 24 * hour"

definition DefaultLeafBackdate :: duration where "DefaultLeafBackdate = 5 * 60 * second"

definition leafBackdate :: "config \<Rightarrow> duration" where
  "leafBackdate c = (if 0 < LeafBackdate c then LeafBackdate c else DefaultLeafBackdate)"

definition leafValidity :: "config \<Rightarrow> duration \<Rightarrow> duration" where
  "leafValidity c ttl =
     (if 0 < ttl then ttl
      else if 0 < LeafValidityDays c then daysDuration (LeafValidityDays c)
      else certValidity)"

definition defaultLeafExtKeyUsage :: "ExtKeyUsage list" where
  "defaultLeafExtKeyUsage = [EKUServerAuth, EKUClientAuth]"

definition aiaExtensions :: "string list \<Rightarrow> Extension list" where
  "aiaExtensions urls =
     (if urls = [] then [] else [\<lparr>extId = OIDAIA, extCritical = False, extValue = DerURLs urls\<rparr>])"

definition indexSerialLocked :: "string \<Rightarrow> string \<Rightarrow> CA \<Rightarrow> CA" where
  "indexSerialLocked serial subject ca =
     ca\<lparr>serialIndex := AList.update serial subject (serialIndex ca), serialIndexEpoch := Suc (serialIndexEpoch ca)\<rparr>"

section \<open>The shared tail\<close>

definition leafTemplate ::
    "config \<Rightarrow> Certificate \<Rightarrow> int \<Rightarrow> gotime \<Rightarrow> duration \<Rightarrow> Name \<Rightarrow> PublicKey \<Rightarrow> SubjectAltNames \<Rightarrow> Extension list
      \<Rightarrow> ExtKeyUsage list \<Rightarrow> CertTemplate" where
  "leafTemplate cfg ca serial now ttl subjectName pubKey sans extra eku =
     \<lparr>tplSerialNumber = serial, tplSubject = subjectName,
      tplNotBefore = now - leafBackdate cfg,
      tplNotAfter = now + min (leafValidity cfg ttl) (time_sub (certNotAfter ca) now),
      tplExtKeyUsage = (if eku = [] then defaultLeafExtKeyUsage else eku),
      tplSubjectKeyId = KeyIdOf pubKey, tplSANs = sans,
      tplCRLDistributionPoints = CRLURLs cfg,
      tplExtraExtensions = aiaExtensions (OCSPURLs cfg) @ extra\<rparr>"

text \<open>
  The certificate, before anything is written: the key policy, the serial, the window
  capped by the CA's own, and the signature.
\<close>

definition signTemplate :: "CertTemplate \<Rightarrow> Certificate \<Rightarrow> PublicKey \<Rightarrow> PublicKey \<Rightarrow> (CertTemplate \<times> Certificate) opr" where
  "signTemplate tpl ca pubKey key =
     bindE acquireSigningSlot (\<lambda>_.
     externalCall (case createCertificate tpl ca pubKey key of
        None \<Rightarrow> Inl (ErrOther ''failed to sign certificate'') | Some cert \<Rightarrow> Inr (tpl, cert)))"

definition mintLeaf ::
    "config \<Rightarrow> Certificate \<Rightarrow> PublicKey \<Rightarrow> Name \<Rightarrow> PublicKey \<Rightarrow> SubjectAltNames \<Rightarrow> Extension list \<Rightarrow> ExtKeyUsage list
      \<Rightarrow> duration \<Rightarrow> (CertTemplate \<times> Certificate) opr" where
  "mintLeaf cfg ca key subjectName pubKey sans extra eku ttl =
     bindE (lift (validatePublicKey pubKey)) (\<lambda>_.
     bindE (randInt (2 ^ 128)) (\<lambda>serialInt.
     bindE timeNow (\<lambda>now.
     if time_sub (certNotAfter ca) now \<le> 0 then fail (ErrOther ''ca certificate has expired'')
     else signTemplate (leafTemplate cfg ca serialInt now ttl subjectName pubKey sans extra eku) ca pubKey key)))"

definition recordLeaf :: "string \<Rightarrow> CertTemplate \<Rightarrow> Certificate \<Rightarrow> Certificate opr" where
  "recordLeaf subject tpl cert =
     bindE (SaveCert subject (PEM cert)) (\<lambda>_.
     let serialStr = serialHexStr (tplSerialNumber tpl) in
     bindE (attempt (AppendInventoryRecord
        (FormatInventoryLine serialStr (tplNotBefore tpl) (tplNotAfter tpl) subject))) (\<lambda>r.
     case r of
       Inl e \<Rightarrow> bindE (attempt (DeleteCert subject)) (\<lambda>_. fail e)
     | Inr _ \<Rightarrow> bindE (changeCA (indexSerialLocked serialStr subject)) (\<lambda>_. ok cert)))"

definition issueLeafLocked ::
    "string \<Rightarrow> Name \<Rightarrow> PublicKey \<Rightarrow> SubjectAltNames \<Rightarrow> Extension list \<Rightarrow> ExtKeyUsage list \<Rightarrow> duration
      \<Rightarrow> Certificate opr" where
  "issueLeafLocked subject subjectName pubKey sans extra eku ttl =
     bindE (getsE (\<lambda>w. (CACert (wCA w), CAKey (wCA w), wConfig w))) (\<lambda>(caCert, caKey, cfg).
     case (caCert, caKey) of
       (Some ca, Some key) \<Rightarrow>
         bindE (mintLeaf cfg ca key subjectName pubKey sans extra eku ttl) (\<lambda>(tpl, cert).
         recordLeaf subject tpl cert)
     | _ \<Rightarrow> fail ErrNotInitialized)"

section \<open>Signing a request\<close>

definition requestsCA :: "CertificateRequest \<Rightarrow> bool" where
  "requestsCA csr =
     list_ex (\<lambda>ext. extId ext = oidBasicConstraints \<and> extValue ext = DerBasicConstraints True) (csrExtensions csr)"

definition signDNSNames :: "config \<Rightarrow> CertificateRequest \<Rightarrow> string list" where
  "signDNSNames cfg csr =
     (let dnsNames = sanDNSNames (sansOf (csrExtensions csr)) in
      if PromoteCNToSAN cfg \<and> dnsNames = [] \<and> nmCommonName (csrSubject csr) \<noteq> []
      then [nmCommonName (csrSubject csr)] else dnsNames)"

definition puppetExtensions :: "CertificateRequest \<Rightarrow> Extension list" where
  "puppetExtensions csr =
     filter (\<lambda>ext. IsPuppetOID (extId ext) \<and> \<not> IsAuthOID (extId ext)) (csrExtensions csr)"

definition signWithDuration :: "string \<Rightarrow> duration \<Rightarrow> Certificate opr" where
  "signWithDuration subject ttl =
     bindE (getsE (\<lambda>w. (CACert (wCA w), CAKey (wCA w), wConfig w))) (\<lambda>(caCert, caKey, cfg).
     if caCert = None \<or> caKey = None then fail ErrNotInitialized
     else
     bindE (lift (ValidateSubject subject)) (\<lambda>_.
     bindE (attempt (GetCSR subject)) (\<lambda>r.
     bindE (lift (case r of Inl e \<Rightarrow> Inl (CSRNotFound e) | Inr x \<Rightarrow> Inr x)) (\<lambda>csrPEM.
     case csrPEM of
       NotPEM \<Rightarrow> fail (ErrOther ''failed to decode CSR PEM'')
     | BadDER \<Rightarrow> fail (ErrOther ''failed to parse CSR'')
     | PEM csr \<Rightarrow>
         if \<not> csrSignatureOk csr then fail (ErrOther ''invalid CSR signature'')
         else if requestsCA csr then fail ErrDisallowedExtensions
         else
         bindE (lift (checkSubjectAltNames (AllowSubjectAltNames cfg) subject csr)) (\<lambda>_.
         bindE (issueLeafLocked subject (csrSubject csr) (csrPublicKey csr)
            (noSANs\<lparr>sanDNSNames := signDNSNames cfg csr\<rparr>) (puppetExtensions csr) [] ttl) (\<lambda>cert.
         bindE (attempt (DeleteCSR subject)) (\<lambda>_.
         ok cert)))))))"

definition sign :: "string \<Rightarrow> Certificate opr" where
  "sign subject = signWithDuration subject 0"

definition SignWithTTL :: "string \<Rightarrow> duration \<Rightarrow> Certificate opr" where
  "SignWithTTL subject ttl =
     bindE (lift (ValidateSubject subject)) (\<lambda>_.
     WithLock (LockSubject subject) (withMu (signWithDuration subject ttl)))"

definition Sign :: "string \<Rightarrow> Certificate opr" where
  "Sign subject =
     bindE (lift (ValidateSubject subject)) (\<lambda>_.
     WithLock (LockSubject subject) (withMu (signWithDuration subject 0)))"

section \<open>Duplicates and the request queue\<close>

definition storedCertLocked :: "string \<Rightarrow> Certificate option opr" where
  "storedCertLocked subject =
     bindE (attempt (GetCert subject)) (\<lambda>r.
     ok (case r of Inr (PEM cert) \<Rightarrow> Some cert | _ \<Rightarrow> None))"

definition revokedLocked :: "Certificate option \<Rightarrow> bool opr" where
  "revokedLocked cert =
     getsE (\<lambda>w. case (cert, cachedCRL (wCA w)) of
       (Some c, Some crl) \<Rightarrow> serialInCRL crl (certSerialNumber c) | _ \<Rightarrow> False)"

definition evictRevokedLocked :: "string \<Rightarrow> unit opr" where
  "evictRevokedLocked subject =
     bindE (HasCert subject) (\<lambda>has.
     if \<not> has then ok ()
     else
       bindE (storedCertLocked subject) (\<lambda>cert.
       bindE (revokedLocked cert) (\<lambda>revoked.
       if \<not> revoked then fail ErrCertExists
       else bindE (attempt (DeleteCert subject)) (\<lambda>_. ok ()))))"

definition checkDuplicateLocked :: "string \<Rightarrow> unit opr" where
  "checkDuplicateLocked subject =
     bindE (CertExists subject) (\<lambda>hasCert.
     bindE (if hasCert then
              bindE (storedCertLocked subject) (\<lambda>held.
              bindE (revokedLocked held) (\<lambda>revoked.
              ok (Some (if revoked then ''revoked'' else ''signed''))))
            else
              bindE (CSRExists subject) (\<lambda>hasCSR.
              ok (if hasCSR then Some ''requested'' else None))) (\<lambda>state.
     bindE (getsE (\<lambda>w. AllowDuplicateCerts (wConfig w))) (\<lambda>allow.
     case state of
       None \<Rightarrow> ok ()
     | Some s \<Rightarrow> if allow then ok () else fail (DuplicateCertError subject s))))"

text \<open>The answer is whether the request was signed at once.\<close>

definition SaveRequest :: "string \<Rightarrow> CertificateRequest pem \<Rightarrow> bool opr" where
  "SaveRequest subject csrPEM =
     bindE (lift (ValidateSubject subject)) (\<lambda>_.
     case csrPEM of
       NotPEM \<Rightarrow> fail (ErrOther ''failed to decode CSR PEM'')
     | BadDER \<Rightarrow> fail (ErrOther ''failed to parse CSR'')
     | PEM csr \<Rightarrow>
         if \<not> csrSignatureOk csr then fail (ErrOther ''invalid CSR signature'')
         else if nmCommonName (csrSubject csr) \<noteq> subject then fail (ErrOther ''instance name does not match requested key'')
         else
         WithLock (LockSubject subject) (withMu (
           bindE (checkDuplicateLocked subject) (\<lambda>_.
           bindE (SaveCSR subject csrPEM) (\<lambda>_.
           bindE (getsE (\<lambda>w. CheckAutosign (autosignHostOf (wConfig w)) (autosignConfig (wConfig w)) csr)) (\<lambda>verdict.
           bindE (lift verdict) (\<lambda>shouldSign.
           if shouldSign then bindE (sign subject) (\<lambda>_. ok True) else ok False)))))))"

definition DeleteRequest :: "string \<Rightarrow> unit opr" where
  "DeleteRequest subject =
     bindE (lift (ValidateSubject subject)) (\<lambda>_.
     WithLock (LockSubject subject) (
       bindE (attempt (DeleteCSR subject)) (\<lambda>r.
       case r of
         Inr _ \<Rightarrow> ok ()
       | Inl e \<Rightarrow> if errors_is e ErrNotExist then fail ErrNoCSR else fail e)))"

section \<open>Renewal\<close>

definition assertOwnCertificate :: "Certificate \<Rightarrow> unit opr" where
  "assertOwnCertificate cert =
     bindE (getsE (\<lambda>w. CACert (wCA w))) (\<lambda>caCert.
     case caCert of
       None \<Rightarrow> fail ErrNotInitialized
     | Some ca \<Rightarrow> if certSignedBy ca cert then ok () else fail ErrForeignCertificate)"

definition refuseIfRevoked :: "Certificate option \<Rightarrow> string \<Rightarrow> unit opr" where
  "refuseIfRevoked presentedCert subject =
     (case presentedCert of
        None \<Rightarrow> ok ()
      | Some cert \<Rightarrow>
          bindE (attempt SyncCRLCache) (\<lambda>_.
          bindE (IsRevokedSerial (certSerialNumber cert)) (\<lambda>revoked.
          if revoked then fail ErrCertRevoked else refuseIfSuperseded presentedCert subject)))"

definition renewalRefreshedExtensions :: "oid list" where
  "renewalRefreshedExtensions =
     [oidAuthorityKeyId, oidSubjectKeyId, oidCRLDistributionPoints, OIDAIA, oidBasicConstraints]"

definition carriedExtensions :: "Certificate \<Rightarrow> Extension list" where
  "carriedExtensions original =
     filter (\<lambda>ext. extId ext \<notin> set renewalRefreshedExtensions) (certExtensions original)"

definition reissueLeafLocked :: "string \<Rightarrow> Certificate \<Rightarrow> PublicKey \<Rightarrow> Certificate opr" where
  "reissueLeafLocked subject original pubKey =
     issueLeafLocked subject (certSubject original) pubKey noSANs (carriedExtensions original) [] 0"

definition existingSerial :: "string \<Rightarrow> string option opr" where
  "existingSerial subject =
     bindE (attempt (LatestSerialForSubject subject)) (\<lambda>r.
     case r of
       Inr s \<Rightarrow> ok (Some s)
     | Inl e \<Rightarrow> if errors_is e ErrNotExist then ok None else fail e)"

text \<open>The sections of Renew and AutoRenew under the subject's lock.\<close>

definition retireReplaced :: "string \<Rightarrow> string option \<Rightarrow> Certificate \<Rightarrow> Certificate opr" where
  "retireReplaced subject oldSerial cert =
     (case oldSerial of
        None \<Rightarrow> ok cert
      | Some old \<Rightarrow> bindE (attempt (supersedeReplaced subject old)) (\<lambda>_. ok cert))"

definition renewUnderLock :: "string \<Rightarrow> Certificate \<Rightarrow> CertificateRequest \<Rightarrow> Certificate opr" where
  "renewUnderLock subject presented csr =
     bindE (refuseIfRevoked (Some presented) subject) (\<lambda>_.
     bindE (existingSerial subject) (\<lambda>oldSerial.
     bindE (withMu (
       bindE (reissueLeafLocked subject presented (csrPublicKey csr)) (\<lambda>cert.
       bindE (attempt (DeleteCSR subject)) (\<lambda>_. ok cert)))) (\<lambda>cert.
     retireReplaced subject oldSerial cert)))"

definition autoRenewUnderLock :: "string \<Rightarrow> Certificate \<Rightarrow> Certificate opr" where
  "autoRenewUnderLock subject presented =
     bindE (refuseIfRevoked (Some presented) subject) (\<lambda>_.
     bindE (withMu (reissueLeafLocked subject presented (certPublicKey presented))) (\<lambda>cert.
     bindE (getsE (\<lambda>w. RevokeOnAutoRenew (wConfig w))) (\<lambda>retire.
     retireReplaced subject (if retire then Some (serialHexStr (certSerialNumber presented)) else None) cert)))"

definition Renew :: "string \<Rightarrow> CertificateRequest pem \<Rightarrow> Certificate option \<Rightarrow> Certificate opr" where
  "Renew subject csrPEM presentedCert =
     (case presentedCert of
        None \<Rightarrow> fail ErrForeignCertificate
      | Some presented \<Rightarrow>
          bindE (assertOwnCertificate presented) (\<lambda>_.
          bindE (refuseIfRevoked presentedCert subject) (\<lambda>_.
          if nmCommonName (certSubject presented) \<noteq> subject then fail ErrRenewalSubjectMismatch
          else
          bindE (lift (ValidateSubject subject)) (\<lambda>_.
          case csrPEM of
            NotPEM \<Rightarrow> fail (ErrOther ''failed to decode CSR PEM'')
          | BadDER \<Rightarrow> fail (ErrOther ''failed to parse CSR'')
          | PEM csr \<Rightarrow>
              if \<not> csrSignatureOk csr then fail (ErrOther ''invalid CSR signature'')
              else if nmCommonName (csrSubject csr) \<noteq> subject then fail (ErrOther ''CSR CN does not match subject'')
              else
              WithLock (LockSubject subject) (renewUnderLock subject presented csr)))))"

definition AutoRenew :: "Certificate option \<Rightarrow> Certificate opr" where
  "AutoRenew presentedCert =
     (case presentedCert of
        None \<Rightarrow> fail ErrForeignCertificate
      | Some presented \<Rightarrow>
          bindE (assertOwnCertificate presented) (\<lambda>_.
          let subject = nmCommonName (certSubject presented) in
          bindE (lift (ValidateSubject subject)) (\<lambda>_.
          bindE (refuseIfRevoked presentedCert subject) (\<lambda>_.
          WithLock (LockSubject subject) (autoRenewUnderLock subject presented)))))"

section \<open>Cleaning\<close>

definition Clean :: "string \<Rightarrow> unit opr" where
  "Clean subject =
     bindE (lift (ValidateSubject subject)) (\<lambda>_.
     WithLock (LockSubject subject) (
       bindE (HasCert subject) (\<lambda>hasCert.
       bindE (HasCSR subject) (\<lambda>hasCSR.
       if \<not> hasCert \<and> \<not> hasCSR then fail ErrNotFound
       else
         bindE (if hasCert then
                  bindE (attempt (WithLock LockCRL (withMu (revokeLocked subject)))) (\<lambda>_.
                  bindE (attempt (DeleteCert subject)) (\<lambda>_. ok ()))
                else ok ()) (\<lambda>_.
         if hasCSR then bindE (attempt (DeleteCSR subject)) (\<lambda>_. ok ()) else ok ())))))"

section \<open>Many at once\<close>

record SignResult =
  srSigned :: "string list"
  srNoCSR :: "string list"
  srSigningErrors :: "string list"

fun signEach :: "SignResult \<Rightarrow> string list \<Rightarrow> SignResult opr" where
  "signEach result [] = ok result"
| "signEach result (subject # subjects) =
     bindE (HasCSR subject) (\<lambda>has.
     if \<not> has then signEach (result\<lparr>srNoCSR := srNoCSR result @ [subject]\<rparr>) subjects
     else
       bindE (attempt (Sign subject)) (\<lambda>r.
       case r of
         Inl _ \<Rightarrow> signEach (result\<lparr>srSigningErrors := srSigningErrors result @ [subject]\<rparr>) subjects
       | Inr _ \<Rightarrow> signEach (result\<lparr>srSigned := srSigned result @ [subject]\<rparr>) subjects))"

definition SignMultiple :: "string list \<Rightarrow> SignResult opr" where
  "SignMultiple subjects = signEach \<lparr>srSigned = [], srNoCSR = [], srSigningErrors = []\<rparr> subjects"

definition SignAll :: "SignResult opr" where
  "SignAll = bindE ListCSRs SignMultiple"

record CleanResult =
  crCleaned :: "string list"
  crNotFound :: "string list"
  crCleanErrors :: "string list"

fun cleanEach :: "CleanResult \<Rightarrow> string list \<Rightarrow> CleanResult opr" where
  "cleanEach result [] = ok result"
| "cleanEach result (subject # subjects) =
     bindE (attempt (Clean subject)) (\<lambda>r.
     case r of
       Inl e \<Rightarrow>
         if errors_is e ErrNotFound
         then cleanEach (result\<lparr>crNotFound := crNotFound result @ [subject]\<rparr>) subjects
         else cleanEach (result\<lparr>crCleanErrors := crCleanErrors result @ [subject]\<rparr>) subjects
     | Inr _ \<Rightarrow> cleanEach (result\<lparr>crCleaned := crCleaned result @ [subject]\<rparr>) subjects)"

definition CleanMultiple :: "string list \<Rightarrow> CleanResult opr" where
  "CleanMultiple subjects = cleanEach \<lparr>crCleaned = [], crNotFound = [], crCleanErrors = []\<rparr> subjects"

section \<open>What issuing leaves alone\<close>

text \<open>The revocation list, its cache, the pending list and the CA's identity.\<close>

definition issueFrame :: "world \<Rightarrow> world \<Rightarrow> bool" where
  "issueFrame w v = (crlFrame w v \<and> stSuperseded (wStore v) = stSuperseded (wStore w)
     \<and> stCACert (wStore v) = stCACert (wStore w))"

interpretation isf: step_relation issueFrame
  by unfold_locales (auto simp: issueFrame_def crlFrame_def sameId_def sameState_def)

lemma issue_quiet: "state_io_rel quiet m \<Longrightarrow> state_io_rel issueFrame m"
  unfolding state_io_rel_def issueFrame_def using quiet_frame by (fastforce simp: quiet_def)

lemma issue_inv: "state_io_rel invFrame m \<Longrightarrow> state_io_rel issueFrame m"
  unfolding state_io_rel_def issueFrame_def invFrame_def crlFrame_def sameId_def by fastforce

lemma issue_writes:
  "state_io_rel issueFrame (SaveCert s c)" "state_io_rel issueFrame (DeleteCert s)"
  "state_io_rel issueFrame (SaveCSR s q)" "state_io_rel issueFrame (DeleteCSR s)"
  unfolding SaveCert_def DeleteCert_def SaveCSR_def DeleteCSR_def
  by (rule isf.io_backendWrite; auto simp: issueFrame_def crlFrame_def sameId_def dest!: sym [of _ "wStore v" for v])+

lemma quiet_has: "state_io_rel quiet (HasCert s)" "state_io_rel quiet (HasCSR s)"
  unfolding HasCert_def HasCSR_def orFalse_def by (intro quiet_io)+

lemma issue_index: "state_io_rel issueFrame (changeCA (indexSerialLocked s t))"
  by (rule isf.io_changeCA) (simp add: issueFrame_def crlFrame_def sameId_def indexSerialLocked_def)

lemma quiet_mint: "state_io_rel quiet (mintLeaf cfg ca key n k sans ext eku ttl)"
  unfolding mintLeaf_def signTemplate_def by (auto intro!: quiet_io quiet_slot)

lemmas issue_io = isf.io issue_writes issue_index issue_quiet [OF quiet_mint] issue_quiet [OF quiet_has(1)]
  issue_quiet [OF quiet_has(2)] issue_inv [OF inv_append] quiet_reads [THEN issue_quiet]

lemma issue_leaf: "state_io_rel issueFrame (issueLeafLocked s n k sans ext eku ttl)"
  unfolding issueLeafLocked_def recordLeaf_def
  by (auto intro!: issue_io simp: Let_def split: sum.splits option.splits)

lemma issue_sign: "state_io_rel issueFrame (signWithDuration s ttl)"
  unfolding signWithDuration_def by (auto intro!: issue_io issue_leaf split: pem.splits)

lemma issue_Sign: "state_io_rel issueFrame (Sign s)" "state_io_rel issueFrame (SignWithTTL s ttl)"
  unfolding Sign_def SignWithTTL_def by (intro issue_io issue_sign)+

lemma issue_duplicate: "state_io_rel issueFrame (checkDuplicateLocked s)"
    "state_io_rel issueFrame (storedCertLocked s)" "state_io_rel issueFrame (revokedLocked c)"
  unfolding checkDuplicateLocked_def storedCertLocked_def revokedLocked_def
  by (auto intro!: issue_io split: option.splits)

lemma issue_evict: "state_io_rel issueFrame (evictRevokedLocked s)"
  unfolding evictRevokedLocked_def by (auto intro!: issue_io issue_duplicate)

lemma issue_SaveRequest: "state_io_rel issueFrame (SaveRequest s q)"
  unfolding SaveRequest_def sign_def by (auto intro!: issue_io issue_duplicate issue_sign split: pem.splits)

lemma issue_DeleteRequest: "state_io_rel issueFrame (DeleteRequest s)"
  unfolding DeleteRequest_def by (auto intro!: issue_io split: sum.splits)

lemma issue_signEach: "state_io_rel issueFrame (signEach res ss)"
  by (induction res ss rule: signEach.induct) (auto intro!: issue_io issue_Sign split: sum.splits)

lemma issue_SignAll: "state_io_rel issueFrame (SignMultiple ss)" "state_io_rel issueFrame SignAll"
  unfolding SignAll_def SignMultiple_def by (intro issue_io issue_signEach)+

lemma owes_issue: "state_io_rel issueFrame m \<Longrightarrow> state_io_rel owes m"
  unfolding state_io_rel_def issueFrame_def owes_def accounted_def pending_def
  using crlFrame_step by fastforce

lemma step_refuseIfRevoked: "state_io_rel (crlStep D) (refuseIfRevoked cert s)"
  unfolding refuseIfRevoked_def IsRevokedSerial_def
  by (auto intro!: cs.io step_SyncCRLCache quiet_is_step [OF quiet_refuse] split: option.splits)

lemma other_SyncCRLCache: "state_io_rel otherSame SyncCRLCache"
  unfolding SyncCRLCache_def syncFrom_def
  by (auto intro!: os.io other_changeCA quiet_reads [THEN quiet_other] quiet_count [THEN quiet_other]
      simp: Let_def split: sum.splits option.splits)

lemma owes_refuseIfRevoked: "state_io_rel owes (refuseIfRevoked cert s)"
proof (rule owes_other [OF step_refuseIfRevoked])
  show "state_io_rel otherSame (refuseIfRevoked cert s)"
    unfolding refuseIfRevoked_def IsRevokedSerial_def
    by (auto intro!: os.io other_SyncCRLCache quiet_other [OF quiet_refuse] split: option.splits)
qed

lemma quiet_assertOwn: "state_io_rel quiet (assertOwnCertificate c)"
  unfolding assertOwnCertificate_def by (auto intro!: quiet_io split: option.splits)

lemma inv_existing: "state_io_rel invFrame (existingSerial s)"
  unfolding existingSerial_def by (auto intro!: inv.io inv_latest split: sum.splits)

lemmas owes_io = ow.io owes_refuseIfRevoked owes_quiet [OF quiet_assertOwn] owes_inv [OF inv_existing]
  owes_supersedeReplaced owes_issue [OF issue_leaf] issue_writes [THEN owes_issue]
  owes_quiet [OF quiet_has(1)] owes_quiet [OF quiet_has(2)]

lemma owes_Renew: "state_io_rel owes (Renew s q cert)"
  unfolding Renew_def renewUnderLock_def retireReplaced_def reissueLeafLocked_def
  by (auto intro!: owes_io split: option.splits pem.splits)

lemma owes_AutoRenew: "state_io_rel owes (AutoRenew cert)"
  unfolding AutoRenew_def autoRenewUnderLock_def retireReplaced_def reissueLeafLocked_def
  by (auto intro!: owes_io simp: Let_def split: option.splits)

lemma owes_revokeLocked: "state_io_rel owes (revokeLocked s)"
  unfolding revokeLocked_def findSerialForSubject_def
  by (auto intro!: ow.io owes_retire owes_inv [OF inv_latest] owes_quiet [OF quiet_count(1)]
      owes_revokeSerial split: sum.splits)

lemma owes_Clean: "state_io_rel owes (Clean s)"
  unfolding Clean_def by (auto intro!: owes_io owes_revokeLocked)

lemma owes_cleanEach: "state_io_rel owes (cleanEach res ss)"
  by (induction res ss rule: cleanEach.induct) (auto intro!: owes_io owes_Clean split: sum.splits)

lemma owes_CleanMultiple: "state_io_rel owes (CleanMultiple ss)"
  unfolding CleanMultiple_def by (rule owes_cleanEach)

section \<open>A minted certificate\<close>

text \<open>What the shared tail signs, in the state it signs in.\<close>

definition minted ::
    "world \<Rightarrow> Name \<Rightarrow> PublicKey \<Rightarrow> SubjectAltNames \<Rightarrow> Extension list \<Rightarrow> ExtKeyUsage list \<Rightarrow> duration
      \<Rightarrow> CertTemplate \<Rightarrow> Certificate \<Rightarrow> bool" where
  "minted w n pub sans extra eku ttl tpl cert = (\<exists>ca key now serial.
     CACert (wCA w) = Some ca \<and> CAKey (wCA w) = Some key \<and> validatePublicKey pub = Inr ()
     \<and> 0 \<le> serial \<and> serial < 2 ^ 128 \<and> 0 < time_sub (certNotAfter ca) now
     \<and> tpl = leafTemplate (wConfig w) ca serial now ttl n pub sans extra eku
     \<and> createCertificate tpl ca pub key = Some cert)"

lemma randInt_ok:
  assumes "run_state (randInt k) w = (Inr n, v)" "0 < k"
  shows "0 \<le> n" "n < int k"
  using assms by (auto simp: randInt_def split: list.splits)

lemma signTemplate_ok:
  assumes "run_state (signTemplate tpl ca pub key) w = (Inr (tpl', cert), v)"
  shows "tpl' = tpl" "createCertificate tpl ca pub key = Some cert"
  using assms by (auto simp: signTemplate_def elim!: bindE_okE dest!: externalCall_ok split: option.splits)

lemma mintLeaf_ok:
  assumes "run_state (mintLeaf (wConfig w) ca key n pub sans extra eku ttl) w = (Inr (tpl, cert), v)"
    and "CACert (wCA w) = Some ca" "CAKey (wCA w) = Some key"
  shows "minted w n pub sans extra eku ttl tpl cert"
proof -
  from assms(1) obtain serial now u1 u2 u3 where v: "validatePublicKey pub = Inr ()"
    and s: "run_state (randInt (2 ^ 128)) u1 = (Inr serial, u2)" and "0 < time_sub (certNotAfter ca) now"
    and t: "run_state (signTemplate (leafTemplate (wConfig w) ca serial now ttl n pub sans extra eku) ca pub key) u3
      = (Inr (tpl, cert), v)"
    unfolding mintLeaf_def by (elim bindE_okE) (force simp: not_le split: if_splits)
  then show ?thesis
    using assms(2,3) randInt_ok [OF s] signTemplate_ok [OF t] unfolding minted_def by auto
qed

lemma time_sub_le: "0 < time_sub t u \<Longrightarrow> time_sub t u \<le> t - u"
  by (simp add: time_sub_def)

lemma trunc_sec_le: "trunc_sec t \<le> t"
  by (simp add: trunc_sec_def second_def minus_mod_eq_div_mult [symmetric])

lemma trunc_sec_mono: "t \<le> u \<Longrightarrow> trunc_sec t \<le> trunc_sec u"
  by (simp add: trunc_sec_def second_def zdiv_mono1)

lemma mintedE:
  assumes "minted w n pub sans extra eku ttl tpl cert"
  obtains ca key now serial where "CACert (wCA w) = Some ca" "CAKey (wCA w) = Some key"
    "validatePublicKey pub = Inr ()" "0 \<le> serial" "serial < 2 ^ 128" "0 < time_sub (certNotAfter ca) now"
    "tpl = leafTemplate (wConfig w) ca serial now ttl n pub sans extra eku" "key = certPublicKey ca"
    "cert = \<lparr>certVersion = 3, certSerialNumber = serial, certIssuer = certSubject ca, certSubject = encodeName n,
        certNotBefore = trunc_sec (tplNotBefore tpl), certNotAfter = trunc_sec (tplNotAfter tpl),
        certPublicKey = pub, certExtensions = leafExtensions tpl ca, certSigKey = key\<rparr>"
proof -
  from assms obtain ca key now serial where "CACert (wCA w) = Some ca" "CAKey (wCA w) = Some key"
    "validatePublicKey pub = Inr ()" "0 \<le> serial" "serial < 2 ^ 128" "0 < time_sub (certNotAfter ca) now"
    "tpl = leafTemplate (wConfig w) ca serial now ttl n pub sans extra eku"
    "createCertificate tpl ca pub key = Some cert"
    unfolding minted_def by blast
  then show ?thesis using that [of ca key serial now]
    by (simp add: createCertificate_def leafTemplate_def split: if_splits)
qed

lemma minted_fields:
  assumes "minted w n pub sans extra eku ttl tpl cert"
  shows "certPublicKey cert = pub" "certSubject cert = encodeName n" "validatePublicKey pub = Inr ()"
    "0 \<le> certSerialNumber cert" "certSerialNumber cert < 2 ^ 128" "tplSerialNumber tpl = certSerialNumber cert"
  using assms by (auto elim!: mintedE simp: leafTemplate_def)

lemma minted_window:
  assumes "minted w n pub sans extra eku ttl tpl cert" "CACert (wCA w) = Some ca"
  shows "certNotAfter cert \<le> certNotAfter ca" "certSigKey cert = certPublicKey ca"
proof -
  have *: "trunc_sec (now + min a (time_sub t now)) \<le> t" if "0 < time_sub t now" for now a t
    using time_sub_le [OF that] trunc_sec_le [of "now + min a (time_sub t now)"] by simp
  show "certNotAfter cert \<le> certNotAfter ca" "certSigKey cert = certPublicKey ca"
    using assms * by (auto elim!: mintedE simp: leafTemplate_def)
qed

text \<open>Every extension is one the CA writes itself or one of the extra ones.\<close>

definition caWritten :: "oid set" where
  "caWritten = {oidKeyUsage, oidExtKeyUsage, oidBasicConstraints, oidSubjectKeyId, oidAuthorityKeyId,
     oidSubjectAltName, oidCRLDistributionPoints, OIDAIA}"

lemma leafExtensions_mem:
  "set (tplExtraExtensions t) \<subseteq> set (leafExtensions t ca)"
  "e \<in> set (leafExtensions t ca) \<Longrightarrow> e \<in> set (tplExtraExtensions t) \<or> extId e \<in> caWritten"
  by (auto simp: leafExtensions_def Let_def caWritten_def split: if_splits option.splits)

lemma aia_mem: "e \<in> set (aiaExtensions urls) \<Longrightarrow> extId e = OIDAIA"
  by (auto simp: aiaExtensions_def split: if_splits)

lemma leafTemplate_parts [simp]:
  "tplExtraExtensions (leafTemplate cfg ca serial now ttl n pub sans extra eku) = aiaExtensions (OCSPURLs cfg) @ extra"
  "tplSANs (leafTemplate cfg ca serial now ttl n pub sans extra eku) = sans"
  by (simp_all add: leafTemplate_def)

lemma minted_extsE:
  assumes "minted w n pub sans extra eku ttl tpl cert"
  obtains ca where "certExtensions cert = leafExtensions tpl ca" "tplSANs tpl = sans"
    "tplExtraExtensions tpl = aiaExtensions (OCSPURLs (wConfig w)) @ extra"
  using assms that by (elim mintedE) simp

lemma minted_exts:
  assumes "minted w n pub sans extra eku ttl tpl cert"
  shows "set extra \<subseteq> set (certExtensions cert)"
    "e \<in> set (certExtensions cert) \<Longrightarrow> e \<in> set extra \<or> extId e \<in> caWritten"
proof -
  from assms obtain ca where c: "certExtensions cert = leafExtensions tpl ca"
    and t: "tplExtraExtensions tpl = aiaExtensions (OCSPURLs (wConfig w)) @ extra"
    by (rule minted_extsE)
  have "OIDAIA \<in> caWritten" by (simp add: caWritten_def)
  then show "set extra \<subseteq> set (certExtensions cert)"
    "e \<in> set (certExtensions cert) \<Longrightarrow> e \<in> set extra \<or> extId e \<in> caWritten"
    using leafExtensions_mem [where t = tpl and ca = ca] aia_mem t unfolding c by fastforce+
qed

text \<open>The value of an extension the extra ones do not carry is the one the CA writes.\<close>

lemma find_none_ids: "i \<notin> extId ` set es \<Longrightarrow> find (\<lambda>e. extId e = i) es = None"
  by (auto simp: find_None_iff)

lemma find_append: "find P (xs @ ys) = (case find P xs of None \<Rightarrow> find P ys | Some x \<Rightarrow> Some x)"
  by (induction xs) auto

lemma oid_distinct [simp]:
  "oidKeyUsage \<noteq> oidBasicConstraints" "oidExtKeyUsage \<noteq> oidBasicConstraints" "OIDAIA \<noteq> oidBasicConstraints"
  "oidBasicConstraints \<noteq> oidSubjectAltName" "oidSubjectKeyId \<noteq> oidSubjectAltName"
  "oidAuthorityKeyId \<noteq> oidSubjectAltName" "oidKeyUsage \<noteq> oidSubjectAltName"
  "oidExtKeyUsage \<noteq> oidSubjectAltName" "oidCRLDistributionPoints \<noteq> oidSubjectAltName" "OIDAIA \<noteq> oidSubjectAltName"
  "oidBasicConstraints \<noteq> OIDAIA" "oidSubjectAltName \<noteq> OIDAIA"
  by (simp_all add: oid_defs OIDAIA_def)

lemma leafExtensions_bc:
  "oidBasicConstraints \<notin> extId ` set (tplExtraExtensions t) \<Longrightarrow>
     extValueOf oidBasicConstraints (leafExtensions t ca) = Some (DerBasicConstraints False)"
  by (simp add: leafExtensions_def extValueOf_def Let_def find_append)

lemma leafExtensions_san:
  assumes "oidSubjectAltName \<notin> extId ` set (tplExtraExtensions t)"
  shows "sansOf (leafExtensions t ca) = tplSANs t"
proof -
  have "find (\<lambda>e. extId e = oidSubjectAltName) (rev (tplExtraExtensions t)) = None"
    by (rule find_none_ids) (simp add: assms)
  then show ?thesis using assms
    by (simp add: leafExtensions_def sansOf_def extValueOf_def Let_def find_append split: option.splits)
qed

lemma minted_leaf:
  assumes "minted w n pub sans extra eku ttl tpl cert" "oidBasicConstraints \<notin> extId ` set extra"
  shows "certBasicConstraints cert = Some False"
proof -
  have "oidBasicConstraints \<notin> extId ` set (aiaExtensions urls @ extra)" for urls
    using assms(2) by (auto simp: aiaExtensions_def split: if_splits)
  then show ?thesis using assms(1) by (elim minted_extsE) (simp add: certBasicConstraints_def leafExtensions_bc)
qed

lemma minted_sans:
  assumes "minted w n pub sans extra eku ttl tpl cert" "oidSubjectAltName \<notin> extId ` set extra"
  shows "sansOf (certExtensions cert) = sans"
proof -
  have "oidSubjectAltName \<notin> extId ` set (aiaExtensions urls @ extra)" for urls
    using assms(2) by (auto simp: aiaExtensions_def split: if_splits)
  then show ?thesis using assms(1) by (elim minted_extsE) (simp add: leafExtensions_san)
qed

section \<open>What a successful issuance leaves\<close>

definition leafEntry :: "string \<Rightarrow> CertTemplate \<Rightarrow> InventoryEntry" where
  "leafEntry subject tpl = \<lparr>ieSerial = serialHexStr (tplSerialNumber tpl),
     ieNotBefore = format_time (tplNotBefore tpl), ieNotAfter = format_time (tplNotAfter tpl), ieSubject = subject\<rparr>"

lemma leafEntry_ok:
  "ValidateSubject subject = Inr () \<Longrightarrow> 0 \<le> tplSerialNumber tpl \<Longrightarrow> entryOk (leafEntry subject tpl)"
  using ValidateSubject_plain [of subject] ValidateSubject_chars(1) [of subject] ValidateSubject_safe [of subject]
  by (auto simp: entryOk_def leafEntry_def)

lemma invOk_cong:
  "stInventory st' = stInventory st \<Longrightarrow> invOk st' = invOk st"
  "stInventory st' = stInventory st \<Longrightarrow> appended e st' st'' = appended e st st''"
  by (simp_all add: invOk_def appended_def storeEntries_def storeBlob_def isChained_def)

text \<open>
  A recorded certificate is the one stored for its subject, the one the index names, and
  one new inventory entry.
\<close>

lemma recordLeaf_ok:
  assumes run: "run_state (recordLeaf subject tpl cert) w = (Inr c, v)"
    and s: "ValidateSubject subject = Inr ()" "0 \<le> tplSerialNumber tpl"
  shows "c = cert" "map_of (stCerts (wStore v)) subject = Some (PEM cert)"
    "map_of (serialIndex (wCA v)) (serialHexStr (tplSerialNumber tpl)) = Some subject"
    "stCSRs (wStore v) = stCSRs (wStore w)"
    "invOk (wStore w) \<Longrightarrow> appended (leafEntry subject tpl) (wStore w) (wStore v)"
proof -
  let ?e = "leafEntry subject tpl"
  from run obtain u x r where u: "run_state (SaveCert subject (PEM cert)) w = (Inr (), u)"
    and x: "run_state (AppendInventoryRecord (canonicalInventoryLine ?e)) u = (r, x)"
    and t: "run_state (case r of Inl e \<Rightarrow> bindE (attempt (DeleteCert subject)) (\<lambda>_. fail e)
        | Inr _ \<Rightarrow> bindE (changeCA (indexSerialLocked (serialHexStr (tplSerialNumber tpl)) subject)) (\<lambda>_. ok cert)) x
      = (Inr c, v)"
    unfolding recordLeaf_def FormatInventoryLine_def leafEntry_def Let_def
    by (auto elim!: bindE_okE attemptE)
  have "r = Inr () \<and> c = cert \<and> v = updCA (indexSerialLocked (serialHexStr (tplSerialNumber tpl)) subject) x"
    using t by (cases r) (auto simp: run_bindE run_attempt split: prod.splits)
  note rv = this
  have st: "wStore u = (wStore w)\<lparr>stCerts := AList.update subject (PEM cert) (stCerts (wStore w))\<rparr>"
    using u unfolding SaveCert_def by (cases rule: backendPut_cases) auto
  have f: "invFrame u x" by (rule state_io_relD [OF inv_append x])
  show "c = cert" using rv by simp
  show "map_of (stCerts (wStore v)) subject = Some (PEM cert)" "stCSRs (wStore v) = stCSRs (wStore w)"
    "map_of (serialIndex (wCA v)) (serialHexStr (tplSerialNumber tpl)) = Some subject"
    using rv st f by (simp_all add: invFrame_def update_conv' indexSerialLocked_def)
  assume "invOk (wStore w)"
  moreover have inv: "stInventory (wStore u) = stInventory (wStore w)" using st by simp
  ultimately have "invOk (wStore u)" by (simp only: invOk_cong(1) [OF inv])
  then have "appended ?e (wStore u) (wStore x)"
    using x rv by (intro append_ok leafEntry_ok [OF s]) simp_all
  then show "appended (leafEntry subject tpl) (wStore w) (wStore v)"
    using rv by (simp only: invOk_cong(2) [OF inv] upd_simps)
qed

lemma issueLeaf_ok:
  assumes run: "run_state (issueLeafLocked subject n pub sans extra eku ttl) w = (Inr cert, v)"
    and s: "ValidateSubject subject = Inr ()"
  obtains tpl where "minted w n pub sans extra eku ttl tpl cert"
    "map_of (stCerts (wStore v)) subject = Some (PEM cert)"
    "map_of (serialIndex (wCA v)) (serialHexStr (certSerialNumber cert)) = Some subject"
    "stCSRs (wStore v) = stCSRs (wStore w)"
    "invOk (wStore w) \<longrightarrow> appended (leafEntry subject tpl) (wStore w) (wStore v)"
proof -
  obtain ca key where ck: "CACert (wCA w) = Some ca" "CAKey (wCA w) = Some key"
    using run by (auto simp: issueLeafLocked_def run_bindE split: option.splits)
  with run have "run_state (bindE (mintLeaf (wConfig w) ca key n pub sans extra eku ttl)
      (\<lambda>(tpl, cert). recordLeaf subject tpl cert)) w = (Inr cert, v)"
    by (simp add: issueLeafLocked_def run_bindE [of "getsE f" for f])
  then obtain tpl c u where m: "run_state (mintLeaf (wConfig w) ca key n pub sans extra eku ttl) w = (Inr (tpl, c), u)"
    and r: "run_state (recordLeaf subject tpl c) u = (Inr cert, v)"
    by (rule bindE_okE) auto
  have mt: "minted w n pub sans extra eku ttl tpl c" by (rule mintLeaf_ok [OF m ck])
  have q: "quiet w u" by (rule state_io_relD [OF quiet_mint m])
  have "0 \<le> tplSerialNumber tpl" using minted_fields(4,6) [OF mt] by simp
  note rec = recordLeaf_ok [OF r s this]
  show ?thesis
    using that [of tpl] mt rec q minted_fields(6) [OF mt] by (simp add: quiet_def)
qed

lemma signWithDuration_ok:
  assumes run: "run_state (signWithDuration subject ttl) w = (Inr cert, v)"
  obtains csr tpl where "map_of (stCSRs (wStore w)) subject = Some (PEM csr)" "csrSignatureOk csr"
    "ValidateSubject subject = Inr ()" "checkSubjectAltNames (AllowSubjectAltNames (wConfig w)) subject csr = Inr ()"
    "minted w (csrSubject csr) (csrPublicKey csr) (noSANs\<lparr>sanDNSNames := signDNSNames (wConfig w) csr\<rparr>)
       (puppetExtensions csr) [] ttl tpl cert"
    "map_of (stCerts (wStore v)) subject = Some (PEM cert)"
    "map_of (serialIndex (wCA v)) (serialHexStr (certSerialNumber cert)) = Some subject"
    "invOk (wStore w) \<longrightarrow> appended (leafEntry subject tpl) (wStore w) (wStore v)"
proof -
  let ?issue = "\<lambda>csr. issueLeafLocked subject (csrSubject csr) (csrPublicKey csr)
        (noSANs\<lparr>sanDNSNames := signDNSNames (wConfig w) csr\<rparr>) (puppetExtensions csr) [] ttl"
  from run obtain p u x y csr where vs: "ValidateSubject subject = Inr ()"
    and g: "run_state (GetCSR subject) w = (Inr p, u)" and p: "p = PEM csr" "csrSignatureOk csr"
    and san: "checkSubjectAltNames (AllowSubjectAltNames (wConfig w)) subject csr = Inr ()"
    and i: "run_state (?issue csr) u = (Inr cert, x)"
    and d: "run_state (DeleteCSR subject) x = (y, v)"
    unfolding signWithDuration_def
    by (elim bindE_okE) (auto split: if_splits pem.splits sum.splits elim!: bindE_okE attemptE)
  have s: "sameState w u" using g unfolding GetCSR_def by (rule backendRead_same)
  have c: "map_of (stCSRs (wStore w)) subject = Some (PEM csr)"
    using g p(1) unfolding GetCSR_def
    by (auto dest!: backendRead_ok simp: lookupE_def split: option.splits)
  have del: "stCerts (wStore v) = stCerts (wStore x)" "wCA v = wCA x" "stInventory (wStore v) = stInventory (wStore x)"
    using d unfolding DeleteCSR_def
    by (auto elim!: backendWrite_cases simp: sameState_def dest!: sym [of _ "wStore v"])
  from i vs obtain tpl where t: "minted u (csrSubject csr) (csrPublicKey csr) (noSANs\<lparr>sanDNSNames := signDNSNames (wConfig w) csr\<rparr>)
       (puppetExtensions csr) [] ttl tpl cert"
    "map_of (stCerts (wStore x)) subject = Some (PEM cert)"
    "map_of (serialIndex (wCA x)) (serialHexStr (certSerialNumber cert)) = Some subject"
    "stCSRs (wStore x) = stCSRs (wStore u)"
    "invOk (wStore u) \<longrightarrow> appended (leafEntry subject tpl) (wStore u) (wStore x)"
    by (rule issueLeaf_ok)
  have "minted w = minted u" using s by (intro ext) (simp add: minted_def sameState_def)
  moreover have "appended e st (wStore v) = appended e st (wStore x)" for e st
    using del(3) by (simp add: appended_def storeEntries_def invOk_def storeBlob_def isChained_def)
  ultimately show ?thesis using that [of csr tpl] c p(2) vs san t del s by (simp add: sameState_def)
qed

section \<open>What a successful renewal has established\<close>

text \<open>Retiring the replaced certificate touches neither certificates nor requests.\<close>

definition certsSame :: "world \<Rightarrow> world \<Rightarrow> bool" where
  "certsSame w v = (stCerts (wStore v) = stCerts (wStore w) \<and> stCSRs (wStore v) = stCSRs (wStore w))"

interpretation ces: step_relation certsSame
  by unfold_locales (auto simp: certsSame_def sameState_def)

lemma certs_other: "state_io_rel otherSame m \<Longrightarrow> state_io_rel certsSame m"
  unfolding state_io_rel_def otherSame_def certsSame_def by fastforce

lemma certs_write: "state_io_rel certsSame (writeSuperseded es)"
  unfolding writeSuperseded_def SaveSuperseded_def
  by (auto intro!: ces.io ces.io_backendWrite simp: certsSame_def split: sum.splits dest!: sym [of _ "wStore v" for v])

lemma certs_supersede: "state_io_rel certsSame (supersedeReplaced subject serial)"
  unfolding supersedeReplaced_def supersedeReplacedAfter_def recordSuperseded_def
  by (auto intro!: ces.io certs_other [OF other_revokeSerial] certs_write certs_other [OF quiet_other [OF quiet_readSuperseded]]
      certs_other [OF quiet_other [OF quiet_supersedeCount]] split: sum.splits)

definition unrevokedIn :: "world \<Rightarrow> Certificate \<Rightarrow> bool" where
  "unrevokedIn w cert = (\<exists>crl. cachedCRL (wCA w) = Some crl \<and> certSerialNumber cert \<notin> revokedSerials crl)"

definition notWaiting :: "world \<Rightarrow> Certificate \<Rightarrow> bool" where
  "notWaiting w cert = (\<forall>e \<in> set (pending w). NormaliseSerial (seSerial e) \<noteq> Inr (serialHexStr (certSerialNumber cert)))"

lemma other_refuseIfRevoked: "state_io_rel otherSame (refuseIfRevoked cert s)"
  unfolding refuseIfRevoked_def IsRevokedSerial_def
  by (auto intro!: os.io other_SyncCRLCache quiet_other [OF quiet_refuse] split: option.splits)

lemma refuseIfRevoked_ok:
  assumes run: "run_state (refuseIfRevoked (Some cert) s) w = (Inr (), v)"
  shows "unrevokedIn v cert" "notWaiting w cert"
proof -
  from run obtain r u x where s: "run_state SyncCRLCache w = (r, u)"
    and i: "run_state (IsRevokedSerial (certSerialNumber cert)) u = (Inr False, x)"
    and q: "run_state (refuseIfSuperseded (Some cert) s) x = (Inr (), v)"
    unfolding refuseIfRevoked_def by (auto elim!: bindE_okE attemptE split: if_splits)
  from i obtain y z where y: "sameState u y" "sameState z x"
    "run_state (bindE (getsE (\<lambda>w. cachedCRL (wCA w))) (\<lambda>crl. case crl of None \<Rightarrow> fail (ErrOther ''CRL not loaded'')
       | Some l \<Rightarrow> ok (serialInCRL l (certSerialNumber cert)))) y = (Inr False, z)"
    unfolding IsRevokedSerial_def by (rule withMu_cases)
  from y(3) have "unrevokedIn z cert"
    by (auto simp: run_bindE unrevokedIn_def mem_revoked split: option.splits)
  moreover have "quiet x v" by (rule state_io_relD [OF quiet_refuse q])
  ultimately show "unrevokedIn v cert" using y(2) by (simp add: unrevokedIn_def sameState_def quiet_def caFrame_def)
  have "otherSame w u" by (rule state_io_relD [OF other_SyncCRLCache s])
  moreover have "wStore y = wStore u" "wStore x = wStore z" using y by (simp_all add: sameState_def)
  moreover have "wStore z = wStore y"
    using y(3) by (auto simp: run_bindE split: option.splits)
  ultimately have "pending x = pending w" by (simp add: pending_def otherSame_def)
  then show "notWaiting w cert" using refuseIfSuperseded_ok [OF q] by (simp add: notWaiting_def)
qed

lemma assertOwn_ok:
  assumes "run_state (assertOwnCertificate cert) w = (Inr (), v)"
  shows "v = w" "\<exists>ca. CACert (wCA w) = Some ca \<and> certSignedBy ca cert"
  using assms by (auto simp: assertOwnCertificate_def run_bindE split: option.splits if_splits)

lemma locked_ok:
  assumes "run_state (WithLock n fn) w = (Inr x, v)"
  obtains u u' where "sameState w u" "run_state fn u = (Inr x, u')" "sameState u' v"
  using assms by (cases rule: WithLock_cases) auto

text \<open>The reissue inside the subject's lock, with its retirement of the replaced serial.\<close>

lemma reissue_ok:
  assumes "run_state (reissueLeafLocked subject p pub) w = (Inr cert, v)" "ValidateSubject subject = Inr ()"
  obtains tpl where "minted w (certSubject p) pub noSANs (carriedExtensions p) [] 0 tpl cert"
    "map_of (stCerts (wStore v)) subject = Some (PEM cert)"
  using assms issueLeaf_ok unfolding reissueLeafLocked_def by metis

lemma retireReplaced_ok:
  assumes "run_state (retireReplaced subject old cert) w = (Inr c, v)"
  shows "c = cert" "certsSame w v"
  using assms state_io_relD [OF certs_supersede]
  by (auto simp: retireReplaced_def ces.same split: option.splits elim!: bindE_okE attemptE)

text \<open>
  The state the replacement is signed in: reached by steps that keep what every step
  keeps, with the presented certificate checked against the list held there.
\<close>

definition cleared :: "world \<Rightarrow> Certificate \<Rightarrow> world \<Rightarrow> bool" where
  "cleared w p u = (owes w u \<and> unrevokedIn u p \<and> notWaiting w p)"

lemma cleared_refuse:
  assumes "run_state (refuseIfRevoked (Some p) subject) w = (Inr (), v)"
  shows "cleared w p v"
  using assms refuseIfRevoked_ok state_io_relD [OF owes_refuseIfRevoked] by (simp add: cleared_def)

lemma invFrame_owes: "invFrame u v \<Longrightarrow> owes u v"
  by (auto simp: owes_def accounted_def pending_def invFrame_step) (simp add: invFrame_def)

lemma cleared_frame:
  assumes "cleared w p u" "invFrame u v"
  shows "cleared w p v"
proof -
  have "owes w v" using assms ow.trans invFrame_owes by (auto simp: cleared_def)
  then show ?thesis using assms by (simp add: cleared_def unrevokedIn_def invFrame_def)
qed

lemma cleared_from:
  assumes "owes w w'" "pending w' = pending w" "cleared w' p u"
  shows "cleared w p u"
  using assms ow.trans by (auto simp: cleared_def notWaiting_def)

lemma renewUnderLock_ok:
  assumes run: "run_state (renewUnderLock subject p csr) w = (Inr cert, v)" and vs: "ValidateSubject subject = Inr ()"
  obtains u tpl where "cleared w p u"
    "minted u (certSubject p) (csrPublicKey csr) noSANs (carriedExtensions p) [] 0 tpl cert"
    "map_of (stCerts (wStore v)) subject = Some (PEM cert)"
proof -
  let ?sign = "bindE (reissueLeafLocked subject p (csrPublicKey csr)) (\<lambda>cert. bindE (attempt (DeleteCSR subject)) (\<lambda>_. ok cert))"
  from run obtain e f g old c where r: "run_state (refuseIfRevoked (Some p) subject) w = (Inr (), e)"
    and ex: "run_state (existingSerial subject) e = (Inr old, f)"
    and m: "run_state (withMu ?sign) f = (Inr c, g)"
    and t: "run_state (retireReplaced subject old c) g = (Inr cert, v)"
    unfolding renewUnderLock_def by (elim bindE_okE) auto
  note t = retireReplaced_ok [OF t]
  from m obtain h i where hi: "sameState f h" "run_state ?sign h = (Inr c, i)" "sameState i g"
    by (rule withMu_cases)
  from hi(2) obtain j k where j: "run_state (reissueLeafLocked subject p (csrPublicKey csr)) h = (Inr c, j)"
    and k: "run_state (DeleteCSR subject) j = (k, i)"
    by (auto elim!: bindE_okE attemptE)
  from j vs obtain tpl where mt: "minted h (certSubject p) (csrPublicKey csr) noSANs (carriedExtensions p) [] 0 tpl c"
    and st: "map_of (stCerts (wStore j)) subject = Some (PEM c)" by (rule reissue_ok)
  have "stCerts (wStore i) = stCerts (wStore j)"
    using k unfolding DeleteCSR_def
    by (auto elim!: backendWrite_cases simp: sameState_def dest!: sym [of _ "wStore i"])
  then have fin: "map_of (stCerts (wStore v)) subject = Some (PEM cert)"
    using st hi(3) t by (simp add: sameState_def certsSame_def)
  have "cleared w p h"
    using cleared_refuse [OF r] state_io_relD [OF inv_existing ex] inv.same [OF hi(1)] by (blast intro: cleared_frame)
  then show ?thesis using that mt fin t(1) by blast
qed

lemma autoRenewUnderLock_ok:
  assumes run: "run_state (autoRenewUnderLock subject p) w = (Inr cert, v)" and vs: "ValidateSubject subject = Inr ()"
  obtains u tpl where "cleared w p u"
    "minted u (certSubject p) (certPublicKey p) noSANs (carriedExtensions p) [] 0 tpl cert"
    "map_of (stCerts (wStore v)) subject = Some (PEM cert)"
proof -
  from run obtain e g old c where r: "run_state (refuseIfRevoked (Some p) subject) w = (Inr (), e)"
    and m: "run_state (withMu (reissueLeafLocked subject p (certPublicKey p))) e = (Inr c, g)"
    and t: "run_state (retireReplaced subject old c) g = (Inr cert, v)"
    unfolding autoRenewUnderLock_def by (elim bindE_okE) (auto simp: run_bindE)
  note t = retireReplaced_ok [OF t]
  from m obtain h i where hi: "sameState e h" "run_state (reissueLeafLocked subject p (certPublicKey p)) h = (Inr c, i)" "sameState i g"
    by (rule withMu_cases)
  from hi(2) vs obtain tpl where mt: "minted h (certSubject p) (certPublicKey p) noSANs (carriedExtensions p) [] 0 tpl c"
    and st: "map_of (stCerts (wStore i)) subject = Some (PEM c)" by (rule reissue_ok)
  have "map_of (stCerts (wStore v)) subject = Some (PEM cert)"
    using st hi(3) t by (simp add: sameState_def certsSame_def)
  moreover have "cleared w p h" using cleared_refuse [OF r] inv.same [OF hi(1)] by (blast intro: cleared_frame)
  ultimately show ?thesis using that mt t(1) by blast
qed

lemma pending_other: "otherSame w v \<Longrightarrow> pending v = pending w"
  by (simp add: otherSame_def pending_def)

lemma Renew_ok:
  assumes run: "run_state (Renew subject q presented) w = (Inr cert, v)"
  obtains p csr u tpl where "presented = Some p" "q = PEM csr" "csrSignatureOk csr"
    "nmCommonName (csrSubject csr) = subject" "nmCommonName (certSubject p) = subject"
    "\<exists>ca. CACert (wCA w) = Some ca \<and> certSignedBy ca p" "cleared w p u"
    "minted u (certSubject p) (csrPublicKey csr) noSANs (carriedExtensions p) [] 0 tpl cert"
    "map_of (stCerts (wStore v)) subject = Some (PEM cert)"
proof -
  from run obtain p csr a b where p: "presented = Some p" "q = PEM csr" "csrSignatureOk csr"
    "nmCommonName (csrSubject csr) = subject" "nmCommonName (certSubject p) = subject" "ValidateSubject subject = Inr ()"
    and own: "run_state (assertOwnCertificate p) w = (Inr (), a)"
    and r: "run_state (refuseIfRevoked (Some p) subject) a = (Inr (), b)"
    and l: "run_state (WithLock (LockSubject subject) (renewUnderLock subject p csr)) b = (Inr cert, v)"
    unfolding Renew_def by (auto split: option.splits pem.splits if_splits elim!: bindE_okE)
  from l obtain c d where cd: "sameState b c" "run_state (renewUnderLock subject p csr) c = (Inr cert, d)" "sameState d v"
    by (rule locked_ok)
  from cd(2) p(6) obtain u tpl where u: "cleared c p u"
    "minted u (certSubject p) (csrPublicKey csr) noSANs (carriedExtensions p) [] 0 tpl cert"
    "map_of (stCerts (wStore d)) subject = Some (PEM cert)"
    by (rule renewUnderLock_ok)
  have a: "a = w" by (rule assertOwn_ok(1) [OF own])
  have "owes w c" using state_io_relD [OF owes_refuseIfRevoked r] ow.same [OF cd(1)] a ow.trans by blast
  moreover have "pending c = pending w"
    using pending_other [OF state_io_relD [OF other_refuseIfRevoked r]] pending_other [OF os.same [OF cd(1)]] a by simp
  ultimately have "cleared w p u" using u(1) by (rule cleared_from)
  then show ?thesis using that [of p csr u tpl] p assertOwn_ok(2) [OF own] u cd(3) by (simp add: sameState_def)
qed

lemma AutoRenew_ok:
  assumes run: "run_state (AutoRenew presented) w = (Inr cert, v)"
  obtains p u tpl where "presented = Some p" "\<exists>ca. CACert (wCA w) = Some ca \<and> certSignedBy ca p" "cleared w p u"
    "minted u (certSubject p) (certPublicKey p) noSANs (carriedExtensions p) [] 0 tpl cert"
    "map_of (stCerts (wStore v)) (nmCommonName (certSubject p)) = Some (PEM cert)"
proof -
  from run obtain p a b where p: "presented = Some p" "ValidateSubject (nmCommonName (certSubject p)) = Inr ()"
    and own: "run_state (assertOwnCertificate p) w = (Inr (), a)"
    and r: "run_state (refuseIfRevoked (Some p) (nmCommonName (certSubject p))) a = (Inr (), b)"
    and l: "run_state (WithLock (LockSubject (nmCommonName (certSubject p)))
      (autoRenewUnderLock (nmCommonName (certSubject p)) p)) b = (Inr cert, v)"
    unfolding AutoRenew_def by (auto split: option.splits elim!: bindE_okE simp: Let_def)
  from l obtain c d where cd: "sameState b c"
    "run_state (autoRenewUnderLock (nmCommonName (certSubject p)) p) c = (Inr cert, d)" "sameState d v"
    by (rule locked_ok)
  from cd(2) p(2) obtain u tpl where u: "cleared c p u"
    "minted u (certSubject p) (certPublicKey p) noSANs (carriedExtensions p) [] 0 tpl cert"
    "map_of (stCerts (wStore d)) (nmCommonName (certSubject p)) = Some (PEM cert)"
    by (rule autoRenewUnderLock_ok)
  have a: "a = w" by (rule assertOwn_ok(1) [OF own])
  have "owes w c" using state_io_relD [OF owes_refuseIfRevoked r] ow.same [OF cd(1)] a ow.trans by blast
  moreover have "pending c = pending w"
    using pending_other [OF state_io_relD [OF other_refuseIfRevoked r]] pending_other [OF os.same [OF cd(1)]] a by simp
  ultimately have "cleared w p u" using u(1) by (rule cleared_from)
  then show ?thesis using that [of p u tpl] p assertOwn_ok(2) [OF own] u cd(3) by (simp add: sameState_def)
qed

section \<open>Signing without faults\<close>

definition nextSerial :: "world \<Rightarrow> int option" where
  "nextSerial w = (case eRand (wEnv w) of [] \<Rightarrow> None | r # _ \<Rightarrow> Some (int (r mod 2 ^ 128)))"

lemma live_rand:
  assumes "nextSerial w = Some n"
  obtains v where "run_state (randInt (2 ^ 128)) w = (Inr n, v)" "sameState w v" "faultless v = faultless w"
    "clockOf v = clockOf w"
  using assms that by (auto simp: nextSerial_def randInt_def faultless_def clockOf_def split: list.splits)

lemma live_signTemplate:
  assumes "faultless w" "createCertificate tpl ca pub key = Some cert"
  shows "run_state (signTemplate tpl ca pub key) w = (Inr (tpl, cert), w)"
  using assms by (simp add: signTemplate_def acquireSigningSlot_def run_bindE live)

lemma live_mint:
  assumes "faultless w" "validatePublicKey pub = Inr ()" "nextSerial w = Some n"
    and "0 < time_sub (certNotAfter ca) (clockOf w)" "key = certPublicKey ca"
  obtains tpl cert v where "run_state (mintLeaf cfg ca key nm pub sans extra eku ttl) w = (Inr (tpl, cert), v)"
    "sameState w v" "faultless v" "tplSerialNumber tpl = n" "0 \<le> n"
proof -
  have n: "0 \<le> n" using assms(3) by (auto simp: nextSerial_def split: list.splits)
  from assms(3) obtain u where u: "run_state (randInt (2 ^ 128)) w = (Inr n, u)" "sameState w u"
    "faultless u = faultless w" "clockOf u = clockOf w" by (rule live_rand)
  obtain v where v: "run_state timeNow u = (Inr (clockOf u), v)" "sameState u v" "faultless v = faultless u"
    by (rule live_time)
  let ?tpl = "leafTemplate cfg ca n (clockOf w) ttl nm pub sans extra eku"
  obtain cert where c: "createCertificate ?tpl ca pub key = Some cert"
    using n assms(5) by (simp add: createCertificate_def leafTemplate_def)
  have "run_state (mintLeaf cfg ca key nm pub sans extra eku ttl) w = (Inr (?tpl, cert), v)"
    using assms u v c live_signTemplate [of v ?tpl]
    by (simp add: mintLeaf_def run_bindE [of "lift r" for r] run_bindE [of timeNow] run_bindE [of "randInt k" for k])
  then show ?thesis
    using that [of ?tpl cert v] sameState_trans [OF u(2) v(2)] u(3) v(3) assms(1) n by (simp add: leafTemplate_def)
qed

lemma live_record:
  assumes "faultless w" "ValidateSubject subject = Inr ()" "0 \<le> tplSerialNumber tpl"
    and "serialHexStr (tplSerialNumber tpl) \<notin> ieSerial ` set (storeEntries (wStore w))"
  obtains v where "run_state (recordLeaf subject tpl cert) w = (Inr cert, v)" "faultless v"
proof -
  let ?u = "w\<lparr>wStore := (wStore w)\<lparr>stCerts := AList.update subject (PEM cert) (stCerts (wStore w))\<rparr>\<rparr>"
  have s: "run_state (SaveCert subject (PEM cert)) w = (Inr (), ?u)" using assms(1) by (simp add: SaveCert_def live)
  have "storeEntries (wStore ?u) = storeEntries (wStore w)" by (simp add: storeEntries_def)
  then obtain v where v: "run_state (AppendInventoryRecord (canonicalInventoryLine (leafEntry subject tpl))) ?u = (Inr (), v)"
    "faultless v"
    using append_live [of ?u "leafEntry subject tpl"] leafEntry_ok [OF assms(2,3)] assms(1,4)
    by (auto simp: leafEntry_def)
  then show ?thesis
    using that s by (simp add: recordLeaf_def run_bindE run_attempt FormatInventoryLine_def leafEntry_def Let_def)
qed

lemma live_issue:
  assumes "faultless w" "CACert (wCA w) = Some ca" "CAKey (wCA w) = Some (certPublicKey ca)"
    and "ValidateSubject subject = Inr ()" "validatePublicKey pub = Inr ()"
    and "nextSerial w = Some n" "serialHexStr n \<notin> ieSerial ` set (storeEntries (wStore w))"
    and "0 < time_sub (certNotAfter ca) (clockOf w)"
  obtains cert v where "run_state (issueLeafLocked subject nm pub sans extra eku ttl) w = (Inr cert, v)" "faultless v"
proof -
  from assms(1,5,6,8) refl obtain tpl cert u
    where u: "run_state (mintLeaf (wConfig w) ca (certPublicKey ca) nm pub sans extra eku ttl) w = (Inr (tpl, cert), u)"
    "sameState w u" "faultless u" "tplSerialNumber tpl = n" "0 \<le> n" by (rule live_mint)
  obtain v where "run_state (recordLeaf subject tpl cert) u = (Inr cert, v)" "faultless v"
    using live_record [of u subject tpl cert] u assms(4,7) by (auto simp: sameState_def)
  then show ?thesis using that u(1) assms(2,3) by (simp add: issueLeafLocked_def run_bindE)
qed

lemma live_sign:
  assumes "faultless w" "CACert (wCA w) = Some ca" "CAKey (wCA w) = Some (certPublicKey ca)"
    and "ValidateSubject subject = Inr ()" "map_of (stCSRs (wStore w)) subject = Some (PEM csr)"
    and "csrSignatureOk csr" "\<not> requestsCA csr" "checkSubjectAltNames (AllowSubjectAltNames (wConfig w)) subject csr = Inr ()"
    and "validatePublicKey (csrPublicKey csr) = Inr ()" "nextSerial w = Some n"
    and "serialHexStr n \<notin> ieSerial ` set (storeEntries (wStore w))" "0 < time_sub (certNotAfter ca) (clockOf w)"
  obtains cert v where "run_state (signWithDuration subject ttl) w = (Inr cert, v)"
    "map_of (stCSRs (wStore v)) subject = None"
proof -
  from assms(1-4,9-12) obtain cert u where u: "run_state (issueLeafLocked subject (csrSubject csr) (csrPublicKey csr)
      (noSANs\<lparr>sanDNSNames := signDNSNames (wConfig w) csr\<rparr>) (puppetExtensions csr) [] ttl) w = (Inr cert, u)" "faultless u"
    by (rule live_issue)
  have csrs: "stCSRs (wStore u) = stCSRs (wStore w)" using issueLeaf_ok [OF u(1) assms(4)] by metis
  let ?v = "u\<lparr>wStore := (wStore u)\<lparr>stCSRs := AList.delete subject (stCSRs (wStore u))\<rparr>\<rparr>"
  have d: "run_state (DeleteCSR subject) u = (Inr (), ?v)"
    using u(2) assms(5) csrs by (simp add: DeleteCSR_def live deleteE_def)
  have "run_state (signWithDuration subject ttl) w = (Inr cert, ?v)"
    using assms u(1) d by (simp add: signWithDuration_def run_bindE run_attempt GetCSR_def live lookupE_def)
  then show ?thesis using that by (simp add: delete_conv')
qed

section \<open>The request queue\<close>

text \<open>Every queued request is for the subject it is queued under.\<close>

definition queueOk :: "store \<Rightarrow> bool" where
  "queueOk st = (\<forall>s csr. map_of (stCSRs st) s = Some (PEM csr) \<longrightarrow> nmCommonName (csrSubject csr) = s)"

definition queueKept :: "world \<Rightarrow> world \<Rightarrow> bool" where
  "queueKept w v = (queueOk (wStore w) \<longrightarrow> queueOk (wStore v))"

interpretation qk: step_relation queueKept
  by unfold_locales (auto simp: queueKept_def sameState_def)

lemma queue_certs: "state_io_rel certsSame m \<Longrightarrow> state_io_rel queueKept m"
  unfolding state_io_rel_def queueKept_def certsSame_def queueOk_def by fastforce

lemma queue_other: "state_io_rel otherSame m \<Longrightarrow> state_io_rel queueKept m"
  by (rule queue_certs [OF certs_other])

lemma queue_quiet: "state_io_rel quiet m \<Longrightarrow> state_io_rel queueKept m"
  by (rule queue_other [OF quiet_other])

lemma queue_inv: "state_io_rel invFrame m \<Longrightarrow> state_io_rel queueKept m"
  by (rule queue_other [OF inv_other])

lemma queue_writes:
  "state_io_rel queueKept (SaveCert s c)" "state_io_rel queueKept (DeleteCert s)" "state_io_rel queueKept (DeleteCSR s)"
  "nmCommonName (csrSubject csr) = s \<Longrightarrow> state_io_rel queueKept (SaveCSR s (PEM csr))"
  unfolding SaveCert_def DeleteCert_def SaveCSR_def DeleteCSR_def
  by (rule qk.io_backendWrite; auto simp: queueKept_def queueOk_def deleteE_def delete_conv' update_conv'
      split: option.splits if_splits dest!: sym [of _ "wStore v" for v])+

lemma queue_changeCA: "state_io_rel queueKept (changeCA f)"
  by (rule queue_other [OF other_changeCA])

lemmas queue_io = qk.io queue_writes queue_changeCA quiet_reads [THEN queue_quiet] quiet_has [THEN queue_quiet]
  queue_inv [OF inv_append] queue_quiet [OF quiet_mint]

lemma queue_leaf: "state_io_rel queueKept (issueLeafLocked s n k sans ext eku ttl)"
  unfolding issueLeafLocked_def recordLeaf_def
  by (auto intro!: queue_io simp: Let_def split: sum.splits option.splits)

lemma queue_sign: "state_io_rel queueKept (signWithDuration s ttl)"
  unfolding signWithDuration_def by (auto intro!: queue_io queue_leaf split: pem.splits)

lemma queue_Sign: "state_io_rel queueKept (Sign s)" "state_io_rel queueKept (SignWithTTL s ttl)"
  unfolding Sign_def SignWithTTL_def by (intro queue_io queue_sign)+

lemma queue_SaveRequest: "state_io_rel queueKept (SaveRequest s q)"
  unfolding SaveRequest_def sign_def checkDuplicateLocked_def storedCertLocked_def revokedLocked_def
  by (auto intro!: queue_io queue_sign split: pem.splits option.splits)

lemma queue_renewals: "state_io_rel queueKept (Renew s q cert)" "state_io_rel queueKept (AutoRenew cert)"
  unfolding Renew_def AutoRenew_def renewUnderLock_def autoRenewUnderLock_def retireReplaced_def reissueLeafLocked_def
  by (auto intro!: queue_io queue_leaf queue_other [OF other_refuseIfRevoked] queue_quiet [OF quiet_assertOwn]
      queue_inv [OF inv_existing] queue_certs [OF certs_supersede] simp: Let_def split: option.splits pem.splits)

lemma certs_retire: "state_io_rel certsSame (retireSupersededForSubjectLocked s)"
  unfolding retireSupersededForSubjectLocked_def
  by (auto intro!: ces.io certs_write certs_other [OF other_retireEach] certs_other [OF quiet_other [OF quiet_readSuperseded]]
      certs_other [OF quiet_other [OF quiet_supersedeCount]] simp: Let_def split: sum.splits)

lemma queue_Clean: "state_io_rel queueKept (Clean s)"
  unfolding Clean_def revokeLocked_def findSerialForSubject_def
  by (auto intro!: queue_io queue_certs [OF certs_retire] queue_inv [OF inv_latest] queue_quiet [OF quiet_count(1)]
      queue_other [OF other_revokeSerial] split: sum.splits)

lemma queue_DeleteRequest: "state_io_rel queueKept (DeleteRequest s)"
  unfolding DeleteRequest_def by (auto intro!: queue_io split: sum.splits)

end
