(* ===== verification/Issuance.thy ===== *)
theory Issuance
  imports Signing
begin

text \<open>
  The properties of issuance and renewal: what a certificate signed from a request can
  carry and be named, that a good request is signed, what is on record afterwards, what a
  renewal requires and carries over, and what is refused.  Each speaks of the public
  operations of Signing and of every backend behaviour unless it says otherwise.
\<close>

section \<open>Signing a request\<close>

lemma SignWithTTL_ok:
  assumes "run_state (SignWithTTL subject ttl) w = (Inr cert, v)"
  obtains u x where "sameState w u" "run_state (signWithDuration subject ttl) u = (Inr cert, x)" "sameState x v"
proof -
  from assms have "run_state (WithLock (LockSubject subject) (withMu (signWithDuration subject ttl))) w = (Inr cert, v)"
    unfolding SignWithTTL_def by (elim bindE_okE) simp
  then obtain a b where ab: "sameState w a" "run_state (withMu (signWithDuration subject ttl)) a = (Inr cert, b)" "sameState b v"
    by (rule locked_ok)
  from ab(2) obtain c d where "sameState a c" "run_state (signWithDuration subject ttl) c = (Inr cert, d)" "sameState d b"
    by (rule withMu_cases)
  then show ?thesis using that ab sameState_trans by blast
qed

lemma minted_same: "sameState w u \<Longrightarrow> minted u = minted w"
  by (intro ext) (simp add: minted_def sameState_def)

text \<open>The facts about a certificate signed from a queued request the properties rest on.\<close>

lemma SignWithTTL_minted:
  assumes "run_state (SignWithTTL subject ttl) w = (Inr cert, v)"
  obtains csr tpl where "map_of (stCSRs (wStore w)) subject = Some (PEM csr)" "ValidateSubject subject = Inr ()"
    "checkSubjectAltNames (AllowSubjectAltNames (wConfig w)) subject csr = Inr ()"
    "minted w (csrSubject csr) (csrPublicKey csr) (noSANs\<lparr>sanDNSNames := signDNSNames (wConfig w) csr\<rparr>)
       (puppetExtensions csr) [] ttl tpl cert"
    "map_of (stCerts (wStore v)) subject = Some (PEM cert)"
    "map_of (serialIndex (wCA v)) (serialHexStr (certSerialNumber cert)) = Some subject"
    "invOk (wStore w) \<longrightarrow> appended (leafEntry subject tpl) (wStore w) (wStore v)"
proof -
  from assms obtain u x where u: "sameState w u" "run_state (signWithDuration subject ttl) u = (Inr cert, x)" "sameState x v"
    by (rule SignWithTTL_ok)
  from u(2) obtain csr tpl where "map_of (stCSRs (wStore u)) subject = Some (PEM csr)"
    "csrSignatureOk csr" "ValidateSubject subject = Inr ()"
    "checkSubjectAltNames (AllowSubjectAltNames (wConfig u)) subject csr = Inr ()"
    "minted u (csrSubject csr) (csrPublicKey csr) (noSANs\<lparr>sanDNSNames := signDNSNames (wConfig u) csr\<rparr>)
       (puppetExtensions csr) [] ttl tpl cert"
    "map_of (stCerts (wStore x)) subject = Some (PEM cert)"
    "map_of (serialIndex (wCA x)) (serialHexStr (certSerialNumber cert)) = Some subject"
    "invOk (wStore u) \<longrightarrow> appended (leafEntry subject tpl) (wStore u) (wStore x)"
    by (rule signWithDuration_ok)
  then show ?thesis using that [of csr tpl] u minted_same [OF u(1)] by (simp add: sameState_def)
qed

text \<open>The sample's request is signed.\<close>

lemma sample_signs:
  obtains cert v where "run_state (SignWithTTL ''a'' 0) sample = (Inr cert, v)"
proof -
  let ?w = "enterLock LockMu (enterLock (LockSubject ''a'') sample)"
  have "storeEntries sampleStore = []"
    by (simp add: sampleStore_def storeEntries_def parseInventoryBlob_def parseInventoryBlobCounting_def go_string)
  moreover have "checkSubjectAltNames False ''a'' sampleCSR = Inr ()" "\<not> requestsCA sampleCSR"
    "validatePublicKey (csrPublicKey sampleCSR) = Inr ()" "csrSignatureOk sampleCSR"
    by (simp_all add: sampleCSR_def checkSubjectAltNames_def sansOf_def extValueOf_def noSANs_def sanStrings_def
        validatePublicKey_def requestsCA_def)
  moreover have "nextSerial ?w = Some 5" "0 < time_sub (certNotAfter sampleCACert) (10 * second)"
    by (simp_all add: nextSerial_def sampleEnv_def sampleCACert_def time_sub_def second_def)
  ultimately have "\<exists>cert v. run_state (signWithDuration ''a'' 0) ?w = (Inr cert, v)"
    by - (rule live_sign [of ?w sampleCACert "''a''" sampleCSR 5 0]
      , auto simp: sampleStore_def sampleCA_def sampleConfig_def)
  then show ?thesis using that by (auto simp: SignWithTTL_def run_bindE live split: prod.splits)
qed

text \<open>
  C9. A certificate signed from a submitted request confers no authority and cannot sign:
  it carries no extension of the authorisation arc whatever the request asked for, its
  basic constraints say it is not a CA, its key meets the key policy and it does not
  outlive the CA certificate.
\<close>

theorem signed_request_confers_no_authority:
  assumes "run_state (SignWithTTL subject ttl) w = (Inr cert, v)"
  shows "(\<forall>e \<in> set (certExtensions cert). \<not> IsAuthOID (extId e)) \<and> certBasicConstraints cert = Some False
    \<and> validatePublicKey (certPublicKey cert) = Inr ()
    \<and> (\<forall>ca. CACert (wCA w) = Some ca \<longrightarrow> certNotAfter cert \<le> certNotAfter ca)"
proof -
  from assms obtain csr tpl where m: "minted w (csrSubject csr) (csrPublicKey csr)
      (noSANs\<lparr>sanDNSNames := signDNSNames (wConfig w) csr\<rparr>) (puppetExtensions csr) [] ttl tpl cert"
    by (rule SignWithTTL_minted)
  have auth: "\<not> IsAuthOID i" if "i \<in> caWritten" for i using that by (auto simp: caWritten_def)
  have ext: "IsPuppetOID (extId e) \<and> \<not> IsAuthOID (extId e)" if "e \<in> set (puppetExtensions csr)" for e
    using that by (simp add: puppetExtensions_def)
  then have "oidBasicConstraints \<notin> extId ` set (puppetExtensions csr)" by fastforce
  from minted_leaf [OF m this] show ?thesis
    using minted_exts(2) [OF m] auth ext minted_window(1) [OF m] minted_fields(1,3) [OF m] by fastforce
qed

theorem signed_request_confers_no_authority_witness:
  "\<exists>cert v. run_state (SignWithTTL ''a'' 0) sample = (Inr cert, v) \<and> certBasicConstraints cert = Some False
     \<and> certNotAfter cert \<le> certNotAfter sampleCACert"
proof -
  obtain cert v where r: "run_state (SignWithTTL ''a'' 0) sample = (Inr cert, v)" by (rule sample_signs)
  then show ?thesis using signed_request_confers_no_authority [OF r] by (auto simp: sampleCA_def)
qed

text \<open>
  C10. With the alternative-name policy off, a certificate signed from a request names its
  subject and nothing else: the common name is the subject, every DNS name is the subject
  up to case, and there is no address, mail or URI name.  Every queued request is taken to
  carry the name it is filed under, as the submission of a request enforces and every run
  of the cluster keeps.
\<close>

theorem signed_request_names_subject:
  assumes "run_state (SignWithTTL subject ttl) w = (Inr cert, v)"
    and "queueOk (wStore w)" "\<not> AllowSubjectAltNames (wConfig w)"
  shows "nmCommonName (certSubject cert) = subject
    \<and> (\<forall>d \<in> set (sanDNSNames (sansOf (certExtensions cert))). asciiLower d = subject)
    \<and> sanIPAddresses (sansOf (certExtensions cert)) = [] \<and> sanEmailAddresses (sansOf (certExtensions cert)) = []
    \<and> sanURIs (sansOf (certExtensions cert)) = []"
proof -
  from assms(1) obtain csr tpl where c: "map_of (stCSRs (wStore w)) subject = Some (PEM csr)" "ValidateSubject subject = Inr ()"
    "checkSubjectAltNames (AllowSubjectAltNames (wConfig w)) subject csr = Inr ()"
    and m: "minted w (csrSubject csr) (csrPublicKey csr) (noSANs\<lparr>sanDNSNames := signDNSNames (wConfig w) csr\<rparr>)
       (puppetExtensions csr) [] ttl tpl cert"
    by (rule SignWithTTL_minted)
  have cn: "nmCommonName (csrSubject csr) = subject" using assms(2) c(1) by (simp add: queueOk_def)
  have low: "asciiLower subject = subject" by (rule asciiLower_subject [OF c(2)])
  have "\<forall>d \<in> set (sanDNSNames (sansOf (csrExtensions csr))). asciiLower d = asciiLower subject"
    using checkSubjectAltNames_own(4) c(3) assms(3) by simp
  then have dns: "\<forall>d \<in> set (signDNSNames (wConfig w) csr). asciiLower d = subject"
    using cn low by (auto simp: signDNSNames_def Let_def)
  have "oidSubjectAltName \<notin> extId ` set (puppetExtensions csr)" by (auto simp: puppetExtensions_def)
  from minted_sans [OF m this] show ?thesis
    using dns cn minted_fields(2) [OF m] by (simp add: encodeName_def noSANs_def)
qed

theorem signed_request_names_subject_witness:
  "\<exists>cert v. run_state (SignWithTTL ''a'' 0) sample = (Inr cert, v) \<and> nmCommonName (certSubject cert) = ''a''"
proof -
  obtain cert v where r: "run_state (SignWithTTL ''a'' 0) sample = (Inr cert, v)" by (rule sample_signs)
  have "queueOk (wStore sample)" "\<not> AllowSubjectAltNames (wConfig sample)"
    by (simp_all add: sampleStore_def sampleConfig_def queueOk_def sampleCSR_def sampleName_def)
  then show ?thesis using signed_request_names_subject [OF r] r by blast
qed

text \<open>
  C22. A request that meets the policy is signed.  If the backend answers, the random source
  yields a serial not yet in the inventory and the CA certificate has not expired, signing
  returns a certificate and the request has left the queue.
\<close>

theorem good_request_is_signed:
  assumes "faultless w" "CACert (wCA w) = Some ca" "CAKey (wCA w) = Some (certPublicKey ca)"
    and "ValidateSubject subject = Inr ()" "map_of (stCSRs (wStore w)) subject = Some (PEM csr)"
    and "csrSignatureOk csr" "\<not> requestsCA csr" "checkSubjectAltNames (AllowSubjectAltNames (wConfig w)) subject csr = Inr ()"
    and "validatePublicKey (csrPublicKey csr) = Inr ()" "nextSerial w = Some n"
    and "serialHexStr n \<notin> ieSerial ` set (storeEntries (wStore w))" "0 < time_sub (certNotAfter ca) (clockOf w)"
  shows "\<exists>cert v. run_state (SignWithTTL subject ttl) w = (Inr cert, v) \<and> map_of (stCSRs (wStore v)) subject = None"
proof -
  let ?w = "enterLock LockMu (enterLock (LockSubject subject) w)"
  have "nextSerial ?w = nextSerial w" by (simp add: nextSerial_def)
  then have "\<exists>cert v. run_state (signWithDuration subject ttl) ?w = (Inr cert, v) \<and> map_of (stCSRs (wStore v)) subject = None"
    using assms by - (rule live_sign [of ?w ca subject csr n ttl], auto)
  then show ?thesis using assms(1,4) by (auto simp: SignWithTTL_def run_bindE live split: prod.splits)
qed

lemma sample_request [simp]:
  "storeEntries sampleStore = []" "checkSubjectAltNames False ''a'' sampleCSR = Inr ()" "\<not> requestsCA sampleCSR"
  "validatePublicKey (csrPublicKey sampleCSR) = Inr ()" "csrSignatureOk sampleCSR" "nextSerial sample = Some 5"
  "0 < time_sub (certNotAfter sampleCACert) (10 * second)"
  by (simp_all add: sampleCSR_def checkSubjectAltNames_def sansOf_def extValueOf_def noSANs_def sanStrings_def
      validatePublicKey_def requestsCA_def sampleStore_def storeEntries_def parseInventoryBlob_def
      parseInventoryBlobCounting_def go_string nextSerial_def sampleEnv_def sampleCACert_def time_sub_def second_def)

theorem good_request_is_signed_witness:
  "\<exists>cert v. run_state (SignWithTTL ''a'' 0) sample = (Inr cert, v) \<and> map_of (stCSRs (wStore v)) ''a'' = None"
  by (rule good_request_is_signed [of sample sampleCACert "''a''" sampleCSR 5 0])
    (simp_all add: sampleCA_def sampleConfig_def, simp add: sampleStore_def)

text \<open>
  C24. A signed certificate is on record.  Afterwards it is the stored certificate of its
  subject, the serial index names the subject for its serial, and the inventory holds what
  it held before and one new entry with its serial and subject.
\<close>

theorem signed_certificate_is_recorded:
  assumes "run_state (SignWithTTL subject ttl) w = (Inr cert, v)" "invOk (wStore w)"
  shows "map_of (stCerts (wStore v)) subject = Some (PEM cert)
    \<and> map_of (serialIndex (wCA v)) (serialHexStr (certSerialNumber cert)) = Some subject
    \<and> (\<exists>e. storeEntries (wStore v) = storeEntries (wStore w) @ [e] \<and> ieSubject e = subject
         \<and> ieSerial e = serialHexStr (certSerialNumber cert) \<and> ieSerial e \<notin> ieSerial ` set (storeEntries (wStore w)))
    \<and> invOk (wStore v)"
proof -
  from assms(1) obtain csr tpl where m: "minted w (csrSubject csr) (csrPublicKey csr)
      (noSANs\<lparr>sanDNSNames := signDNSNames (wConfig w) csr\<rparr>) (puppetExtensions csr) [] ttl tpl cert"
    and r: "map_of (stCerts (wStore v)) subject = Some (PEM cert)"
    "map_of (serialIndex (wCA v)) (serialHexStr (certSerialNumber cert)) = Some subject"
    "invOk (wStore w) \<longrightarrow> appended (leafEntry subject tpl) (wStore w) (wStore v)"
    by (rule SignWithTTL_minted)
  have "appended (leafEntry subject tpl) (wStore w) (wStore v)" using r(3) assms(2) by blast
  then show ?thesis using r(1,2) minted_fields(6) [OF m] by (auto simp: appended_def leafEntry_def)
qed

theorem signed_certificate_is_recorded_witness:
  "\<exists>cert v. run_state (SignWithTTL ''a'' 0) sample = (Inr cert, v) \<and> length (storeEntries (wStore v)) = 1"
proof -
  obtain cert v where r: "run_state (SignWithTTL ''a'' 0) sample = (Inr cert, v)" by (rule sample_signs)
  have "invOk (wStore sample)"
    by (simp add: invOk_def) (simp add: sampleStore_def storeBlob_def terminated_def)
  then show ?thesis using signed_certificate_is_recorded [OF r] r by auto
qed

section \<open>Renewal\<close>

lemma find_filter: "(\<And>x. P x \<Longrightarrow> Q x) \<Longrightarrow> find P (filter Q xs) = find P xs"
  by (induction xs) auto

lemma san_not_refreshed: "oidSubjectAltName \<notin> set renewalRefreshedExtensions"
  by (simp add: renewalRefreshedExtensions_def oid_distinct [symmetric])

lemma carried_san: "find (\<lambda>e. extId e = oidSubjectAltName) (rev (carriedExtensions p))
    = find (\<lambda>e. extId e = oidSubjectAltName) (rev (certExtensions p))"
  unfolding carriedExtensions_def rev_filter using san_not_refreshed by (intro find_filter) auto

text \<open>The names and the authority of a reissued certificate are those of the one presented.\<close>

lemma minted_renewal:
  assumes "minted u (certSubject p) pub noSANs (carriedExtensions p) [] 0 tpl cert"
  shows "sansOf (certExtensions cert) = sansOf (certExtensions p)"
    "{e \<in> set (certExtensions cert). IsAuthOID (extId e)} = {e \<in> set (certExtensions p). IsAuthOID (extId e)}"
    "certBasicConstraints cert = Some False"
proof -
  let ?san = "\<lambda>e. extId e = oidSubjectAltName"
  show "sansOf (certExtensions cert) = sansOf (certExtensions p)"
  proof (cases "find ?san (rev (certExtensions p))")
    case None
    then have "oidSubjectAltName \<notin> extId ` set (carriedExtensions p)"
      by (auto simp: find_None_iff carriedExtensions_def)
    from minted_sans [OF assms this] show ?thesis using None by (simp add: sansOf_def extValueOf_def)
  next
    case (Some e)
    from assms obtain ca where c: "certExtensions cert = leafExtensions tpl ca"
      and t: "tplExtraExtensions tpl = aiaExtensions (OCSPURLs (wConfig u)) @ carriedExtensions p"
      by (rule minted_extsE)
    have "find ?san (rev (certExtensions cert)) = Some e"
      unfolding c leafExtensions_def Let_def t using Some by (simp add: find_append carried_san)
    then show ?thesis using Some by (simp add: sansOf_def extValueOf_def)
  qed
  have na: "\<not> IsAuthOID i" if "i \<in> caWritten \<or> i \<in> set renewalRefreshedExtensions" for i
    using that by (auto simp: caWritten_def renewalRefreshedExtensions_def)
  show "{e \<in> set (certExtensions cert). IsAuthOID (extId e)} = {e \<in> set (certExtensions p). IsAuthOID (extId e)}"
    using minted_exts [OF assms] na by (auto simp: carriedExtensions_def)
  have "oidBasicConstraints \<notin> extId ` set (carriedExtensions p)"
    by (auto simp: carriedExtensions_def renewalRefreshedExtensions_def)
  then show "certBasicConstraints cert = Some False" by (rule minted_leaf [OF assms])
qed

text \<open>The CA certificate does not change on the way to the signature.\<close>

lemma cleared_ca: "cleared w p u \<Longrightarrow> CACert (wCA u) = CACert (wCA w)"
  by (simp add: cleared_def owes_def crlStep_def sameId_def)

text \<open>
  C7. A re-keying renewal that succeeds was entitled to.  The certificate presented was
  signed by this CA, is for the subject renewed, and was not waiting to be retired; the
  request proved possession of its key and is for the same subject.  The new certificate
  takes its key from the request and everything else that identifies or empowers its
  holder from the certificate presented: common name, alternative names and exactly its
  authorisation extensions.
\<close>

theorem renewal_was_entitled:
  assumes "run_state (Renew subject q presented) w = (Inr cert, v)"
  shows "\<exists>p csr ca. presented = Some p \<and> q = PEM csr \<and> CACert (wCA w) = Some ca \<and> certSignedBy ca p
    \<and> nmCommonName (certSubject p) = subject \<and> notWaiting w p
    \<and> csrSignatureOk csr \<and> nmCommonName (csrSubject csr) = subject
    \<and> certPublicKey cert = csrPublicKey csr \<and> nmCommonName (certSubject cert) = subject
    \<and> sansOf (certExtensions cert) = sansOf (certExtensions p)
    \<and> {e \<in> set (certExtensions cert). IsAuthOID (extId e)} = {e \<in> set (certExtensions p). IsAuthOID (extId e)}
    \<and> certBasicConstraints cert = Some False \<and> certNotAfter cert \<le> certNotAfter ca
    \<and> map_of (stCerts (wStore v)) subject = Some (PEM cert)"
proof -
  from assms obtain p csr u tpl where p: "presented = Some p" "q = PEM csr" "csrSignatureOk csr"
    "nmCommonName (csrSubject csr) = subject" "nmCommonName (certSubject p) = subject"
    "\<exists>ca. CACert (wCA w) = Some ca \<and> certSignedBy ca p" and c: "cleared w p u"
    and m: "minted u (certSubject p) (csrPublicKey csr) noSANs (carriedExtensions p) [] 0 tpl cert"
    and st: "map_of (stCerts (wStore v)) subject = Some (PEM cert)"
    by (rule Renew_ok)
  obtain ca where ca: "CACert (wCA w) = Some ca" "certSignedBy ca p" using p(6) by blast
  have "certNotAfter cert \<le> certNotAfter ca" using minted_window(1) [OF m] cleared_ca [OF c] ca(1) by simp
  then show ?thesis
    using p ca c st minted_renewal [OF m] minted_fields(1,2) [OF m] by (simp add: cleared_def encodeName_def)
qed

text \<open>
  C8. An automatic renewal that succeeds was entitled to, and reissues the certificate
  presented: same key, same names, exactly the same authorisation extensions.
\<close>

theorem auto_renewal_was_entitled:
  assumes "run_state (AutoRenew presented) w = (Inr cert, v)"
  shows "\<exists>p ca. presented = Some p \<and> CACert (wCA w) = Some ca \<and> certSignedBy ca p \<and> notWaiting w p
    \<and> certPublicKey cert = certPublicKey p \<and> nmCommonName (certSubject cert) = nmCommonName (certSubject p)
    \<and> sansOf (certExtensions cert) = sansOf (certExtensions p)
    \<and> {e \<in> set (certExtensions cert). IsAuthOID (extId e)} = {e \<in> set (certExtensions p). IsAuthOID (extId e)}
    \<and> certBasicConstraints cert = Some False \<and> certNotAfter cert \<le> certNotAfter ca
    \<and> map_of (stCerts (wStore v)) (nmCommonName (certSubject p)) = Some (PEM cert)"
proof -
  from assms obtain p u tpl where p: "presented = Some p" "\<exists>ca. CACert (wCA w) = Some ca \<and> certSignedBy ca p"
    and c: "cleared w p u"
    and m: "minted u (certSubject p) (certPublicKey p) noSANs (carriedExtensions p) [] 0 tpl cert"
    and st: "map_of (stCerts (wStore v)) (nmCommonName (certSubject p)) = Some (PEM cert)"
    by (rule AutoRenew_ok)
  obtain ca where ca: "CACert (wCA w) = Some ca" "certSignedBy ca p" using p(2) by blast
  have "certNotAfter cert \<le> certNotAfter ca" using minted_window(1) [OF m] cleared_ca [OF c] ca(1) by simp
  then show ?thesis
    using p(1) ca c st minted_renewal [OF m] minted_fields(1,2) [OF m] by (simp add: cleared_def encodeName_def)
qed

section \<open>Refusals\<close>

lemma never_clears:
  assumes "keyOk (wCA w)" "cacheOk D w" "cachedCRL (wCA w) = Some k" "certSerialNumber p \<in> revokedSerials k - D"
  shows "\<not> cleared w p u"
proof
  assume c: "cleared w p u"
  then have "cacheForward D w u" using assms(1,2) by (simp add: cleared_def owes_def crlStep_def)
  then show False using assms(3,4) c by (auto simp: cacheForward_def cleared_def unrevokedIn_def)
qed

text \<open>
  C6. A certificate on the list this replica holds cannot be renewed, by either path,
  whatever the backend answers.  The stored list may be ahead of the one held, and may have
  lost serials of a set D, those a cleanup dropped after the certificates had expired: the
  theorem is about a certificate outside D.  That a held list relates to the stored one
  like this, and that a replica has the key of its CA certificate, is what every run of the
  cluster keeps.
\<close>

theorem revoked_certificate_is_not_renewed:
  assumes "keyOk (wCA w)" "cacheOk D w" "cachedCRL (wCA w) = Some k" "certSerialNumber p \<in> revokedSerials k" "certSerialNumber p \<notin> D"
  shows "(\<exists>e. fst (run_state (Renew subject q (Some p)) w) = Inl e) \<and> (\<exists>e. fst (run_state (AutoRenew (Some p)) w) = Inl e)"
proof -
  have "run_state (Renew subject q (Some p)) w \<noteq> (Inr cert, v)" "run_state (AutoRenew (Some p)) w \<noteq> (Inr cert, v)" for cert v
    using never_clears [OF assms(1-3)] assms(4,5) by (auto elim!: Renew_ok AutoRenew_ok)
  then show ?thesis by (metis prod.collapse sum.exhaust)
qed

text \<open>In the example the stored list is newer and a cleanup has dropped serial 6 from it.\<close>

theorem revoked_certificate_is_not_renewed_witness:
  "\<exists>w. stCRL (wStore w) = Some (encodeCRLChain [sampleCRL 3 [7]]) \<and> cachedCRL (wCA w) = Some (sampleCRL 2 [6, 7])
   \<and> (\<exists>e. fst (run_state (Renew ''a'' (PEM sampleCSR) (Some (sampleLeaf 7))) w) = Inl e)
   \<and> (\<exists>e. fst (run_state (AutoRenew (Some (sampleLeaf 7))) w) = Inl e)"
proof -
  let ?w = "(sampleWith 3 [7])\<lparr>wCA := wCA (sampleWith 2 [6, 7])\<rparr>"
  have own: "storedOwn ?w = Some (sampleCRL 3 [7])"
    by (simp add: storedOwn_def ownOf_def sampleWith_def sampleCA_def parse_encoded)
  have "leadTyped ?w" "CACert (wCA ?w) = Some sampleCACert" "newerCRL (sampleCRL 3 [7]) (sampleCRL 2 [6, 7])"
    "revokedSerials (sampleCRL 2 [6, 7]) - {6} \<subseteq> revokedSerials (sampleCRL 3 [7])"
    by (auto simp: leadTyped_def sampleWith_def sampleCA_def encodeCRLChain_def newerCRL_def sampleCRL_def revokedSerials_def)
  then have "cacheOk {6} ?w" using own by (simp add: cacheOk_def) (simp add: sampleWith_def)
  moreover have "keyOk (wCA ?w)" using sampleWith_ok(1) [of 2 "[6, 7]"] by simp
  moreover have k: "cachedCRL (wCA ?w) = Some (sampleCRL 2 [6, 7])" "7 \<in> revokedSerials (sampleCRL 2 [6, 7])"
    by (simp_all add: sampleWith_def revokedSerials_def sampleCRL_def)
  ultimately have "(\<exists>e. fst (run_state (Renew ''a'' (PEM sampleCSR) (Some (sampleLeaf 7))) ?w) = Inl e)
      \<and> (\<exists>e. fst (run_state (AutoRenew (Some (sampleLeaf 7))) ?w) = Inl e)"
    using revoked_certificate_is_not_renewed [of ?w "{6}" "sampleCRL 2 [6, 7]" "sampleLeaf 7"] by simp
  then show ?thesis using k(1) by (intro exI [of _ ?w]) (simp add: sampleWith_def)
qed

section \<open>Renewing without faults\<close>

text \<open>Two worlds that differ in the locks held and in the deadlock flag only.\<close>

definition calm :: "world \<Rightarrow> world \<Rightarrow> bool" where
  "calm w v = (sameState w v \<and> eOutcomes (wEnv v) = eOutcomes (wEnv w) \<and> eTicks (wEnv v) = eTicks (wEnv w)
     \<and> eNow (wEnv v) = eNow (wEnv w) \<and> eRand (wEnv v) = eRand (wEnv w))"

lemma calm_facts:
  assumes "calm w v"
  shows "sameState w v" "faultless v = faultless w" "clockOf v = clockOf w" "nextSerial v = nextSerial w"
  using assms by (simp_all add: calm_def faultless_def clockOf_def nextSerial_def split: list.split)

lemma calm_basic: "calm w w" "calm w (enterLock n w)" "calm w (leaveLock w)" "calm w v \<Longrightarrow> calm v u \<Longrightarrow> calm w u"
  by (auto simp: calm_def sameState_def)

text \<open>A replica whose cached list is the stored one, and a pending list that decodes.\<close>

definition inSync :: "world \<Rightarrow> RevocationList \<Rightarrow> bool" where
  "inSync w l = (\<exists>b. stCRL (wStore w) = Some b \<and> selectOwnCRL b (CACert (wCA w)) = Inr (Some l)
     \<and> cachedCRL (wCA w) = Some l)"

definition pendingReadable :: "world \<Rightarrow> bool" where
  "pendingReadable w = (case stSuperseded (wStore w) of None \<Rightarrow> True | Some b \<Rightarrow> \<not> sbCorrupt b)"

lemma inSync_calm: "calm w v \<Longrightarrow> inSync v l = inSync w l"
  by (simp add: inSync_def calm_def sameState_def)

lemma live_sync:
  assumes "faultless w" "inSync w l"
  shows "run_state SyncCRLCache w = (Inr False, leaveLock (enterLock LockMu w))"
proof -
  obtain b where b: "stCRL (wStore w) = Some b" "selectOwnCRL b (CACert (wCA w)) = Inr (Some l)" "cachedCRL (wCA w) = Some l"
    using assms(2) by (auto simp: inSync_def)
  have "run_state (syncFrom b) v = (Inr False, v)" if "wCA v = wCA w" for v
    using b that by (simp add: syncFrom_def run_bindE run_onError)
  then show ?thesis using b(1) assms(1) by (simp add: SyncCRLCache_def GetCRL_def run_bindE run_onError live optionE_def)
qed

lemma live_isRevoked:
  assumes "cachedCRL (wCA w) = Some l"
  shows "run_state (IsRevokedSerial n) w = (Inr (n \<in> revokedSerials l), leaveLock (enterLock LockMu w))"
  using assms by (simp add: IsRevokedSerial_def run_bindE live_mu mem_revoked)

lemma live_notSuperseded:
  assumes "faultless w" "pendingReadable w" "notWaiting w p"
  shows "run_state (refuseIfSuperseded (Some p) s) w = (Inr (), w)"
  using assms by (cases "stSuperseded (wStore w)")
    (auto simp: refuseIfSuperseded_def loadSuperseded_def GetSuperseded_def run_bindE run_attempt live optionE_def
      parseSuperseded_def Let_def pendingReadable_def notWaiting_def pending_def list_ex_iff)

lemma live_refuse:
  assumes "faultless w" "inSync w l" "certSerialNumber p \<notin> revokedSerials l" "pendingReadable w" "notWaiting w p"
  obtains v where "run_state (refuseIfRevoked (Some p) s) w = (Inr (), v)" "calm w v"
proof -
  let ?u = "leaveLock (enterLock LockMu w)" let ?v = "leaveLock (enterLock LockMu ?u)"
  have s: "cachedCRL (wCA ?u) = Some l" "faultless ?v" "pendingReadable ?v" "notWaiting ?v p"
    using assms by (auto simp: inSync_def pendingReadable_def notWaiting_def pending_def)
  have "run_state (refuseIfRevoked (Some p) s) w = (Inr (), ?v)"
    using live_sync [OF assms(1,2)] live_isRevoked [OF s(1)] live_notSuperseded [OF s(2-4)] assms(3)
    by (simp add: refuseIfRevoked_def run_bindE run_attempt)
  moreover have "calm w ?v" by (simp add: calm_def sameState_def)
  ultimately show ?thesis using that by blast
qed

lemma live_latestSerial:
  assumes "faultless w" "inventoryIntact w"
  shows "run_state (LatestSerialForSubject subject) w = (latestSerial (storeEntries (wStore w)) subject, w)"
proof (cases "stInventory (wStore w)")
  case (InvRows rows)
  then show ?thesis using assms(1)
    by (simp add: LatestSerialForSubject_def run_bindE isChained_def live tblLatestSerialForSubject_def latestSerial_def
        storeEntries_def tblEntries_def)
next
  case (InvBlob b)
  have "run_state ReadInventory w = (optionE b, w)"
    using InvBlob assms verify_live [OF assms] by (simp add: ReadInventory_def run_bindE live)
  then show ?thesis
    using InvBlob by (cases b) (simp_all add: LatestSerialForSubject_def run_bindE isChained_def storeEntries_def
        optionE_def latestSerialFromBlob_entries parseInventoryBlob_def parseInventoryBlobCounting_def go_string)
qed

lemma live_existing:
  assumes "faultless w" "inventoryIntact w"
  obtains old where "run_state (existingSerial subject) w = (Inr old, w)"
  using that live_latestSerial [OF assms, of subject]
  by (cases "latestSerial (storeEntries (wStore w)) subject")
    (auto simp: existingSerial_def run_bindE run_attempt errors_is_def latestSerial_def split: option.splits)

lemma retireReplaced_total: "\<exists>v. run_state (retireReplaced subject old cert) w = (Inr cert, v)"
  by (cases old) (auto simp: retireReplaced_def run_bindE run_attempt split: prod.splits)

text \<open>What a renewal of a certificate by this replica needs to go through.\<close>

definition renewable :: "world \<Rightarrow> Certificate \<Rightarrow> bool" where
  "renewable w p = (faultless w \<and> (\<exists>ca l n. CACert (wCA w) = Some ca \<and> CAKey (wCA w) = Some (certPublicKey ca)
     \<and> certSignedBy ca p \<and> inSync w l \<and> certSerialNumber p \<notin> revokedSerials l \<and> inventoryIntact w \<and> pendingReadable w \<and> notWaiting w p
     \<and> nextSerial w = Some n \<and> serialHexStr n \<notin> ieSerial ` set (storeEntries (wStore w))
     \<and> 0 < time_sub (certNotAfter ca) (clockOf w)) \<and> ValidateSubject (nmCommonName (certSubject p)) = Inr ())"

lemma renewable_calm:
  assumes "calm w v"
  shows "renewable v p = renewable w p"
  using calm_facts [OF assms] inSync_calm [OF assms] intact_same [of w v]
  by (simp add: renewable_def pendingReadable_def notWaiting_def pending_def sameState_def)

lemma live_reissue:
  assumes "renewable w p" "validatePublicKey pub = Inr ()"
  obtains cert v where "run_state (reissueLeafLocked (nmCommonName (certSubject p)) p pub) w = (Inr cert, v)"
proof -
  from assms(1) obtain ca n where r: "faultless w" "CACert (wCA w) = Some ca" "CAKey (wCA w) = Some (certPublicKey ca)"
    "ValidateSubject (nmCommonName (certSubject p)) = Inr ()" "nextSerial w = Some n"
    "serialHexStr n \<notin> ieSerial ` set (storeEntries (wStore w))" "0 < time_sub (certNotAfter ca) (clockOf w)"
    by (auto simp: renewable_def)
  from r(1-4) assms(2) r(5-7) obtain cert v
    where "run_state (issueLeafLocked (nmCommonName (certSubject p)) (certSubject p) pub noSANs (carriedExtensions p) [] 0) w = (Inr cert, v)"
    by (rule live_issue)
  then show ?thesis using that by (simp add: reissueLeafLocked_def)
qed

lemma renewable_refuse:
  assumes "renewable w p"
  obtains v where "run_state (refuseIfRevoked (Some p) s) w = (Inr (), v)" "renewable v p" "calm w v"
proof -
  from assms obtain l where "faultless w" "inSync w l" "certSerialNumber p \<notin> revokedSerials l" "pendingReadable w" "notWaiting w p"
    by (auto simp: renewable_def)
  then obtain v where "run_state (refuseIfRevoked (Some p) s) w = (Inr (), v)" "calm w v" by (rule live_refuse)
  then show ?thesis using that renewable_calm assms by blast
qed

lemma live_renewUnderLock:
  assumes "renewable w p" "validatePublicKey (csrPublicKey csr) = Inr ()"
  shows "\<exists>cert v. run_state (renewUnderLock (nmCommonName (certSubject p)) p csr) w = (Inr cert, v)"
proof -
  let ?s = "nmCommonName (certSubject p)"
  from assms(1) obtain u where u: "run_state (refuseIfRevoked (Some p) ?s) w = (Inr (), u)" "renewable u p" "calm w u"
    by (rule renewable_refuse)
  obtain old where old: "run_state (existingSerial ?s) u = (Inr old, u)"
    using live_existing [of u ?s] u(2) by (auto simp: renewable_def)
  have "renewable (enterLock LockMu u) p" using u(2) renewable_calm calm_basic(2) by blast
  then obtain cert x where x: "run_state (reissueLeafLocked ?s p (csrPublicKey csr)) (enterLock LockMu u) = (Inr cert, x)"
    using assms(2) by (rule live_reissue)
  obtain r y where y: "run_state (DeleteCSR ?s) x = (r, y)" by fastforce
  obtain v where "run_state (retireReplaced ?s old cert) (leaveLock y) = (Inr cert, v)" using retireReplaced_total by blast
  then have "run_state (renewUnderLock ?s p csr) w = (Inr cert, v)"
    using u(1) old x y by (simp add: renewUnderLock_def run_bindE live_mu run_attempt)
  then show ?thesis by blast
qed

lemma live_autoRenewUnderLock:
  assumes "renewable w p" "validatePublicKey (certPublicKey p) = Inr ()"
  shows "\<exists>cert v. run_state (autoRenewUnderLock (nmCommonName (certSubject p)) p) w = (Inr cert, v)"
proof -
  let ?s = "nmCommonName (certSubject p)"
  from assms(1) obtain u where u: "run_state (refuseIfRevoked (Some p) ?s) w = (Inr (), u)" "renewable u p" "calm w u"
    by (rule renewable_refuse)
  have "renewable (enterLock LockMu u) p" using u(2) renewable_calm calm_basic(2) by blast
  then obtain cert x where x: "run_state (reissueLeafLocked ?s p (certPublicKey p)) (enterLock LockMu u) = (Inr cert, x)"
    using assms(2) by (rule live_reissue)
  let ?old = "if RevokeOnAutoRenew (wConfig x) then Some (serialHexStr (certSerialNumber p)) else None"
  obtain v where "run_state (retireReplaced ?s ?old cert) (leaveLock x) = (Inr cert, v)" using retireReplaced_total by blast
  then have "run_state (autoRenewUnderLock ?s p) w = (Inr cert, v)"
    using u(1) x by (simp add: autoRenewUnderLock_def run_bindE live_mu)
  then show ?thesis by blast
qed

lemma live_renewals:
  assumes "renewable w p"
  shows "csrSignatureOk csr \<and> nmCommonName (csrSubject csr) = nmCommonName (certSubject p)
      \<and> validatePublicKey (csrPublicKey csr) = Inr () \<longrightarrow>
      (\<exists>cert v. run_state (Renew (nmCommonName (certSubject p)) (PEM csr) (Some p)) w = (Inr cert, v))"
    "validatePublicKey (certPublicKey p) = Inr () \<longrightarrow> (\<exists>cert v. run_state (AutoRenew (Some p)) w = (Inr cert, v))"
proof -
  let ?s = "nmCommonName (certSubject p)"
  have own: "run_state (assertOwnCertificate p) w = (Inr (), w)" "ValidateSubject ?s = Inr ()"
    using assms by (auto simp: assertOwnCertificate_def run_bindE renewable_def)
  from assms obtain u where u: "run_state (refuseIfRevoked (Some p) ?s) w = (Inr (), u)" "renewable u p" "calm w u"
    by (rule renewable_refuse)
  have f: "faultless u" using u(2) by (simp add: renewable_def)
  have lk: "renewable (enterLock (LockSubject ?s) u) p" using u(2) renewable_calm calm_basic(2) by blast
  show "csrSignatureOk csr \<and> nmCommonName (csrSubject csr) = ?s \<and> validatePublicKey (csrPublicKey csr) = Inr () \<longrightarrow>
      (\<exists>cert v. run_state (Renew ?s (PEM csr) (Some p)) w = (Inr cert, v))"
  proof
    assume c: "csrSignatureOk csr \<and> nmCommonName (csrSubject csr) = ?s \<and> validatePublicKey (csrPublicKey csr) = Inr ()"
    then obtain cert v where "run_state (renewUnderLock ?s p csr) (enterLock (LockSubject ?s) u) = (Inr cert, v)"
      using live_renewUnderLock [OF lk] by blast
    then show "\<exists>cert v. run_state (Renew ?s (PEM csr) (Some p)) w = (Inr cert, v)"
      using c own u(1) f by (simp add: Renew_def run_bindE live_lock)
  qed
  show "validatePublicKey (certPublicKey p) = Inr () \<longrightarrow> (\<exists>cert v. run_state (AutoRenew (Some p)) w = (Inr cert, v))"
  proof
    assume "validatePublicKey (certPublicKey p) = Inr ()"
    then obtain cert v where "run_state (autoRenewUnderLock ?s p) (enterLock (LockSubject ?s) u) = (Inr cert, v)"
      using live_autoRenewUnderLock [OF lk] by blast
    then show "\<exists>cert v. run_state (AutoRenew (Some p)) w = (Inr cert, v)"
      using own u(1) f by (simp add: AutoRenew_def run_bindE Let_def live_lock)
  qed
qed

lemma sample_sync: "inSync sample (sampleCRL 1 [])" "certSerialNumber (sampleLeaf n) \<notin> revokedSerials (sampleCRL 1 [])"
proof -
  have "selectOwnCRL (encodeCRLChain [sampleCRL (Suc 0) []]) (Some sampleCACert) = Inr (Some (sampleCRL (Suc 0) []))"
    using ownCRLIn_lead [OF sample_owns, of "[]"] by (simp add: selectOwnCRL_def)
  then show "inSync sample (sampleCRL 1 [])" by (simp add: inSync_def sampleStore_def sampleCA_def)
  show "certSerialNumber (sampleLeaf n) \<notin> revokedSerials (sampleCRL 1 [])" by (simp add: revokedSerials_def sampleCRL_def)
qed

lemma sample_renewable: "renewable sample (sampleLeaf n)"
proof -
  have "inventoryIntact sample" "pendingReadable sample" "notWaiting sample (sampleLeaf n)"
    by (simp_all add: inventoryIntact_def pendingReadable_def notWaiting_def pending_def sampleStore_def sampleCA_def)
  then show ?thesis
    unfolding renewable_def
    by (intro conjI exI [of _ sampleCACert] exI [of _ "sampleCRL 1 []"] exI [of _ 5] sample_sync) (simp_all add: sampleCA_def)
qed

text \<open>The sample with an integrity key, the value of its inventory, and another certificate waiting.\<close>

definition sampleKeyed :: world where
  "sampleKeyed = sample\<lparr>wCA := sampleCA\<lparr>hmacKey := Some ''k''\<rparr>,
     wStore := sampleStore\<lparr>stInventoryHMAC := Some (computedHead (hmacSHA256 sampleConfig) ''k'' sampleStore),
       stSuperseded := Some \<lparr>sbEntries = [\<lparr>seSerial = ''7'', seSubject = ''b'', seRevokeAt = 0\<rparr>], sbCorrupt = False\<rparr>\<rparr>\<rparr>"

lemma sampleKeyed_parts:
  "wCA sampleKeyed = sampleCA\<lparr>hmacKey := Some ''k''\<rparr>" "wConfig sampleKeyed = sampleConfig" "wEnv sampleKeyed = sampleEnv"
  "storeEntries (wStore sampleKeyed) = storeEntries sampleStore" "stCRL (wStore sampleKeyed) = stCRL sampleStore"
  "pending sampleKeyed = [\<lparr>seSerial = ''7'', seSubject = ''b'', seRevokeAt = 0\<rparr>]" "pendingReadable sampleKeyed"
  "inventoryIntact sampleKeyed"
  by (simp_all add: sampleKeyed_def pending_def pendingReadable_def inventoryIntact_def computedHead_def storeEntries_def
      storeBlob_def isChained_def)

lemma sampleKeyed_renewable: "renewable sampleKeyed (sampleLeaf 8)"
proof -
  have "NormaliseSerial ''7'' \<noteq> Inr (serialHexStr 8)" by code_simp
  then have "inSync sampleKeyed (sampleCRL 1 [])" "notWaiting sampleKeyed (sampleLeaf 8)"
    using sample_sync(1) by (simp_all add: inSync_def sampleKeyed_parts notWaiting_def)
  moreover have "faultless sampleKeyed" "nextSerial sampleKeyed = nextSerial sample" "clockOf sampleKeyed = 10 * second"
    by (simp_all add: sampleKeyed_parts faultless_def nextSerial_def clockOf_def sampleEnv_def)
  ultimately show ?thesis
    unfolding renewable_def
    by (intro conjI exI [of _ sampleCACert] exI [of _ "sampleCRL 1 []"] exI [of _ 5] sample_sync(2) sampleKeyed_parts)
      (simp_all add: sampleKeyed_parts, simp_all add: sampleCA_def)
qed

lemma sample_key [simp]: "validatePublicKey (ECDSAKey P256 k) = Inr ()"
  by (simp add: validatePublicKey_def)

theorem renewal_was_entitled_witness:
  "\<exists>cert v. run_state (Renew ''a'' (PEM sampleCSR) (Some (sampleLeaf 7))) sample = (Inr cert, v)
     \<and> certPublicKey cert = csrPublicKey sampleCSR \<and> nmCommonName (certSubject cert) = ''a''"
proof -
  obtain cert v where r: "run_state (Renew ''a'' (PEM sampleCSR) (Some (sampleLeaf 7))) sample = (Inr cert, v)"
    using live_renewals(1) [OF sample_renewable [of 7], of sampleCSR] by auto
  then show ?thesis using renewal_was_entitled [OF r] by auto
qed

theorem auto_renewal_was_entitled_witness:
  "\<exists>cert v. run_state (AutoRenew (Some (sampleLeaf 7))) sample = (Inr cert, v) \<and> certPublicKey cert = ECDSAKey P256 3"
proof -
  obtain cert v where r: "run_state (AutoRenew (Some (sampleLeaf 7))) sample = (Inr cert, v)"
    using live_renewals(2) [OF sample_renewable [of 7]] by auto
  then show ?thesis using auto_renewal_was_entitled [OF r] by auto
qed

text \<open>
  C23. An entitled renewal goes through.  On a replica that holds the stored list, with a
  backend that answers, a pending list that decodes, an inventory that its integrity value
  covers if an integrity key is configured, a fresh serial and a CA certificate that has
  not expired, a certificate of this CA for a valid subject that is neither revoked nor
  waiting is renewed by both paths, with a well-signed request for the same name and keys
  that meet the policy.
\<close>

theorem entitled_renewal_succeeds:
  assumes "renewable w p" "csrSignatureOk csr" "nmCommonName (csrSubject csr) = nmCommonName (certSubject p)"
    and "validatePublicKey (csrPublicKey csr) = Inr ()" "validatePublicKey (certPublicKey p) = Inr ()"
  shows "(\<exists>cert v. run_state (Renew (nmCommonName (certSubject p)) (PEM csr) (Some p)) w = (Inr cert, v))
    \<and> (\<exists>cert v. run_state (AutoRenew (Some p)) w = (Inr cert, v))"
  using live_renewals [OF assms(1)] assms(2-5) by blast

theorem entitled_renewal_succeeds_witness:
  "(\<exists>cert v. run_state (Renew ''a'' (PEM sampleCSR) (Some (sampleLeaf 8))) sampleKeyed = (Inr cert, v))
   \<and> (\<exists>cert v. run_state (AutoRenew (Some (sampleLeaf 8))) sampleKeyed = (Inr cert, v))"
  using entitled_renewal_succeeds [OF sampleKeyed_renewable, of sampleCSR] by simp

end
