(* ===== verification/SerialIndex.thy ===== *)
theory SerialIndex
  imports Signing
begin

text \<open>
  The serial index of the OCSP responder (internal/ca/ocsp.go) and its reconciliation with
  the inventory (internal/ca/serialsync.go).  The index answers whether this CA issued a
  serial.  A pass samples two counters, reads the inventory without holding the mutex, and
  applies the read under it; the counters say whether the index gained or lost serials in
  between.  The counters are 64-bit in the code and never come near that width, so they are
  natural numbers here.  Lemmas: an undisturbed pass makes the index the inventory's, and a
  disturbed one neither forgets a serial issued meanwhile nor brings back one pruned
  meanwhile.
\<close>

section \<open>Reading the inventory into an index\<close>

fun indexEntries :: "InventoryEntry list \<Rightarrow> (string \<times> string) list \<Rightarrow> (string \<times> string) list" where
  "indexEntries [] index = index"
| "indexEntries (e # es) index =
     (case set_string16 (ieSerial e) of
        None \<Rightarrow> indexEntries es index
      | Some n \<Rightarrow> indexEntries es (AList.update (serialHexStr n) (ieSubject e) index))"

definition readSerialIndex :: "(string \<times> string) list opr" where
  "readSerialIndex = bindE InventoryEntries (\<lambda>entries. ok (indexEntries entries []))"

definition buildSerialIndex :: "unit opr" where
  "buildSerialIndex =
     bindE readSerialIndex (\<lambda>index. changeCA (\<lambda>ca. ca\<lparr>serialIndex := index\<rparr>))"

section \<open>Forgetting a serial\<close>

definition dropSerialLocked :: "string \<Rightarrow> CA \<Rightarrow> CA" where
  "dropSerialLocked serial ca =
     (let ca1 = evictOCSPLocked serial (ca\<lparr>serialIndex := AList.delete serial (serialIndex ca)\<rparr>)
      in ca1\<lparr>serialIndexRemovalEpoch := Suc (serialIndexRemovalEpoch ca1)\<rparr>)"

definition unindexSerialLocked :: "string \<Rightarrow> CA \<Rightarrow> CA" where
  "unindexSerialLocked serial ca =
     (let ca1 = dropSerialLocked serial ca in ca1\<lparr>serialIndexEpoch := Suc (serialIndexEpoch ca1)\<rparr>)"

section \<open>Reconciling\<close>

record SerialIndexDelta =
  Added :: nat
  Removed :: nat
  Total :: nat

fun addStored :: "(string \<times> string) list \<Rightarrow> nat \<times> CA \<Rightarrow> nat \<times> CA" where
  "addStored [] (added, ca) = (added, ca)"
| "addStored ((serial, subject) # stored) (added, ca) =
     (let known = map_of (serialIndex ca) serial;
          added1 = (if known = None then Suc added else added);
          ca1 = (if known \<noteq> Some subject
                 then ca\<lparr>serialIndex := AList.update serial subject (serialIndex ca)\<rparr> else ca)
      in addStored stored (added1, ca1))"

fun removeAbsent :: "(string \<times> string) list \<Rightarrow> string list \<Rightarrow> nat \<times> CA \<Rightarrow> nat \<times> CA" where
  "removeAbsent stored [] (removed, ca) = (removed, ca)"
| "removeAbsent stored (serial # serials) (removed, ca) =
     removeAbsent stored serials
       (if map_of stored serial = None then (Suc removed, dropSerialLocked serial ca) else (removed, ca))"

definition reconcileSerialIndexLocked ::
    "(string \<times> string) list \<Rightarrow> nat \<Rightarrow> nat \<Rightarrow> CA \<Rightarrow> SerialIndexDelta \<times> CA" where
  "reconcileSerialIndexLocked stored readEpoch readRemovalEpoch ca =
     (let raced = (serialIndexEpoch ca \<noteq> readEpoch);
          sawRemoval = (serialIndexRemovalEpoch ca \<noteq> readRemovalEpoch);
          (added, ca1) = (if sawRemoval then (0, ca) else addStored stored (0, ca));
          ca2 = (if 0 < added then ca1\<lparr>serialIndexEpoch := Suc (serialIndexEpoch ca1)\<rparr> else ca1);
          (removed, ca3) = (if raced then (0, ca2)
             else removeAbsent stored (map fst (serialIndex ca2)) (0, ca2))
      in (\<lparr>Added = added, Removed = removed, Total = length (serialIndex ca3)\<rparr>, ca3))"

definition withCA :: "(CA \<Rightarrow> 'a \<times> CA) \<Rightarrow> 'a opr" where
  "withCA f = State (\<lambda>w. case f (wCA w) of (x, ca) \<Rightarrow> (Inr x, updCA (\<lambda>_. ca) w))"

definition SyncSerialIndex :: "SerialIndexDelta opr" where
  "SyncSerialIndex =
     bindE (withMu (getsE (\<lambda>w. (serialIndexEpoch (wCA w), serialIndexRemovalEpoch (wCA w))))) (\<lambda>(epoch, removalEpoch).
     bindE (onError readSerialIndex (\<lambda>_. modify (updCA (serialIndexSyncFailures_update Suc)))) (\<lambda>stored.
     withMu (withCA (reconcileSerialIndexLocked stored epoch removalEpoch))))"

section \<open>The loops as maps\<close>

definition indexed :: "CA \<Rightarrow> string set" where
  "indexed ca = fst ` set (serialIndex ca)"

text \<open>What an index built from these entries answers: the last entry of a serial decides.\<close>

definition inventoryIndex :: "InventoryEntry list \<Rightarrow> string \<rightharpoonup> string" where
  "inventoryIndex es = map_of (indexEntries es [])"

lemma indexed_dom: "indexed ca = dom (map_of (serialIndex ca))"
  by (simp add: indexed_def dom_map_of_conv_image_fst)

lemma distinct_index: "distinct (map fst al) \<Longrightarrow> distinct (map fst (indexEntries es al))"
  by (induction es al rule: indexEntries.induct) (auto simp: distinct_update split: option.splits)

lemma addStored_map:
  assumes "addStored stored (a, ca) = (b, ca')" "distinct (map fst stored)"
  shows "map_of (serialIndex ca') = map_of (serialIndex ca) ++ map_of stored"
    "b = a + card (dom (map_of stored) - indexed ca)"
    "ca' = ca\<lparr>serialIndex := serialIndex ca'\<rparr>" "distinct (map fst (serialIndex ca)) \<Longrightarrow> distinct (map fst (serialIndex ca'))"
proof -
  let ?P = "\<lambda>stored a ca. map_of (serialIndex ca') = map_of (serialIndex ca) ++ map_of stored
    \<and> b = a + card (dom (map_of stored) - indexed ca) \<and> ca' = ca\<lparr>serialIndex := serialIndex ca'\<rparr>
    \<and> (distinct (map fst (serialIndex ca)) \<longrightarrow> distinct (map fst (serialIndex ca')))"
  from assms have "?P stored a ca"
  proof (induction stored arbitrary: a ca)
    case (Cons x stored)
    obtain s t where x: "x = (s, t)" by fastforce
    let ?c = "if map_of (serialIndex ca) s \<noteq> Some t
       then ca\<lparr>serialIndex := AList.update s t (serialIndex ca)\<rparr> else ca"
    let ?a = "if map_of (serialIndex ca) s = None then Suc a else a"
    have m: "map_of (serialIndex ?c) = (map_of (serialIndex ca))(s \<mapsto> t)"
      by (auto simp: update_conv' map_upd_triv)
    have ih: "?P stored ?a ?c" using Cons.prems x by (intro Cons.IH) (simp_all add: Let_def)
    have d: "dom (map_of (x # stored)) = insert s (dom (map_of stored))" "s \<notin> dom (map_of stored)"
      using x Cons.prems(2) by (auto simp: dom_map_of_conv_image_fst)
    have "dom (map_of stored) - indexed ?c = dom (map_of stored) - indexed ca"
      using d(2) by (auto simp: indexed_dom m)
    moreover have "card (insert s (dom (map_of stored)) - indexed ca)
        = (if s \<in> indexed ca then 0 else 1) + card (dom (map_of stored) - indexed ca)"
      using d(2) finite_dom_map_of [of stored] by (auto simp: insert_Diff_if)
    moreover have "(s \<in> indexed ca) = (map_of (serialIndex ca) s \<noteq> None)" by (auto simp: indexed_dom)
    ultimately have "b = a + card (dom (map_of (x # stored)) - indexed ca)" using ih d(1) by auto
    moreover have "map_of (serialIndex ca') = map_of (serialIndex ca) ++ map_of (x # stored)"
      using ih m x d(2) by (auto simp: map_add_upd_left)
    moreover have "distinct (map fst (serialIndex ca)) \<longrightarrow> distinct (map fst (serialIndex ca'))"
      using ih by (auto simp: distinct_update)
    moreover have "ca' = ca\<lparr>serialIndex := serialIndex ca'\<rparr>" using ih by (auto split: if_splits)
    ultimately show ?case by blast
  qed simp
  then show "map_of (serialIndex ca') = map_of (serialIndex ca) ++ map_of stored"
    "b = a + card (dom (map_of stored) - indexed ca)"
    "ca' = ca\<lparr>serialIndex := serialIndex ca'\<rparr>" "distinct (map fst (serialIndex ca)) \<Longrightarrow> distinct (map fst (serialIndex ca'))"
    by blast+
qed

lemma drop_fields [simp]:
  "serialIndex (dropSerialLocked s ca) = AList.delete s (serialIndex ca)"
  "serialIndexEpoch (dropSerialLocked s ca) = serialIndexEpoch ca"
  "serialIndexRemovalEpoch (dropSerialLocked s ca) = Suc (serialIndexRemovalEpoch ca)"
  "cachedCRL (dropSerialLocked s ca) = cachedCRL ca" "CACert (dropSerialLocked s ca) = CACert ca"
  "CAKey (dropSerialLocked s ca) = CAKey ca" "hmacKey (dropSerialLocked s ca) = hmacKey ca"
  "ocspCache (dropSerialLocked s ca) = ocspCache (evictOCSPLocked s ca)"
  by (simp_all add: dropSerialLocked_def evictOCSPLocked_def Let_def)

lemma removeAbsent_map:
  "serialIndex (snd (removeAbsent stored ss (a, ca)))
     = filter (\<lambda>(k, v). \<not> (k \<in> set ss \<and> map_of stored k = None)) (serialIndex ca)"
proof (induction ss arbitrary: a ca)
  case (Cons s ss)
  show ?case
    by (cases "map_of stored s") (auto simp: Cons.IH AList.delete_eq intro!: filter_cong)
qed (simp add: split_def)

lemma removeAbsent_epoch:
  "serialIndexEpoch (snd (removeAbsent stored ss (a, ca))) = serialIndexEpoch ca"
  "serialIndexRemovalEpoch ca \<le> serialIndexRemovalEpoch (snd (removeAbsent stored ss (a, ca)))"
  "\<exists>s \<in> set ss. map_of stored s = None \<Longrightarrow>
     serialIndexRemovalEpoch ca < serialIndexRemovalEpoch (snd (removeAbsent stored ss (a, ca)))"
proof (induction ss arbitrary: a ca)
  case (Cons s ss)
  { case 1 then show ?case using Cons.IH(1) by (simp split: if_splits) }
  { case 2 then show ?case 
      using Cons.IH(2) [where ca = "dropSerialLocked s ca"] Cons.IH(2) [where ca = ca]
      by (auto simp: Suc_le_eq less_imp_le) }
  { case 3 then show ?case
      using Cons.IH(2) [where ca = "dropSerialLocked s ca" and a = "Suc a"] Cons.IH(3) [where ca = ca and a = a]
      by (cases "map_of stored s") (auto simp: Suc_le_eq) }
qed simp_all

lemma map_of_filter_key: "map_of (filter (\<lambda>(k, v). P k) al) = map_of al |` {k. P k}"
  by (induction al) (auto simp: fun_eq_iff restrict_map_def)

section \<open>One pass\<close>

text \<open>Nothing touched the index since the read: it becomes what was read.\<close>

lemma reconcile_calm:
  assumes "reconcileSerialIndexLocked stored (serialIndexEpoch ca) (serialIndexRemovalEpoch ca) ca = (d, ca')"
    and "distinct (map fst stored)"
  shows "map_of (serialIndex ca') = map_of stored"
proof -
  obtain a ca1 where a: "addStored stored (0, ca) = (a, ca1)" by fastforce
  let ?ca2 = "if 0 < a then ca1\<lparr>serialIndexEpoch := Suc (serialIndexEpoch ca1)\<rparr> else ca1"
  have i: "serialIndex ?ca2 = serialIndex ca1" by simp
  have "ca' = snd (removeAbsent stored (map fst (serialIndex ?ca2)) (0, ?ca2))"
    using assms(1) a by (simp add: reconcileSerialIndexLocked_def split_def Let_def split: if_splits)
  then have "serialIndex ca' = filter (\<lambda>(k, v). \<not> (k \<in> fst ` set (serialIndex ca1) \<and> map_of stored k = None)) (serialIndex ca1)"
    by (simp only: removeAbsent_map i set_map)
  then have "map_of (serialIndex ca')
      = map_of (serialIndex ca1) |` {k. \<not> (k \<in> fst ` set (serialIndex ca1) \<and> map_of stored k = None)}"
    using map_of_filter_key [of "\<lambda>k. \<not> (k \<in> fst ` set (serialIndex ca1) \<and> map_of stored k = None)"] by simp
  moreover have "map_of (serialIndex ca1) = map_of (serialIndex ca) ++ map_of stored"
    by (rule addStored_map(1) [OF a assms(2)])
  moreover have "fst ` set (serialIndex ca1) = dom (map_of (serialIndex ca1))"
    by (simp add: dom_map_of_conv_image_fst)
  ultimately have "map_of (serialIndex ca') k = map_of stored k" for k
    by (cases "map_of stored k"; cases "map_of (serialIndex ca) k") (simp_all add: restrict_map_def map_add_def dom_def)
  then show ?thesis by blast
qed

text \<open>What a pass does to the counters and to the set of serials, disturbed or not.\<close>

lemma reconcile_moves:
  assumes "reconcileSerialIndexLocked stored re rr ca = (d, ca')" "distinct (map fst stored)"
  shows "serialIndexEpoch ca \<le> serialIndexEpoch ca'" "serialIndexRemovalEpoch ca \<le> serialIndexRemovalEpoch ca'"
    "\<not> indexed ca' \<subseteq> indexed ca \<Longrightarrow> serialIndexEpoch ca < serialIndexEpoch ca'"
    "\<not> indexed ca \<subseteq> indexed ca' \<Longrightarrow> serialIndexRemovalEpoch ca < serialIndexRemovalEpoch ca'"
    "serialIndexEpoch ca \<noteq> re \<Longrightarrow> indexed ca \<subseteq> indexed ca'"
    "serialIndexRemovalEpoch ca \<noteq> rr \<Longrightarrow> indexed ca' \<subseteq> indexed ca"
proof -
  obtain a ca1 where a: "(if serialIndexRemovalEpoch ca \<noteq> rr then (0, ca) else addStored stored (0, ca)) = (a, ca1)"
    by fastforce
  define ca2 where "ca2 = (if 0 < a then ca1\<lparr>serialIndexEpoch := Suc (serialIndexEpoch ca1)\<rparr> else ca1)"
  have ca': "ca' = (if serialIndexEpoch ca \<noteq> re then ca2
      else snd (removeAbsent stored (map fst (serialIndex ca2)) (0, ca2)))"
    using assms(1) a by (simp add: reconcileSerialIndexLocked_def split_def Let_def ca2_def split: if_splits)
  have one: "indexed ca \<subseteq> indexed ca1" "serialIndexEpoch ca1 = serialIndexEpoch ca"
      "serialIndexRemovalEpoch ca1 = serialIndexRemovalEpoch ca"
      "\<not> indexed ca1 \<subseteq> indexed ca \<Longrightarrow> 0 < a" "serialIndexRemovalEpoch ca \<noteq> rr \<Longrightarrow> indexed ca1 = indexed ca"
  proof -
    have "ca1 = ca \<or> (indexed ca1 = indexed ca \<union> dom (map_of stored)
        \<and> a = card (dom (map_of stored) - indexed ca) \<and> (\<exists>al. ca1 = ca\<lparr>serialIndex := al\<rparr>))"
    proof (cases "serialIndexRemovalEpoch ca = rr")
      case True
      then have "addStored stored (0, ca) = (a, ca1)" using a by simp
      note m = addStored_map(1-3) [OF this assms(2)]
      show ?thesis using m(1,2) exI [of "\<lambda>al. ca1 = ca\<lparr>serialIndex := al\<rparr>", OF m(3)] by (auto simp: indexed_dom)
    next
      case False
      then show ?thesis using a by simp
    qed
    moreover have "dom (map_of stored) \<subseteq> indexed ca" if "card (dom (map_of stored) - indexed ca) = 0"
      using that by (simp add: finite_dom_map_of)
    ultimately show "indexed ca \<subseteq> indexed ca1" "serialIndexEpoch ca1 = serialIndexEpoch ca"
      "serialIndexRemovalEpoch ca1 = serialIndexRemovalEpoch ca" "\<not> indexed ca1 \<subseteq> indexed ca \<Longrightarrow> 0 < a"
      by (cases "a = 0"; auto)+
    show "serialIndexRemovalEpoch ca \<noteq> rr \<Longrightarrow> indexed ca1 = indexed ca" using a by simp
  qed
  have two: "indexed ca2 = indexed ca1" "serialIndexEpoch ca2 = serialIndexEpoch ca1 + (if 0 < a then 1 else 0)"
      "serialIndexRemovalEpoch ca2 = serialIndexRemovalEpoch ca1" by (simp_all add: ca2_def indexed_def)
  let ?r = "snd (removeAbsent stored (map fst (serialIndex ca2)) (0, ca2))"
  have sub: "indexed ?r \<subseteq> indexed ca2" by (auto simp: indexed_def removeAbsent_map)
  have lost: "\<exists>s \<in> set (map fst (serialIndex ca2)). map_of stored s = None" if "\<not> indexed ca2 \<subseteq> indexed ?r"
    using that by (force simp: indexed_def removeAbsent_map)
  note rem = removeAbsent_epoch [where stored = stored and ss = "map fst (serialIndex ca2)" and a = 0 and ca = ca2]
  show "serialIndexEpoch ca \<le> serialIndexEpoch ca'" "serialIndexRemovalEpoch ca \<le> serialIndexRemovalEpoch ca'"
    "serialIndexEpoch ca \<noteq> re \<Longrightarrow> indexed ca \<subseteq> indexed ca'"
    using ca' one two rem(1,2) by auto
  show "\<not> indexed ca' \<subseteq> indexed ca \<Longrightarrow> serialIndexEpoch ca < serialIndexEpoch ca'"
    using ca' one two rem(1) sub by (auto split: if_splits)
  show "\<not> indexed ca \<subseteq> indexed ca' \<Longrightarrow> serialIndexRemovalEpoch ca < serialIndexRemovalEpoch ca'"
    using ca' one two rem(3) lost by (auto split: if_splits)
  show "serialIndexRemovalEpoch ca \<noteq> rr \<Longrightarrow> indexed ca' \<subseteq> indexed ca"
    using ca' one(5) two(1) sub by (auto split: if_splits)
qed

lemma addStored_frame: "\<exists>al. snd (addStored stored (a, ca)) = ca\<lparr>serialIndex := al\<rparr>"
proof (induction stored arbitrary: a ca)
  case Nil
  show ?case by (rule exI [of _ "serialIndex ca"]) simp
next
  case (Cons x stored)
  obtain s t where x: "x = (s, t)" by fastforce
  show ?case
    using Cons.IH [of "if map_of (serialIndex ca) s = None then Suc a else a"
        "if map_of (serialIndex ca) s \<noteq> Some t then ca\<lparr>serialIndex := AList.update s t (serialIndex ca)\<rparr> else ca"]
    by (auto simp: x Let_def)
qed

text \<open>The rest of the replica: only cached answers of forgotten serials go.\<close>

definition indexFrame :: "CA \<Rightarrow> CA \<Rightarrow> bool" where
  "indexFrame ca ca' = (CACert ca' = CACert ca \<and> CAKey ca' = CAKey ca \<and> hmacKey ca' = hmacKey ca
     \<and> cachedCRL ca' = cachedCRL ca \<and> set (ocspCache ca') \<subseteq> set (ocspCache ca))"

lemma indexFrame_drop: "indexFrame ca (dropSerialLocked s ca)"
  by (auto simp: indexFrame_def evictOCSPLocked_def)

lemma indexFrame_trans: "indexFrame a b \<Longrightarrow> indexFrame b c \<Longrightarrow> indexFrame a c"
  by (auto simp: indexFrame_def)

lemma indexFrame_remove: "indexFrame ca (snd (removeAbsent stored ss (a, ca)))"
proof (induction ss arbitrary: a ca)
  case Nil
  show ?case by (simp add: indexFrame_def)
next
  case (Cons s ss)
  show ?case
    using Cons.IH [where ca = "dropSerialLocked s ca" and a = "Suc a"] Cons.IH [where ca = ca and a = a]
      indexFrame_trans [OF indexFrame_drop]
    by (cases "map_of stored s") auto
qed

lemma reconcile_frame: "indexFrame ca (snd (reconcileSerialIndexLocked stored e r ca))"
proof -
  obtain a ca1 where a: "(if serialIndexRemovalEpoch ca \<noteq> r then (0, ca) else addStored stored (0, ca)) = (a, ca1)"
    by fastforce
  define ca2 where "ca2 = (if 0 < a then ca1\<lparr>serialIndexEpoch := Suc (serialIndexEpoch ca1)\<rparr> else ca1)"
  obtain al where "ca1 = ca\<lparr>serialIndex := al\<rparr> \<or> ca1 = ca"
    using a addStored_frame [of stored 0 ca] by (auto split: if_splits)
  then have one: "indexFrame ca ca2" by (auto simp: ca2_def indexFrame_def)
  have "snd (reconcileSerialIndexLocked stored e r ca) = (if serialIndexEpoch ca \<noteq> e then ca2
      else snd (removeAbsent stored (map fst (serialIndex ca2)) (0, ca2)))"
    using a by (simp add: reconcileSerialIndexLocked_def split_def Let_def ca2_def)
  then show ?thesis using one indexFrame_trans [OF one indexFrame_remove] by simp
qed

lemma inv_readSerialIndex: "state_io_rel invFrame readSerialIndex"
  unfolding readSerialIndex_def InventoryEntries_def compareInventoryMACLocked_def
  by (auto intro!: inv.io split: option.splits sum.splits err.splits)

lemma owes_withCA:
  assumes "\<And>ca. indexFrame ca (snd (f ca))"
  shows "state_io_rel owes (withCA f)"
proof
  fix r w v assume "run_state (withCA f) w = (r, v)"
  then have v: "v = updCA (\<lambda>_. snd (f (wCA w))) w" by (simp add: withCA_def split_def)
  have "crlFrame w v" using assms [of "wCA w"] v by (simp add: crlFrame_def indexFrame_def sameId_def)
  then show "owes w v" using v crlFrame_step by (auto simp: owes_def accounted_def pending_def)
qed

lemma owes_SyncSerialIndex: "state_io_rel owes SyncSerialIndex"
proof -
  have q: "state_io_rel quiet (modify (updCA (serialIndexSyncFailures_update Suc)))"
    by (rule qt.io_modify) (simp add: quiet_def caFrame_def)
  show ?thesis
    unfolding SyncSerialIndex_def
    by (auto intro!: ow.io owes_inv [OF inv_readSerialIndex] owes_withCA reconcile_frame owes_quiet [OF q])
qed

section \<open>A whole pass\<close>

lemma SyncSerialIndex_ok:
  assumes run: "run_state SyncSerialIndex w = (Inr d, v)"
  shows "map_of (serialIndex (wCA v)) = inventoryIndex (storeEntries (wStore w))"
proof -
  obtain stored u where s: "run_state readSerialIndex (leaveLock (enterLock LockMu w)) = (Inr stored, u)"
    and r: "run_state (withMu (withCA (reconcileSerialIndexLocked stored (serialIndexEpoch (wCA w))
        (serialIndexRemovalEpoch (wCA w))))) u = (Inr d, v)"
    using run unfolding SyncSerialIndex_def by (auto elim!: bindE_okE simp: onError_ok live_mu)
  from s obtain es x where "run_state InventoryEntries (leaveLock (enterLock LockMu w)) = (Inr es, x)"
    "stored = indexEntries es []" "u = x"
    unfolding readSerialIndex_def by (auto elim!: bindE_okE)
  then have st: "stored = indexEntries (storeEntries (wStore w)) []" and u: "wCA u = wCA w"
    using InventoryEntries_ok(1,2) [of "leaveLock (enterLock LockMu w)" es x] by (auto simp: sameState_def)
  obtain d' ca' where rc: "reconcileSerialIndexLocked stored (serialIndexEpoch (wCA w))
        (serialIndexRemovalEpoch (wCA w)) (wCA w) = (d', ca')" by fastforce
  have "wCA v = ca'" using r rc u by (simp add: live_mu withCA_def split: prod.splits) auto
  then show ?thesis
    using reconcile_calm [OF rc] distinct_index [of "[]"] st by (simp add: inventoryIndex_def)
qed

lemma indexEntries_map:
  assumes "list_all entryOk es" "distinct (map ieSerial es)"
  shows "map_of (indexEntries es al) s =
    (case find (\<lambda>e. ieSerial e = s) es of None \<Rightarrow> map_of al s | Some e \<Rightarrow> Some (ieSubject e))"
  using assms
proof (induction es arbitrary: al)
  case (Cons e es)
  obtain n where n: "0 \<le> n" "ieSerial e = serialHexStr n" using entryOk_serial Cons.prems(1) by auto
  then have "set_string16 (ieSerial e) = Some n"
    using set_string16_digits [OF hex_acc_text, of "nat n"] by (simp add: serialHexStr_def)
  moreover have "find (\<lambda>x. ieSerial x = ieSerial e) es = None"
    using Cons.prems(2) by (simp add: find_None_iff) (metis image_eqI)
  ultimately show ?case using Cons n by (auto simp: update_conv' split: option.splits)
qed simp

lemma find_serial:
  assumes "distinct (map ieSerial es)"
  shows "(case find (\<lambda>e. ieSerial e = s) es of None \<Rightarrow> None | Some e \<Rightarrow> Some (ieSubject e)) = Some t
    \<longleftrightarrow> (\<exists>e \<in> set es. ieSerial e = s \<and> ieSubject e = t)"
  using assms by (induction es) (auto simp: image_iff split: if_splits)

section \<open>What may happen between the read and its application\<close>

text \<open>
  The mutex is free while a pass reads the inventory, so this process may issue, prune, and
  apply other reads meanwhile.  The relation follows a replica from the moment the counters
  were sampled, with the serials that entered and that left the index since.
\<close>

inductive indexWindow :: "CA \<Rightarrow> string set \<Rightarrow> string set \<Rightarrow> CA \<Rightarrow> bool" where
  sampled: "indexWindow ca {} {} ca"
| issued: "indexWindow ca0 I P ca \<Longrightarrow> indexWindow ca0 (insert s I) P (indexSerialLocked s t ca)"
| pruned: "indexWindow ca0 I P ca \<Longrightarrow> indexWindow ca0 I (insert s P) (unindexSerialLocked s ca)"
| reconciled: "\<lbrakk>indexWindow ca0 I P ca; distinct (map fst stored);
     reconcileSerialIndexLocked stored e r ca = (d, ca')\<rbrakk> \<Longrightarrow>
     indexWindow ca0 (I \<union> (indexed ca' - indexed ca)) (P \<union> (indexed ca - indexed ca')) ca'"

lemma unindex_fields [simp]:
  "serialIndexEpoch (unindexSerialLocked s ca) = Suc (serialIndexEpoch ca)"
  "serialIndexRemovalEpoch (unindexSerialLocked s ca) = Suc (serialIndexRemovalEpoch ca)"
  by (simp_all add: unindexSerialLocked_def Let_def)

lemma window_counted:
  assumes "indexWindow ca0 I P ca"
  shows "serialIndexEpoch ca0 \<le> serialIndexEpoch ca \<and> serialIndexRemovalEpoch ca0 \<le> serialIndexRemovalEpoch ca
    \<and> (I \<noteq> {} \<longrightarrow> serialIndexEpoch ca0 < serialIndexEpoch ca)
    \<and> (P \<noteq> {} \<longrightarrow> serialIndexRemovalEpoch ca0 < serialIndexRemovalEpoch ca)"
  using assms
proof (induction rule: indexWindow.induct)
  case (reconciled ca0 I P ca stored e r d ca')
  note m = reconcile_moves [OF reconciled.hyps(3,2)]
  have "serialIndexEpoch ca < serialIndexEpoch ca'" if "indexed ca' - indexed ca \<noteq> {}" using that m(3) by blast
  moreover have "serialIndexRemovalEpoch ca < serialIndexRemovalEpoch ca'" if "indexed ca - indexed ca' \<noteq> {}"
    using that m(4) by blast
  ultimately show ?case using reconciled.IH m(1,2) by fastforce
qed (auto simp: indexSerialLocked_def)

section \<open>Properties\<close>

text \<open>
  C32. A pass that nothing disturbs makes the replica recognise exactly the certificates of
  the inventory: afterwards the index names a subject for a serial if and only if the
  inventory holds an entry with that serial and subject.
\<close>

theorem serial_index_converges:
  assumes "run_state SyncSerialIndex w = (Inr d, v)"
    and "list_all entryOk (storeEntries (wStore w))" "invOk (wStore w)"
  shows "map_of (serialIndex (wCA v)) s = Some subject
    \<longleftrightarrow> (\<exists>e \<in> set (storeEntries (wStore w)). ieSerial e = s \<and> ieSubject e = subject)"
proof -
  have d: "distinct (map ieSerial (storeEntries (wStore w)))" using assms(3) by (simp add: invOk_def)
  show ?thesis
    using SyncSerialIndex_ok [OF assms(1)] indexEntries_map [OF assms(2) d, of "[]" s] find_serial [OF d, of s subject]
    by (simp add: inventoryIndex_def cong: option.case_cong)
qed

theorem serial_index_converges_witness:
  "\<exists>d v. run_state SyncSerialIndex sampleRows = (Inr d, v) \<and> map_of (serialIndex (wCA v)) ''1'' = Some ''a''"
proof -
  have "run_state InventoryEntries (leaveLock (enterLock LockMu sampleRows))
      = (Inr [demoEntry 1 ''a''], leaveLock (enterLock LockMu sampleRows))"
    using entries_live [of "leaveLock (enterLock LockMu sampleRows)"] sampleRows_parts sampleRows_intact
    by (simp add: inventoryIntact_def)
  then have "\<exists>d v. run_state SyncSerialIndex sampleRows = (Inr d, v)"
    by (simp add: SyncSerialIndex_def readSerialIndex_def run_bindE live_mu run_onError withCA_def split_def)
  then obtain d v where r: "run_state SyncSerialIndex sampleRows = (Inr d, v)" by blast
  have e: "list_all entryOk (storeEntries (wStore sampleRows))" "invOk (wStore sampleRows)"
    using demoEntry_ok(1) sampleRows_parts(2) by (simp_all add: sampleRows_parts(5) invOk_def storeBlob_def isChained_def
        terminated_def split: inventory.splits)
  have "ieSerial (demoEntry 1 ''a'') = ''1''" "ieSubject (demoEntry 1 ''a'') = ''a''"
    by (simp_all add: demoEntry_def) code_simp
  then have "map_of (serialIndex (wCA v)) ''1'' = Some ''a''"
    using serial_index_converges [OF r e] by (simp add: sampleRows_parts(5))
  then show ?thesis using r by blast
qed

text \<open>
  C33. A pass whose read overlapped other work on the replica does no harm.  Whatever was
  issued, pruned or reconciled since the counters were sampled, a serial that entered the
  index meanwhile and is in it is not dropped, and a serial that left it meanwhile and is
  not in it is not brought back.
\<close>

theorem stale_read_is_harmless:
  assumes "indexWindow ca0 issued pruned ca" "distinct (map fst stored)"
    and "reconcileSerialIndexLocked stored (serialIndexEpoch ca0) (serialIndexRemovalEpoch ca0) ca = (d, ca')"
  shows "(\<forall>s \<in> issued. s \<in> indexed ca \<longrightarrow> s \<in> indexed ca') \<and> (\<forall>s \<in> pruned. s \<notin> indexed ca \<longrightarrow> s \<notin> indexed ca')"
  using window_counted [OF assms(1)] reconcile_moves(5,6) [OF assms(3,2)] by auto

theorem stale_read_is_harmless_witness:
  "''5'' \<in> indexed (snd (reconcileSerialIndexLocked [(''7'', ''b'')] 0 0
     (unindexSerialLocked ''7'' (indexSerialLocked ''5'' ''a'' sampleCA))))
   \<and> ''7'' \<notin> indexed (snd (reconcileSerialIndexLocked [(''7'', ''b'')] 0 0
     (unindexSerialLocked ''7'' (indexSerialLocked ''5'' ''a'' sampleCA))))"
proof -
  let ?ca = "unindexSerialLocked ''7'' (indexSerialLocked ''5'' ''a'' sampleCA)"
  have w: "indexWindow sampleCA {''5''} {''7''} ?ca"
    by (rule indexWindow.pruned, rule indexWindow.issued, rule indexWindow.sampled)
  have i: "indexed ?ca = {''5''}"
    by (simp add: indexed_def unindexSerialLocked_def Let_def indexSerialLocked_def sampleCA_def)
  obtain d ca' where r: "reconcileSerialIndexLocked [(''7'', ''b'')] 0 0 ?ca = (d, ca')" by fastforce
  show ?thesis
    using stale_read_is_harmless [OF w, of "[(''7'', ''b'')]" d ca'] r i by (simp add: sampleCA_def)
qed

end
