(* ===== verification/Ocsp.thy ===== *)
theory Ocsp
  imports SerialIndex
begin

text \<open>
  The OCSP responder (internal/ca/ocsp.go, the shedding half of signbound.go, and the error
  and caching answers of internal/api/ocsp_handler.go).  A request is answered from the
  cache of signed responses, or from a snapshot of the replica taken under the mutex: the
  signature is made with no lock held, and the response is stored only if the replica would
  still say the same.  The three parts are separate definitions, so that anything can be
  put between the signature and the store.  A request in DER stands for what
  ocsp.ParseRequest and the extension parse answer on it; the digests and the encodings
  they are taken over are parameters.  Lemmas: what an answer says, when it may be reused,
  and that no interleaving leaves an answer in the cache that vouches for a serial on the
  cached list.
\<close>

section \<open>Requests\<close>

record OCSPRequest =
  HashAlgorithm :: hashAlg
  IssuerNameHash :: bytes
  IssuerKeyHash :: bytes
  reqSerialNumber :: int

record ocspReqDER =
  odParsed :: "OCSPRequest res"
  odExtensions :: "(oid \<times> bytes) list option" \<comment> \<open>the request extensions, if the outer structure parses\<close>

record ocspHashing =
  hashSum :: "hashAlg \<Rightarrow> (bytes \<Rightarrow> bytes) option" \<comment> \<open>None: the algorithm is not linked in\<close>
  rawSubject :: "Name \<Rightarrow> bytes"
  publicKeyBits :: "PublicKey \<Rightarrow> bytes option"

definition oidNonce :: oid where "oidNonce = [1, 3, 6, 1, 5, 5, 7, 48, 1, 2]"

definition maxNonceLen :: nat where "maxNonceLen = 34"

definition extractNonce :: "ocspReqDER \<Rightarrow> bytes option" where
  "extractNonce der =
     (case odExtensions der of
        None \<Rightarrow> None
      | Some exts \<Rightarrow> map_option snd (find (\<lambda>(i, v). i = oidNonce) exts))"

text \<open>An oversized nonce is ignored.\<close>

definition acceptedNonce :: "ocspReqDER \<Rightarrow> bytes option" where
  "acceptedNonce der =
     (case extractNonce der of
        Some v \<Rightarrow> if length v > maxNonceLen then None else Some v
      | None \<Rightarrow> None)"

definition checkOCSPIssuer :: "ocspHashing \<Rightarrow> OCSPRequest \<Rightarrow> Certificate \<Rightarrow> unit res" where
  "checkOCSPIssuer dep req issuer =
     (case hashSum dep (HashAlgorithm req) of
        None \<Rightarrow> Inl (ErrOther ''OCSP request hash algorithm is not available'')
      | Some h \<Rightarrow>
          (case publicKeyBits dep (certPublicKey issuer) of
             None \<Rightarrow> Inl ErrInternal
           | Some bits \<Rightarrow>
               if h (rawSubject dep (certSubject issuer)) \<noteq> IssuerNameHash req then Inl ErrNotAuthoritative
               else if h bits \<noteq> IssuerKeyHash req then Inl ErrNotAuthoritative
               else Inr ()))"

section \<open>Deciding the status\<close>

definition OCSPValidity :: duration where "OCSPValidity = 4 * hour"

definition decideOCSPStatus :: "RevocationList option \<Rightarrow> int \<Rightarrow> bool \<Rightarrow> ocspStatus res" where
  "decideOCSPStatus crl serial known =
     (if \<not> known then Inr OCSPUnknown
      else case crl of
        None \<Rightarrow> Inl (ErrOther ''CRL not loaded'')
      | Some l \<Rightarrow>
          (case find (\<lambda>entry. rleSerialNumber entry = serial) (rlEntries l) of
             Some entry \<Rightarrow> Inr (OCSPRevoked (rleRevocationTime entry))
           | None \<Rightarrow> Inr OCSPGood))"

definition knownSerial :: "CA \<Rightarrow> int \<Rightarrow> bool" where
  "knownSerial ca serial = (map_of (serialIndex ca) (serialHexStr serial) \<noteq> None)"

section \<open>Answering\<close>

record OCSPAnswer =
  oaResponse :: ocspResponse
  oaMaxAge :: duration

record ocspSnapshot =
  snapKnown :: bool
  snapCRL :: "RevocationList option"

datatype ocspLook = Hit OCSPAnswer | Miss ocspSnapshot

text \<open>The look under the read lock: the issuer first, then the cache, then the snapshot.\<close>

definition ocspLookup :: "ocspHashing \<Rightarrow> OCSPRequest \<Rightarrow> bytes option \<Rightarrow> ocspLook opr" where
  "ocspLookup dep req nonce =
     (let key = (serialHexStr (reqSerialNumber req), HashAlgorithm req);
          miss = getsE (\<lambda>w. Miss \<lparr>snapKnown = knownSerial (wCA w) (reqSerialNumber req), snapCRL = cachedCRL (wCA w)\<rparr>)
      in withMu (
        bindE (getsE (\<lambda>w. CACert (wCA w))) (\<lambda>caCert.
        case caCert of
          None \<Rightarrow> fail (ErrOther ''panic: no CA certificate'')
        | Some issuer \<Rightarrow>
            bindE (lift (checkOCSPIssuer dep req issuer)) (\<lambda>_.
            bindE (getsE (\<lambda>w. if nonce = None then map_of (ocspCache (wCA w)) key else None)) (\<lambda>cached.
            case cached of
              None \<Rightarrow> miss
            | Some entry \<Rightarrow>
                bindE timeNow (\<lambda>now.
                if now < oceExpiresAt entry then
                  bindE timeNow (\<lambda>later.
                  ok (Hit \<lparr>oaResponse = oceResponse entry, oaMaxAge = time_sub (oceExpiresAt entry) later\<rparr>))
                else miss))))))"

text \<open>A slot is waited for briefly; a full responder sheds, a cancelled request does not count.\<close>

definition acquireSigningSlotOrShed :: "unit opr" where
  "acquireSigningSlotOrShed =
     bindE (getsE (\<lambda>w. SigningConcurrency (wConfig w))) (\<lambda>n.
     if n \<le> 0 then ok ()
     else
       bindE (perform nextOutcome) (\<lambda>out.
       case out of
         Succeeds \<Rightarrow> ok ()
       | FailsBefore \<Rightarrow> fail ErrBackend
       | FailsAfter \<Rightarrow> bindE (changeCA (signingShed_update Suc)) (\<lambda>_. fail ErrSigningBusy)))"

definition asInternal :: "'a opr \<Rightarrow> 'a opr" where
  "asInternal m =
     bindE (attempt m) (\<lambda>r.
     case r of
       Inr x \<Rightarrow> ok x
     | Inl e \<Rightarrow> fail (if errors_is e ErrSigningBusy then e else ErrInternal))"

definition ocspTemplate :: "OCSPRequest \<Rightarrow> bytes option \<Rightarrow> gotime \<Rightarrow> ocspStatus \<Rightarrow> ocspResponse" where
  "ocspTemplate req nonce now status =
     \<lparr>orSerial = reqSerialNumber req, orHash = HashAlgorithm req, orStatus = status, orThisUpdate = now,
      orNextUpdate = (if status \<noteq> OCSPUnknown then Some (now + OCSPValidity) else None), orNonce = nonce\<rparr>"

text \<open>No lock is held here: the context, the slot and the signature can each fail.\<close>

definition ocspSign :: "OCSPRequest \<Rightarrow> bytes option \<Rightarrow> ocspSnapshot \<Rightarrow> (ocspResponse \<times> gotime) opr" where
  "ocspSign req nonce snap =
     bindE timeNow (\<lambda>now.
     bindE (asInternal (lift (decideOCSPStatus (snapCRL snap) (reqSerialNumber req) (snapKnown snap)))) (\<lambda>status.
     bindE (asInternal (externalCall (Inr ()))) (\<lambda>_.
     bindE (asInternal acquireSigningSlotOrShed) (\<lambda>_.
     bindE (asInternal (externalCall (Inr (ocspTemplate req nonce now status)))) (\<lambda>resp.
     ok (resp, now))))))"

text \<open>The status is decided again under the lock before anything is stored.\<close>

definition ocspStore :: "OCSPRequest \<Rightarrow> bytes option \<Rightarrow> ocspResponse \<times> gotime \<Rightarrow> OCSPAnswer opr" where
  "ocspStore req nonce signed =
     (case signed of (resp, now) \<Rightarrow>
      bindE (if nonce = None \<and> orStatus resp \<noteq> OCSPUnknown \<and> ocspCacheableHash (HashAlgorithm req) then
          withMu (
            bindE (getsE (\<lambda>w. decideOCSPStatus (cachedCRL (wCA w)) (reqSerialNumber req)
                (knownSerial (wCA w) (reqSerialNumber req)))) (\<lambda>still.
            if still = Inr (orStatus resp) then
              bindE (changeCA (\<lambda>ca. ca\<lparr>ocspCache :=
                AList.update (serialHexStr (reqSerialNumber req), HashAlgorithm req)
                  \<lparr>oceResponse = resp, oceExpiresAt = now + OCSPValidity\<rparr> (ocspCache ca)\<rparr>)) (\<lambda>_. ok True)
            else ok False))
        else ok False) (\<lambda>cached.
      ok \<lparr>oaResponse = resp, oaMaxAge = (if cached then OCSPValidity else 0)\<rparr>))"

definition AnswerOCSP :: "ocspHashing \<Rightarrow> ocspReqDER \<Rightarrow> OCSPAnswer opr" where
  "AnswerOCSP dep der =
     (let nonce = acceptedNonce der in
      bindE (lift (odParsed der)) (\<lambda>req.
      bindE (ocspLookup dep req nonce) (\<lambda>look.
      case look of
        Hit answer \<Rightarrow> ok answer
      | Miss snap \<Rightarrow> bindE (ocspSign req nonce snap) (ocspStore req nonce))))"

definition OCSPResponse :: "ocspHashing \<Rightarrow> ocspReqDER \<Rightarrow> ocspResponse opr" where
  "OCSPResponse dep der = bindE (AnswerOCSP dep der) (\<lambda>answer. ok (oaResponse answer))"

section \<open>The HTTP side\<close>

datatype ocspErrorBody = TryLater | Unauthorized | InternalError | MalformedRequest

definition ocspErrorResponse :: "err \<Rightarrow> nat \<times> ocspErrorBody" where
  "ocspErrorResponse e =
     (if errors_is e ErrSigningBusy then (503, TryLater)
      else if errors_is e ErrNotAuthoritative then (403, Unauthorized)
      else if errors_is e ErrInternal then (500, InternalError)
      else (400, MalformedRequest))"

datatype cacheControl = NoStore | MaxAgePublic int

text \<open>What a GET answer tells an HTTP cache.\<close>

definition ocspCacheControl :: "OCSPAnswer \<Rightarrow> cacheControl" where
  "ocspCacheControl answer =
     (if 0 < oaMaxAge answer then MaxAgePublic (max 0 (min 2147483647 (oaMaxAge answer div second))) else NoStore)"

section \<open>Runs of the three parts\<close>

text \<open>
  What the cache of signed responses holds: each under its own serial and hash, definite,
  without a nonce, good until its entry expires, and for a serial of the index.
\<close>

definition ocspWf :: "CA \<Rightarrow> bool" where
  "ocspWf ca = (\<forall>s h e. ((s, h), e) \<in> set (ocspCache ca) \<longrightarrow>
     s = serialHexStr (orSerial (oceResponse e)) \<and> orHash (oceResponse e) = h \<and> orNonce (oceResponse e) = None
     \<and> orStatus (oceResponse e) \<noteq> OCSPUnknown \<and> orNextUpdate (oceResponse e) = Some (oceExpiresAt e)
     \<and> ocspCacheableHash h \<and> s \<in> indexed ca)"

lemma known_indexed: "knownSerial ca n \<longleftrightarrow> serialHexStr n \<in> indexed ca"
  by (auto simp: knownSerial_def indexed_dom)

lemma lookup_ok:
  assumes "run_state (ocspLookup dep req nonce) w = (Inr look, v)"
  obtains (miss) c where "sameState w v" "CACert (wCA w) = Some c" "checkOCSPIssuer dep req c = Inr ()"
      "look = Miss \<lparr>snapKnown = knownSerial (wCA w) (reqSerialNumber req), snapCRL = cachedCRL (wCA w)\<rparr>"
    | (hit) c entry t where "sameState w v" "CACert (wCA w) = Some c" "checkOCSPIssuer dep req c = Inr ()"
      "nonce = None" "map_of (ocspCache (wCA w)) (serialHexStr (reqSerialNumber req), HashAlgorithm req) = Some entry"
      "look = Hit \<lparr>oaResponse = oceResponse entry, oaMaxAge = t\<rparr>"
proof -
  let ?key = "(serialHexStr (reqSerialNumber req), HashAlgorithm req)"
  obtain c where c: "CACert (wCA w) = Some c" "checkOCSPIssuer dep req c = Inr ()"
    using assms by (auto simp: ocspLookup_def Let_def live_mu run_bindE split: prod.splits sum.splits option.splits)
  have same: "sameState w (leaveLock (enterLock LockMu w))" by (simp add: sameState_def)
  have tick: "sameState w (leaveLock y)" "wCA y = wCA w"
    if "run_state timeNow (enterLock LockMu w) = (Inr t, y)" for t y
    using timeNow_same [OF that] by (simp_all add: sameState_def)
  have tock: "sameState w (leaveLock z)"
    if "run_state timeNow (enterLock LockMu w) = (Inr t, y)" "run_state timeNow y = (Inr t', z)" for t y t' z
    using tick [OF that(1)] timeNow_same [OF that(2)] by (simp add: sameState_def)
  let ?miss = "getsE (\<lambda>w. Miss \<lparr>snapKnown = knownSerial (wCA w) (reqSerialNumber req), snapCRL = cachedCRL (wCA w)\<rparr>)"
  let ?rest = "\<lambda>cached. case cached of None \<Rightarrow> ?miss | Some entry \<Rightarrow> bindE timeNow (\<lambda>now.
      if now < oceExpiresAt entry then bindE timeNow (\<lambda>later.
        ok (Hit \<lparr>oaResponse = oceResponse entry, oaMaxAge = time_sub (oceExpiresAt entry) later\<rparr>)) else ?miss)"
  define cached where "cached = (if nonce = None then map_of (ocspCache (wCA w)) ?key else None)"
  have "run_state (ocspLookup dep req nonce) w
      = (case run_state (?rest cached) (enterLock LockMu w) of (r, v) \<Rightarrow> (r, leaveLock v))"
    using c by (simp add: ocspLookup_def Let_def live_mu run_bindE [of "getsE f" for f] run_bindE [of "lift r" for r] cached_def)
  then obtain x where x: "run_state (?rest cached) (enterLock LockMu w) = (Inr look, x)" "v = leaveLock x"
    using assms by (auto split: prod.splits)
  show ?thesis
  proof (cases cached)
    case None
    then show ?thesis using miss [OF _ c] x same by auto
  next
    case (Some entry)
    then have n: "nonce = None" "map_of (ocspCache (wCA w)) ?key = Some entry"
      by (auto simp: cached_def split: if_splits)
    obtain now y where y: "run_state timeNow (enterLock LockMu w) = (Inr now, y)"
      using x(1) Some by (auto elim!: bindE_okE)
    show ?thesis
    proof (cases "now < oceExpiresAt entry")
      case True
      then obtain later where "run_state timeNow y = (Inr later, x)"
        "look = Hit \<lparr>oaResponse = oceResponse entry, oaMaxAge = time_sub (oceExpiresAt entry) later\<rparr>"
        using x(1) Some y by (auto simp: run_bindE [of timeNow] split: prod.splits sum.splits)
      then show ?thesis using hit [OF _ c n] tock [OF y] x(2) by blast
    next
      case False
      then show ?thesis using x Some y miss [OF _ c] tick [OF y] by (auto simp: run_bindE [of timeNow])
    qed
  qed
qed

lemma asInternal_ok: "run_state (asInternal m) w = (Inr x, v) \<longleftrightarrow> run_state m w = (Inr x, v)"
  by (auto simp: asInternal_def run_bindE run_attempt split: prod.splits sum.splits)

lemma run_asInternal: "run_state (asInternal m) w = (case run_state m w of (Inr x, v) \<Rightarrow> (Inr x, v)
    | (Inl e, v) \<Rightarrow> (Inl (if errors_is e ErrSigningBusy then e else ErrInternal), v))"
  by (auto simp: asInternal_def run_bindE run_attempt split: prod.splits sum.splits)

lemma quiet_asInternal: "state_io_rel quiet m \<Longrightarrow> state_io_rel quiet (asInternal m)"
  unfolding asInternal_def by (auto intro!: quiet_io split: sum.splits)

lemma quiet_shed: "state_io_rel quiet acquireSigningSlotOrShed"
  unfolding acquireSigningSlotOrShed_def
  by (auto intro!: quiet_io quiet_changeCA simp: caFrame_def split: outcome.splits)

lemma quiet_ocspSign: "state_io_rel quiet (ocspSign req nonce snap)"
  unfolding ocspSign_def by (auto intro!: quiet_io quiet_asInternal quiet_shed)

lemma ocspSign_ok:
  assumes "run_state (ocspSign req nonce snap) w = (Inr (resp, now), v)"
  obtains status where "decideOCSPStatus (snapCRL snap) (reqSerialNumber req) (snapKnown snap) = Inr status"
    "resp = ocspTemplate req nonce now status"
  using assms unfolding ocspSign_def
  by (elim bindE_okE) (auto simp: asInternal_ok dest!: externalCall_ok)

definition storesAnswer :: "OCSPRequest \<Rightarrow> bytes option \<Rightarrow> ocspResponse \<Rightarrow> CA \<Rightarrow> bool" where
  "storesAnswer req nonce resp ca = (nonce = None \<and> orStatus resp \<noteq> OCSPUnknown \<and> ocspCacheableHash (HashAlgorithm req)
     \<and> decideOCSPStatus (cachedCRL ca) (reqSerialNumber req) (knownSerial ca (reqSerialNumber req)) = Inr (orStatus resp))"

definition putAnswer :: "OCSPRequest \<Rightarrow> ocspResponse \<Rightarrow> gotime \<Rightarrow> CA \<Rightarrow> CA" where
  "putAnswer req resp now ca = ca\<lparr>ocspCache :=
     AList.update (serialHexStr (reqSerialNumber req), HashAlgorithm req)
       \<lparr>oceResponse = resp, oceExpiresAt = now + OCSPValidity\<rparr> (ocspCache ca)\<rparr>"

lemma ocspStore_run:
  "\<exists>v. run_state (ocspStore req nonce (resp, now)) w =
     (Inr \<lparr>oaResponse = resp, oaMaxAge = (if storesAnswer req nonce resp (wCA w) then OCSPValidity else 0)\<rparr>, v)
   \<and> wStore v = wStore w \<and> wConfig v = wConfig w
   \<and> wCA v = (if storesAnswer req nonce resp (wCA w) then putAnswer req resp now (wCA w) else wCA w)"
  by (auto simp: ocspStore_def storesAnswer_def putAnswer_def run_bindE live_mu)

lemma mem_update: "x \<in> set (AList.update k v al) \<Longrightarrow> x = (k, v) \<or> x \<in> set al"
  by (induction al) (auto split: if_splits)

lemma decide_good: "decideOCSPStatus crl n known = Inr OCSPGood \<Longrightarrow>
    known \<and> (\<exists>l. crl = Some l \<and> n \<notin> revokedSerials l)"
  using find_revoked by (auto simp: decideOCSPStatus_def split: if_splits option.splits)

lemma decide_known: "decideOCSPStatus crl n known = Inr s \<Longrightarrow> s = OCSPUnknown \<longleftrightarrow> \<not> known"
  by (auto simp: decideOCSPStatus_def split: if_splits option.splits)

text \<open>Storing a signed answer, at whatever moment, keeps the cache sound.\<close>

lemma store_cases:
  assumes "run_state (ocspStore req nonce (resp, now)) w = (r, v)" "resp = ocspTemplate req nonce now status"
  obtains (kept) "wCA v = wCA w"
    | (stored) "cachedCRL (wCA v) = cachedCRL (wCA w)" "indexed (wCA v) = indexed (wCA w)"
      "\<And>x. x \<in> set (ocspCache (wCA v)) \<Longrightarrow> x = ((serialHexStr (reqSerialNumber req), HashAlgorithm req),
         \<lparr>oceResponse = resp, oceExpiresAt = now + OCSPValidity\<rparr>) \<or> x \<in> set (ocspCache (wCA w))"
      "nonce = None" "status \<noteq> OCSPUnknown" "ocspCacheableHash (HashAlgorithm req)"
      "decideOCSPStatus (cachedCRL (wCA w)) (reqSerialNumber req) (knownSerial (wCA w) (reqSerialNumber req)) = Inr status"
proof (cases "storesAnswer req nonce resp (wCA w)")
  case False
  then show ?thesis using kept ocspStore_run [of req nonce resp now w] assms by auto
next
  case True
  then have v: "wCA v = putAnswer req resp now (wCA w)"
    using ocspStore_run [of req nonce resp now w] assms(1) by auto
  let ?k = "(serialHexStr (reqSerialNumber req), HashAlgorithm req)"
  let ?e = "\<lparr>oceResponse = resp, oceExpiresAt = now + OCSPValidity\<rparr>"
  have mem: "x = (?k, ?e) \<or> x \<in> set (ocspCache (wCA w))" if "x \<in> set (ocspCache (wCA v))" for x
    using that mem_update [of x ?k ?e "ocspCache (wCA w)"] by (simp add: v putAnswer_def)
  show ?thesis
    using stored mem True assms(2) by (auto simp: storesAnswer_def ocspTemplate_def v putAnswer_def indexed_def)
qed

lemma store_ocspOk:
  assumes "run_state (ocspStore req nonce (resp, now)) w = (r, v)" "resp = ocspTemplate req nonce now status" "ocspOk (wCA w)"
  shows "ocspOk (wCA v)"
  using assms(1,2)
proof (cases rule: store_cases)
  case kept
  then show ?thesis using assms(3) by simp
next
  case stored
  have g: "reqSerialNumber req \<notin> revokedSerials crl" if "cachedCRL (wCA w) = Some crl" "status = OCSPGood" for crl
    using decide_good stored(7) that by fastforce
  show ?thesis
    unfolding ocspOk_def
  proof (intro allI impI)
    fix s h e assume "((s, h), e) \<in> set (ocspCache (wCA v))"
    from stored(3) [OF this] show "ocspCacheableHash h \<and> (\<forall>crl. cachedCRL (wCA v) = Some crl \<longrightarrow>
        orStatus (oceResponse e) = OCSPGood \<longrightarrow> s \<notin> serialHexStr ` revokedSerials crl)"
    proof
      assume "((s, h), e) = ((serialHexStr (reqSerialNumber req), HashAlgorithm req),
          \<lparr>oceResponse = resp, oceExpiresAt = now + OCSPValidity\<rparr>)"
      then show ?thesis using stored(1,6) g assms(2) by (auto simp: ocspTemplate_def)
    next
      assume "((s, h), e) \<in> set (ocspCache (wCA w))"
      then show ?thesis using assms(3) stored(1) unfolding ocspOk_def by metis
    qed
  qed
qed

lemma store_ocspWf:
  assumes "run_state (ocspStore req nonce (resp, now)) w = (r, v)" "resp = ocspTemplate req nonce now status" "ocspWf (wCA w)"
  shows "ocspWf (wCA v)"
  using assms(1,2)
proof (cases rule: store_cases)
  case kept
  then show ?thesis using assms(3) by simp
next
  case stored
  have kn: "serialHexStr (reqSerialNumber req) \<in> indexed (wCA w)"
    using decide_known [OF stored(7)] stored(5) known_indexed by blast
  show ?thesis
    unfolding ocspWf_def
  proof (intro allI impI)
    fix s h e assume "((s, h), e) \<in> set (ocspCache (wCA v))"
    from stored(3) [OF this] show "s = serialHexStr (orSerial (oceResponse e)) \<and> orHash (oceResponse e) = h
     \<and> orNonce (oceResponse e) = None \<and> orStatus (oceResponse e) \<noteq> OCSPUnknown
     \<and> orNextUpdate (oceResponse e) = Some (oceExpiresAt e) \<and> ocspCacheableHash h \<and> s \<in> indexed (wCA v)"
      using assms(2,3) stored(2,4-6) kn by (auto simp: ocspWf_def ocspTemplate_def)
  qed
qed

lemma AnswerOCSP_ok:
  assumes "run_state (AnswerOCSP dep der) w = (Inr a, v)" "odParsed der = Inr req"
  obtains (cached) c entry where "CACert (wCA w) = Some c" "checkOCSPIssuer dep req c = Inr ()" "sameState w v"
      "acceptedNonce der = None" "oaResponse a = oceResponse entry"
      "map_of (ocspCache (wCA w)) (serialHexStr (reqSerialNumber req), HashAlgorithm req) = Some entry"
    | (signed) c now status u where "CACert (wCA w) = Some c" "checkOCSPIssuer dep req c = Inr ()" "quiet w u"
      "decideOCSPStatus (cachedCRL (wCA w)) (reqSerialNumber req) (knownSerial (wCA w) (reqSerialNumber req)) = Inr status"
      "oaResponse a = ocspTemplate req (acceptedNonce der) now status"
      "run_state (ocspStore req (acceptedNonce der) (ocspTemplate req (acceptedNonce der) now status, now)) u = (Inr a, v)"
proof -
  let ?n = "acceptedNonce der"
  let ?rest = "\<lambda>look. case look of Hit answer \<Rightarrow> ok answer | Miss snap \<Rightarrow> bindE (ocspSign req ?n snap) (ocspStore req ?n)"
  from assms have "run_state (bindE (ocspLookup dep req ?n) ?rest) w = (Inr a, v)"
    by (simp add: AnswerOCSP_def Let_def run_bindE [of "lift r" for r])
  then obtain look x where l: "run_state (ocspLookup dep req ?n) w = (Inr look, x)" "run_state (?rest look) x = (Inr a, v)"
    by (rule bindE_okE)
  from l(1) show ?thesis
  proof (cases rule: lookup_ok)
    case (hit c entry t)
    then show ?thesis using cached [OF hit(2,3)] l(2) by auto
  next
    case (miss c)
    then obtain signed y where y: "run_state (ocspSign req ?n \<lparr>snapKnown = knownSerial (wCA w) (reqSerialNumber req),
        snapCRL = cachedCRL (wCA w)\<rparr>) x = (Inr signed, y)" "run_state (ocspStore req ?n signed) y = (Inr a, v)"
      using l(2) by (auto elim!: bindE_okE)
    obtain resp now where s: "signed = (resp, now)" by fastforce
    obtain status where st: "decideOCSPStatus (cachedCRL (wCA w)) (reqSerialNumber req) (knownSerial (wCA w) (reqSerialNumber req))
        = Inr status" "resp = ocspTemplate req ?n now status"
      using ocspSign_ok [OF y(1) [unfolded s]] by auto
    have "quiet w y" using state_io_relD [OF quiet_ocspSign y(1)] qt.same [OF miss(1)] qt.trans by blast
    moreover have "oaResponse a = resp" using y(2) s ocspStore_run [of req ?n resp now y] by auto
    ultimately show ?thesis using signed [OF miss(2,3) _ st(1)] y(2) s st(2) by simp
  qed
qed

section \<open>A request that is answered\<close>

lemma live_outcome: "faultless w \<Longrightarrow> run_state nextOutcome w = (Succeeds, w)"
  by (simp add: faultless_def nextOutcome_def)

lemma live_ocspSign:
  assumes "faultless w" "decideOCSPStatus (snapCRL snap) (reqSerialNumber req) (snapKnown snap) = Inr status"
  obtains now v where "run_state (ocspSign req nonce snap) w = (Inr (ocspTemplate req nonce now status, now), v)"
proof -
  obtain u where u: "run_state timeNow w = (Inr (clockOf w), u)" "faultless u"
    using live_time [of w] assms(1) by metis
  have sl: "run_state acquireSigningSlotOrShed u = (Inr (), u)"
    using u(2) by (simp add: acquireSigningSlotOrShed_def run_bindE run_perform live_outcome)
  have "run_state (ocspSign req nonce snap) w = (Inr (ocspTemplate req nonce (clockOf w) status, clockOf w), u)"
    unfolding ocspSign_def
    using u assms(2) sl by (simp add: run_bindE run_asInternal live_external)
  then show ?thesis by (rule that)
qed

lemma live_answer:
  assumes "faultless w" "odParsed der = Inr req" "CACert (wCA w) = Some c" "checkOCSPIssuer dep req c = Inr ()"
    and "ocspCache (wCA w) = []" "cachedCRL (wCA w) = Some crl"
  obtains a v where "run_state (AnswerOCSP dep der) w = (Inr a, v)"
proof -
  let ?n = "acceptedNonce der"
  let ?snap = "\<lparr>snapKnown = knownSerial (wCA w) (reqSerialNumber req), snapCRL = cachedCRL (wCA w)\<rparr>"
  have l: "run_state (ocspLookup dep req ?n) w = (Inr (Miss ?snap), leaveLock (enterLock LockMu w))"
    using assms by (simp add: ocspLookup_def Let_def live_mu run_bindE)
  have "\<exists>status. decideOCSPStatus (cachedCRL (wCA w)) (reqSerialNumber req) (knownSerial (wCA w) (reqSerialNumber req))
      = Inr status" using assms(6) by (simp add: decideOCSPStatus_def split: option.split)
  then obtain status where "decideOCSPStatus (cachedCRL (wCA w)) (reqSerialNumber req)
      (knownSerial (wCA w) (reqSerialNumber req)) = Inr status" by blast
  then obtain now v where "run_state (ocspSign req ?n ?snap) (leaveLock (enterLock LockMu w))
      = (Inr (ocspTemplate req ?n now status, now), v)"
    using live_ocspSign [of "leaveLock (enterLock LockMu w)" ?snap req status ?n] assms(1) by auto
  then show ?thesis
    using that assms(2) l ocspStore_run [of req ?n "ocspTemplate req ?n now status" now v]
    by (auto simp: AnswerOCSP_def Let_def run_bindE)
qed

definition sampleHashing :: ocspHashing where
  "sampleHashing = \<lparr>hashSum = (\<lambda>a. Some (\<lambda>m. m)), rawSubject = nmCommonName, publicKeyBits = (\<lambda>k. Some ''key'')\<rparr>"

definition sampleQuery :: "int \<Rightarrow> ocspReqDER" where
  "sampleQuery n = \<lparr>odParsed = Inr \<lparr>HashAlgorithm = SHA256, IssuerNameHash = ''ca'', IssuerKeyHash = ''key'',
     reqSerialNumber = n\<rparr>, odExtensions = Some []\<rparr>"

definition sampleIndexed :: "nat \<Rightarrow> int list \<Rightarrow> world" where
  "sampleIndexed n ss = updCA (\<lambda>ca. ca\<lparr>serialIndex := [(serialHexStr 5, ''a'')]\<rparr>) (sampleWith n ss)"

lemma sampleIndexed_parts [simp]:
  "faultless (sampleIndexed n ss)" "CACert (wCA (sampleIndexed n ss)) = Some sampleCACert"
  "cachedCRL (wCA (sampleIndexed n ss)) = Some (sampleCRL n ss)" "ocspCache (wCA (sampleIndexed n ss)) = []"
  "indexed (wCA (sampleIndexed n ss)) = {serialHexStr 5}"
  "ocspOk (wCA (sampleIndexed n ss))" "ocspWf (wCA (sampleIndexed n ss))"
  by (simp_all add: sampleIndexed_def sampleWith_ok(3) indexed_def ocspOk_def ocspWf_def)
    (simp_all add: sampleWith_def sampleCA_def)

lemma sample_issuer: "checkOCSPIssuer sampleHashing \<lparr>HashAlgorithm = SHA256, IssuerNameHash = ''ca'',
    IssuerKeyHash = ''key'', reqSerialNumber = n\<rparr> sampleCACert = Inr ()"
  by (simp add: checkOCSPIssuer_def sampleHashing_def sampleCACert_def sampleName_def)

lemma sample_revoked [simp]: "revokedSerials (sampleCRL n ss) = set ss"
  by (simp add: revokedSerials_def sampleCRL_def image_image)

lemma sample_query: "odParsed (sampleQuery n) = Inr \<lparr>HashAlgorithm = SHA256, IssuerNameHash = ''ca'',
    IssuerKeyHash = ''key'', reqSerialNumber = n\<rparr>"
  by (simp add: sampleQuery_def)

lemma sample_answered:
  obtains a v where "run_state (AnswerOCSP sampleHashing (sampleQuery m)) (sampleIndexed n ss) = (Inr a, v)"
  by (rule live_answer [OF sampleIndexed_parts(1) sample_query sampleIndexed_parts(2) sample_issuer
      sampleIndexed_parts(4,3)])

section \<open>Properties\<close>

text \<open>
  C20. The responder tells the truth of what the replica holds, from the cache or freshly
  signed.  It answers only requests that name this CA as the issuer; the response is about
  the serial asked for; it is unknown exactly when the serial is not in the index; and it
  is never good for a serial on the cached revocation list.
\<close>

theorem ocsp_answer_truthful:
  assumes "run_state (AnswerOCSP dep der) w = (Inr a, v)" "odParsed der = Inr req"
    and "ocspOk (wCA w)" "ocspWf (wCA w)"
  shows "(\<exists>c. CACert (wCA w) = Some c \<and> checkOCSPIssuer dep req c = Inr ())
    \<and> orSerial (oaResponse a) = reqSerialNumber req \<and> orHash (oaResponse a) = HashAlgorithm req
    \<and> (orStatus (oaResponse a) = OCSPUnknown \<longleftrightarrow> serialHexStr (reqSerialNumber req) \<notin> indexed (wCA w))
    \<and> (\<forall>crl. cachedCRL (wCA w) = Some crl \<and> reqSerialNumber req \<in> revokedSerials crl \<longrightarrow>
         orStatus (oaResponse a) \<noteq> OCSPGood)"
  using assms(1,2)
proof (cases rule: AnswerOCSP_ok)
  case (cached c entry)
  then have m: "((serialHexStr (reqSerialNumber req), HashAlgorithm req), entry) \<in> set (ocspCache (wCA w))"
    using map_of_SomeD by fast
  have "serialHexStr (reqSerialNumber req) = serialHexStr (orSerial (oceResponse entry))
      \<and> orHash (oceResponse entry) = HashAlgorithm req \<and> orStatus (oceResponse entry) \<noteq> OCSPUnknown
      \<and> serialHexStr (reqSerialNumber req) \<in> indexed (wCA w)"
    using assms(4) m unfolding ocspWf_def by blast
  moreover have "\<forall>crl. cachedCRL (wCA w) = Some crl \<longrightarrow> orStatus (oceResponse entry) = OCSPGood \<longrightarrow>
      serialHexStr (reqSerialNumber req) \<notin> serialHexStr ` revokedSerials crl"
    using assms(3) m unfolding ocspOk_def by blast
  ultimately show ?thesis using cached by auto
next
  case (signed c now status u)
  then have "orStatus (oaResponse a) = status" "orSerial (oaResponse a) = reqSerialNumber req"
    "orHash (oaResponse a) = HashAlgorithm req" by (simp_all add: ocspTemplate_def)
  then show ?thesis
    using signed decide_known [OF signed(4)] decide_good [of "cachedCRL (wCA w)"] known_indexed by fastforce
qed

theorem ocsp_answer_truthful_witness:
  "\<exists>a v. run_state (AnswerOCSP sampleHashing (sampleQuery 5)) (sampleIndexed 1 [5]) = (Inr a, v)
     \<and> orStatus (oaResponse a) \<noteq> OCSPGood \<and> orStatus (oaResponse a) \<noteq> OCSPUnknown"
proof -
  obtain a v where r: "run_state (AnswerOCSP sampleHashing (sampleQuery 5)) (sampleIndexed 1 [5]) = (Inr a, v)"
    by (rule sample_answered)
  from ocsp_answer_truthful [OF r sample_query] r show ?thesis by auto
qed

lemma accepted_none: "acceptedNonce der = None \<longleftrightarrow> (\<forall>n. extractNonce der = Some n \<longrightarrow> maxNonceLen < length n)"
  by (auto simp: acceptedNonce_def split: option.split)

text \<open>
  C21. An answer may be reused only while it is the stored one.  If a lifetime is given with
  it, then the request carried no nonce of acceptable length (an oversized one is ignored by
  the responder, and the response does not echo it), the response has no nonce, is definite,
  and is the one cached under the serial and hash asked for.  A response that echoes a
  nonce, and an unknown, come with none.
\<close>

theorem ocsp_reusable_only_if_stored:
  assumes "run_state (AnswerOCSP dep der) w = (Inr a, v)" "odParsed der = Inr req"
    and "ocspWf (wCA w)" "ocspCacheControl a \<noteq> NoStore"
  shows "(\<forall>n. extractNonce der = Some n \<longrightarrow> maxNonceLen < length n) \<and> orNonce (oaResponse a) = None
    \<and> orStatus (oaResponse a) \<noteq> OCSPUnknown
    \<and> (\<exists>e. map_of (ocspCache (wCA v)) (serialHexStr (reqSerialNumber req), HashAlgorithm req) = Some e
         \<and> oceResponse e = oaResponse a \<and> orNextUpdate (oaResponse a) = Some (oceExpiresAt e))"
  using assms(1,2)
proof (cases rule: AnswerOCSP_ok)
  case (cached c entry)
  then have "((serialHexStr (reqSerialNumber req), HashAlgorithm req), entry) \<in> set (ocspCache (wCA w))"
    using map_of_SomeD by fast
  then show ?thesis using cached assms(3) accepted_none [of der] unfolding ocspWf_def sameState_def by metis
next
  case (signed c now status u)
  let ?t = "ocspTemplate req (acceptedNonce der) now status"
  have "storesAnswer req (acceptedNonce der) ?t (wCA u)"
    using ocspStore_run [of req "acceptedNonce der" ?t now u] signed(6) assms(4)
    by (auto simp: ocspCacheControl_def split: if_splits)
  moreover from this have "wCA v = putAnswer req ?t now (wCA u)"
    using ocspStore_run [of req "acceptedNonce der" ?t now u] signed(6) by auto
  ultimately show ?thesis
    using signed(5) accepted_none [of der] by (auto simp: storesAnswer_def putAnswer_def ocspTemplate_def update_conv')
qed

theorem ocsp_reusable_only_if_stored_witness:
  "\<exists>a v e. run_state (AnswerOCSP sampleHashing (sampleQuery 5)) (sampleIndexed 1 []) = (Inr a, v)
     \<and> ocspCacheControl a \<noteq> NoStore \<and> map_of (ocspCache (wCA v)) (serialHexStr 5, SHA256) = Some e
     \<and> oceResponse e = oaResponse a"
proof -
  obtain a v where r: "run_state (AnswerOCSP sampleHashing (sampleQuery 5)) (sampleIndexed 1 []) = (Inr a, v)"
    by (rule sample_answered)
  have "ocspCacheControl a \<noteq> NoStore"
    using r sample_query [of 5]
  proof (cases rule: AnswerOCSP_ok)
    case (signed c now status u)
    let ?req = "\<lparr>HashAlgorithm = SHA256, IssuerNameHash = ''ca'', IssuerKeyHash = ''key'', reqSerialNumber = 5\<rparr>"
    let ?n = "acceptedNonce (sampleQuery 5)"
    have st: "status = OCSPGood" "?n = None"
      using signed(4) by (simp_all add: decideOCSPStatus_def known_indexed sampleCRL_def acceptedNonce_def
          extractNonce_def sampleQuery_def)
    have "storesAnswer ?req ?n (ocspTemplate ?req ?n now status) (wCA u)"
      using signed(3,4) st by (simp add: storesAnswer_def ocspTemplate_def ocspCacheableHash_def ocspCacheHashes_def
          quiet_def caFrame_def knownSerial_def)
    then show ?thesis
      using ocspStore_run [of ?req ?n "ocspTemplate ?req ?n now status" now u] signed(6)
      by (auto simp: ocspCacheControl_def OCSPValidity_def hour_def second_def)
  qed simp
  with ocsp_reusable_only_if_stored [OF r sample_query sampleIndexed_parts(7)] r show ?thesis by auto
qed

text \<open>
  C19. A signature that took long cannot put a stale answer into the cache.  Whatever
  happened on the replica between the signature and the store, the cache still vouches for
  no serial on the cached list and still holds only definite answers about indexed serials;
  and a lifetime is given with the answer only if the replica would still answer the same.
\<close>

theorem ocsp_late_store_is_sound:
  assumes "run_state (ocspSign req nonce snap) w = (Inr signed, w')"
    and "run_state (ocspStore req nonce signed) u = (Inr a, v)" "ocspOk (wCA u)" "ocspWf (wCA u)"
  shows "ocspOk (wCA v) \<and> ocspWf (wCA v)
    \<and> (0 < oaMaxAge a \<longrightarrow> decideOCSPStatus (cachedCRL (wCA u)) (reqSerialNumber req)
          (knownSerial (wCA u) (reqSerialNumber req)) = Inr (orStatus (oaResponse a)))"
proof -
  obtain resp now where s: "signed = (resp, now)" by fastforce
  obtain status where "resp = ocspTemplate req nonce now status" using ocspSign_ok [OF assms(1) [unfolded s]] by blast
  then show ?thesis
    using store_ocspOk [OF assms(2) [unfolded s]] store_ocspWf [OF assms(2) [unfolded s]] assms(2-4) s
      ocspStore_run [of req nonce resp now u]
    by (auto simp: storesAnswer_def split: if_splits)
qed

theorem ocsp_late_store_is_sound_witness:
  "\<exists>signed w' a v. run_state (ocspSign \<lparr>HashAlgorithm = SHA256, IssuerNameHash = ''ca'', IssuerKeyHash = ''key'',
        reqSerialNumber = 5\<rparr> None \<lparr>snapKnown = True, snapCRL = Some (sampleCRL 1 [])\<rparr>) (sampleIndexed 1 []) = (Inr signed, w')
     \<and> orStatus (fst signed) = OCSPGood
     \<and> run_state (ocspStore \<lparr>HashAlgorithm = SHA256, IssuerNameHash = ''ca'', IssuerKeyHash = ''key'',
        reqSerialNumber = 5\<rparr> None signed) (sampleIndexed 2 [5]) = (Inr a, v) \<and> ocspOk (wCA v) \<and> \<not> 0 < oaMaxAge a"
proof -
  let ?req = "\<lparr>HashAlgorithm = SHA256, IssuerNameHash = ''ca'', IssuerKeyHash = ''key'', reqSerialNumber = 5\<rparr>"
  let ?snap = "\<lparr>snapKnown = True, snapCRL = Some (sampleCRL 1 [])\<rparr>"
  have d: "decideOCSPStatus (snapCRL ?snap) (reqSerialNumber ?req) (snapKnown ?snap) = Inr OCSPGood"
    by (simp add: decideOCSPStatus_def sampleCRL_def)
  obtain now w' where s: "run_state (ocspSign ?req None ?snap) (sampleIndexed 1 [])
      = (Inr (ocspTemplate ?req None now OCSPGood, now), w')"
    by (rule live_ocspSign [where req = ?req and snap = ?snap, OF sampleIndexed_parts(1) d])
  obtain a v where f: "run_state (ocspStore ?req None (ocspTemplate ?req None now OCSPGood, now)) (sampleIndexed 2 [5]) = (Inr a, v)"
    and g: "oaResponse a = ocspTemplate ?req None now OCSPGood"
    using ocspStore_run [of ?req None "ocspTemplate ?req None now OCSPGood" now "sampleIndexed 2 [5]"] by auto
  have "\<not> 0 < oaMaxAge a \<and> ocspOk (wCA v)"
    using ocsp_late_store_is_sound [OF s f sampleIndexed_parts(6,7)] g
    by (auto simp: decideOCSPStatus_def known_indexed sampleCRL_def ocspTemplate_def)
  then show ?thesis using s f by (auto simp: ocspTemplate_def intro!: exI)
qed

end
