(* ===== verification/Cleanup.thy ===== *)
theory Cleanup
  imports Ocsp
begin

text \<open>
  Removing expired certificates (internal/ca/cleanup.go).  Under the CRL lock and the mutex
  the inventory is pruned first; for exactly the entries it gave up, the index and the
  cached answers are dropped, the list is re-signed without their serials, and the stored
  certificate is deleted if it is still the expired one.  Lemmas: whatever fails, nothing
  leaves the inventory, the list or the certificate store unless it expired before the
  cutoff, and a run that reports no error leaves nothing expired behind.
\<close>

section \<open>The operations\<close>

text \<open>An entry whose time cannot be read is kept.\<close>

definition keepEntry :: "gotime \<Rightarrow> InventoryEntry \<Rightarrow> bool" where
  "keepEntry cutoff e =
     (case parse_time (ieNotAfter e) of None \<Rightarrow> True | Some notAfter \<Rightarrow> \<not> notAfter < cutoff)"

definition dropCRLEntriesLocked :: "string list \<Rightarrow> unit opr" where
  "dropCRLEntriesLocked removed =
     bindE readStoredCRL (\<lambda>stored.
     let kept = filter (\<lambda>entry. serialHexStr (rleSerialNumber entry) \<notin> set removed) (rlEntries (scOwn stored)) in
     if kept = rlEntries (scOwn stored) then ok ()
     else signCRLLocked (Some stored) kept)"

definition deleteStoredCertIfSerialMatches :: "string \<Rightarrow> string \<Rightarrow> unit opr" where
  "deleteStoredCertIfSerialMatches subject expectSerial =
     bindE (attempt (GetCert subject)) (\<lambda>r.
     case r of
       Inr (PEM cert) \<Rightarrow>
         (case set_string16 expectSerial of
            None \<Rightarrow> ok ()
          | Some want \<Rightarrow>
              if serialHexStr (certSerialNumber cert) \<noteq> serialHexStr want then ok ()
              else bindE (attempt (DeleteCert subject)) (\<lambda>_. ok ()))
     | _ \<Rightarrow> ok ())"

fun deleteEach :: "InventoryEntry list \<Rightarrow> unit opr" where
  "deleteEach [] = ok ()"
| "deleteEach (e # es) =
     bindE (deleteStoredCertIfSerialMatches (ieSubject e) (ieSerial e)) (\<lambda>_. deleteEach es)"

text \<open>The removed serials in the form of the index; one that is no number is skipped.\<close>

definition removedSerials :: "InventoryEntry list \<Rightarrow> string list" where
  "removedSerials dropped = List.map_filter (\<lambda>e. map_option serialHexStr (set_string16 (ieSerial e))) dropped"

text \<open>errors.Join of the two: the first error stands for both.\<close>

definition joinErrors :: "err option \<Rightarrow> unit res \<Rightarrow> unit res" where
  "joinErrors pruneErr crlErr = (case pruneErr of Some e \<Rightarrow> Inl e | None \<Rightarrow> crlErr)"

definition cleanupLocked :: "gotime \<Rightarrow> (nat \<times> unit res) opr" where
  "cleanupLocked cutoff =
     bindE (attempt (PruneInventory (keepEntry cutoff))) (\<lambda>p.
     let (dropped, pruneErr) = (case p of Inl e \<Rightarrow> ([], Some e) | Inr x \<Rightarrow> x) in
     if dropped = [] then ok (0, joinErrors pruneErr (Inr ()))
     else
       bindE (changeCA (fold unindexSerialLocked (removedSerials dropped))) (\<lambda>_.
       bindE (attempt (dropCRLEntriesLocked (removedSerials dropped))) (\<lambda>crlErr.
       bindE (deleteEach dropped) (\<lambda>_.
       ok (length dropped, joinErrors pruneErr crlErr)))))"

definition CleanupExpiredCerts :: "duration \<Rightarrow> (nat \<times> unit res) opr" where
  "CleanupExpiredCerts retain =
     bindE timeNow (\<lambda>now.
     let cutoff = now - (if retain < 0 then 0 else retain) in
     bindE (attempt (withCRLLockCounted (withMu (cleanupLocked cutoff)))) (\<lambda>r.
     ok (case r of Inl e \<Rightarrow> (0, Inl e) | Inr x \<Rightarrow> x)))"

section \<open>Pruning\<close>

lemma prune_rows:
  assumes "onTable (\<lambda>t. Inr (pruneEntriesOnce keep adv t)) st = Inr (st', removed)"
  shows "storeEntries st' = filter keep (storeEntries st)" "removed = filter (\<lambda>e. \<not> keep e) (storeEntries st)"
    "storeBlob st' = storeBlob st"
  using assms
  by (auto simp: storeBlob_def onTable_def storeEntries_def pruneEntriesOnce_def tblEntries_def Let_def filter_map comp_def
      filter_empty_conv filter_id_conv split: inventory.splits if_splits)

lemma inv_computeHMAC: "state_io_rel invFrame (updateInventoryHMACLocked key)"
  unfolding updateInventoryHMACLocked_def computeInventoryHMAC_def by (intro inv_io)

lemma inv_prune: "state_io_rel invFrame (PruneInventory keep)"
  unfolding PruneInventory_def
  by (auto intro!: inv_io inv_verifyIfKeyed inv_computeHMAC simp: Let_def split: option.splits prod.splits)

text \<open>Writing the integrity value leaves the entries alone.\<close>

definition entriesSame :: "world \<Rightarrow> world \<Rightarrow> bool" where
  "entriesSame w v = (storeEntries (wStore v) = storeEntries (wStore w) \<and> isChained (wStore v) = isChained (wStore w)
     \<and> storeBlob (wStore v) = storeBlob (wStore w))"

interpretation es: step_relation entriesSame
  by unfold_locales (auto simp: entriesSame_def sameState_def)

lemma es_write_mac: "state_io_rel entriesSame (backendWrite (\<lambda>st. Inr (st\<lparr>stInventoryHMAC := g st\<rparr>, ())))"
  by (rule es.io_backendWrite) (auto simp: entriesSame_def)

lemma es_verifyIfKeyed: "state_io_rel entriesSame verifyIfKeyed"
  unfolding verifyIfKeyed_def verifyInventoryHMACLocked_def baselineInventoryHMACLocked_def computeInventoryHMAC_def
  by (auto intro!: es.io es_write_mac split: option.splits sum.splits err.splits)

lemma es_updateHMAC: "state_io_rel entriesSame (updateInventoryHMACLocked key)"
  unfolding updateInventoryHMACLocked_def computeInventoryHMAC_def by (intro es.io es_write_mac)

text \<open>A prune removes all the entries it is to remove or none, and reports what it removed.\<close>

definition prunedBy :: "(InventoryEntry \<Rightarrow> bool) \<Rightarrow> world \<Rightarrow> (InventoryEntry list \<times> err option) res \<Rightarrow> world \<Rightarrow> bool" where
  "prunedBy keep w r v = ((terminated (storeBlob (wStore w)) \<longrightarrow> terminated (storeBlob (wStore v))) \<and> (case r of
      Inl e \<Rightarrow> storeEntries (wStore v) \<in> {storeEntries (wStore w), filter keep (storeEntries (wStore w))}
    | Inr (removed, e) \<Rightarrow> storeEntries (wStore v) = filter keep (storeEntries (wStore w))
        \<and> removed = filter (\<lambda>e. \<not> keep e) (storeEntries (wStore w))))"

lemma prune_chained:
  assumes "run_state (bindE (backendWrite (onTable (\<lambda>t. Inr (pruneEntriesOnce keep adv t))))
      (\<lambda>removed. ok (removed, None))) w = (r, v)"
  shows "prunedBy keep w r v"
  using assms
proof (cases rule: bindE_E)
  case (error e)
  from error(1) show ?thesis
  proof (cases rule: backendWrite_cases)
    case unchanged
    then show ?thesis by (simp add: prunedBy_def error(2) sameState_def)
  next
    case (written st x)
    then show ?thesis using prune_rows [OF written(1)] by (simp add: prunedBy_def error(2))
  qed
next
  case (step x u)
  then show ?thesis using prune_rows [OF backendWrite_ok(1) [OF step(1)]] by (auto simp: prunedBy_def)
qed

lemma prune_text:
  assumes "run_state (bindE (backendRead (\<lambda>st. Inr (storeBlob st))) (\<lambda>data.
       let (buf, removed) = pruneInventoryBlob keep data in
       if removed = [] then ok ([], None)
       else
         bindE (backendWrite (\<lambda>st. Inr (st\<lparr>stInventory := InvBlob (Some buf)\<rparr>, ()))) (\<lambda>_.
         case k of
           None \<Rightarrow> ok (removed, None)
         | Some key \<Rightarrow>
             bindE (attempt (updateInventoryHMACLocked key)) (\<lambda>r.
             ok (removed, case r of Inl e \<Rightarrow> Some e | Inr _ \<Rightarrow> None))))) w = (r, v)"
    and "\<not> isChained (wStore w)"
  shows "prunedBy keep w r v"
  using assms(1)
proof (cases rule: bindE_E)
  case (error e)
  then show ?thesis using backendRead_same by (fastforce simp: prunedBy_def sameState_def)
next
  case (step data u)
  have u: "sameState w u" "data = storeBlob (wStore w)"
    using backendRead_same [OF step(1)] backendRead_ok [OF step(1)] by simp_all
  obtain buf removed where b: "pruneInventoryBlob keep data = (buf, removed)" by fastforce
  note p = pruneInventoryBlob_entries(1,2) [OF b] and tm = pruneInventoryBlob_entries(3) [OF b]
  have es: "storeEntries (wStore w) = parseInventoryBlob data" using not_chained [OF assms(2)] u(2) by simp
  show ?thesis
  proof (cases "removed = []")
    case True
    then have "filter keep (storeEntries (wStore w)) = storeEntries (wStore w)"
      using p(2) es by (simp add: filter_empty_conv filter_id_conv)
    then show ?thesis using step(2) b True u(1) p(2) es by (auto simp: prunedBy_def sameState_def)
  next
    case False
    let ?wr = "backendWrite (\<lambda>st. Inr (st\<lparr>stInventory := InvBlob (Some buf)\<rparr>, ()))"
    let ?tail = "case k of None \<Rightarrow> ok (removed, None) | Some key \<Rightarrow>
             bindE (attempt (updateInventoryHMACLocked key)) (\<lambda>r. ok (removed, case r of Inl e \<Rightarrow> Some e | Inr _ \<Rightarrow> None))"
    have tail: "entriesSame x v \<and> (\<exists>e. r = Inr (removed, e))" if "run_state ?tail x = (r, v)" for x
    proof -
      have "state_io_rel entriesSame ?tail" by (auto intro!: es.io es_updateHMAC split: option.splits)
      moreover have "\<exists>e. r = Inr (removed, e)" using that
        by (cases k) (auto simp: run_bindE run_attempt split: prod.splits)
      ultimately show ?thesis using that by (blast dest: state_io_relD)
    qed
    from step(2) b False have "run_state (bindE ?wr (\<lambda>_. ?tail)) u = (r, v)" by simp
    then show ?thesis
    proof (cases rule: bindE_E)
      case (error e)
      from error(1) show ?thesis
        by (cases rule: backendPut_cases) (use u p es tm error(2) in \<open>auto simp: prunedBy_def sameState_def\<close>)
    next
      case (step y x)
      have "storeEntries (wStore x) = filter keep (storeEntries (wStore w))" "storeBlob (wStore x) = buf"
        using step(1) by (cases rule: backendPut_cases; use p es in auto)+
      then show ?thesis using tail [OF step(2)] p es tm u(2) by (auto simp: prunedBy_def entriesSame_def)
    qed
  qed
qed

lemma prunedBy_same: "entriesSame w u \<Longrightarrow> prunedBy keep u r v \<Longrightarrow> prunedBy keep w r v"
  by (auto simp: prunedBy_def entriesSame_def split: sum.splits)

lemma prune_run:
  assumes "run_state (PruneInventory keep) w = (r, v)"
  shows "prunedBy keep w r v"
  using assms unfolding PruneInventory_def
proof (cases rule: bindE_E)
  case (error e)
  then show ?thesis using state_io_relD [OF es_verifyIfKeyed error(1)] by (simp add: prunedBy_def entriesSame_def)
next
  case (step x u)
  note s = state_io_relD [OF es_verifyIfKeyed step(1)]
  have "prunedBy keep u r v"
    using step(2) prune_chained [of keep _ u r v] prune_text [of keep "hmacKey (wCA u)" u r v]
    by (cases "isChained (wStore u)") (auto simp: run_bindE [of "getsE f" for f])
  then show ?thesis by (rule prunedBy_same [OF s])
qed

section \<open>Only what expired goes\<close>

definition expiredSerials :: "gotime \<Rightarrow> store \<Rightarrow> int set" where
  "expiredSerials cutoff st =
     {n. \<exists>e \<in> set (storeEntries st). \<not> keepEntry cutoff e \<and> set_string16 (ieSerial e) = Some n}"

lemma removed_mem: "k \<in> set (removedSerials es) \<longleftrightarrow> (\<exists>e \<in> set es. \<exists>n. set_string16 (ieSerial e) = Some n \<and> k = serialHexStr n)"
  by (auto simp: removedSerials_def List.map_filter_def image_iff split: option.splits)

lemma step_dropCRL:
  assumes "\<And>n. serialHexStr n \<in> set keys \<Longrightarrow> n \<in> D"
  shows "state_io_rel (crlStep D) (dropCRLEntriesLocked keys)"
  unfolding dropCRLEntriesLocked_def Let_def
proof (rule sf_read)
  fix p :: storedCRL
  let ?kept = "filter (\<lambda>entry. serialHexStr (rleSerialNumber entry) \<notin> set keys) (rlEntries (scOwn p))"
  have "stepFrom D p (signCRLLocked (Some p) ?kept)"
    by (rule sf_sign) (use assms in \<open>auto simp: revokedSerials_def\<close>)
  then show "stepFrom D p (if ?kept = rlEntries (scOwn p) then ok () else signCRLLocked (Some p) ?kept)"
    by (auto intro: sf_step cs.io)
qed

lemma other_dropCRL: "state_io_rel otherSame (dropCRLEntriesLocked keys)"
  unfolding dropCRLEntriesLocked_def
  by (auto intro!: os.io quiet_other [OF quiet_readStored] other_sign simp: Let_def)

lemma indexFrame_unindex: "indexFrame ca (fold unindexSerialLocked keys ca)"
proof (induction keys arbitrary: ca)
  case Nil
  show ?case by (simp add: indexFrame_def)
next
  case (Cons k keys)
  have "indexFrame ca (unindexSerialLocked k ca)"
    by (auto simp: unindexSerialLocked_def Let_def indexFrame_def evictOCSPLocked_def)
  then show ?case using Cons.IH [of "unindexSerialLocked k ca"] indexFrame_trans by simp
qed

lemma frame_unindex: "state_io_rel crlFrame (changeCA (fold unindexSerialLocked keys))"
proof
  fix r w v assume "run_state (changeCA (fold unindexSerialLocked keys)) w = (r, v)"
  then show "crlFrame w v"
    using indexFrame_unindex [of "wCA w" keys] by (auto simp: crlFrame_def indexFrame_def sameId_def)
qed

text \<open>The stored certificates after a deletion: gone only if their serial was expected.\<close>

definition certsBut :: "int set \<Rightarrow> world \<Rightarrow> world \<Rightarrow> bool" where
  "certsBut D w v = (\<forall>s p. map_of (stCerts (wStore w)) s = Some p \<longrightarrow>
     map_of (stCerts (wStore v)) s = Some p \<or> (\<exists>c. p = PEM c \<and> certSerialNumber c \<in> D))"

interpretation cb: step_relation "certsBut D" for D
proof
  show "certsBut D w v" if "sameState w v" for w v using that by (simp add: certsBut_def sameState_def)
  show "certsBut D w u" if "certsBut D w v" "certsBut D v u" for w v u using that unfolding certsBut_def by metis
qed

definition certsOnly :: "world \<Rightarrow> world \<Rightarrow> bool" where
  "certsOnly w v = (wCA v = wCA w \<and> wConfig v = wConfig w \<and> stCRL (wStore v) = stCRL (wStore w)
     \<and> stInventory (wStore v) = stInventory (wStore w) \<and> stSuperseded (wStore v) = stSuperseded (wStore w)
     \<and> stCSRs (wStore v) = stCSRs (wStore w))"

interpretation co: step_relation certsOnly
  by unfold_locales (auto simp: certsOnly_def sameState_def)

lemma co_delete: "state_io_rel certsOnly (DeleteCert s)"
  unfolding DeleteCert_def
  by (rule co.io_backendWrite) (auto simp: certsOnly_def dest!: sym [of _ "wStore v" for v])

lemma co_deleteIf: "state_io_rel certsOnly (deleteStoredCertIfSerialMatches s k)"
  unfolding deleteStoredCertIfSerialMatches_def GetCert_def
  by (auto intro!: co.io co_delete split: sum.splits pem.splits option.splits)

lemma co_deleteEach: "state_io_rel certsOnly (deleteEach es)"
  by (induction es) (auto intro!: co.io co_deleteIf)

lemma DeleteCert_certs:
  assumes "run_state (DeleteCert subject) w = (r, v)" "s \<noteq> subject"
  shows "map_of (stCerts (wStore v)) s = map_of (stCerts (wStore w)) s"
  using assms unfolding DeleteCert_def
  by (auto simp: sameState_def deleteE_def AList.delete_conv' split: option.splits
      elim!: backendWrite_cases dest!: sym [of _ "wStore v"])

lemma cb_deleteIf:
  assumes "\<And>n. set_string16 k = Some n \<Longrightarrow> n \<in> D"
  shows "state_io_rel (certsBut D) (deleteStoredCertIfSerialMatches subject k)"
proof
  fix r w v assume run: "run_state (deleteStoredCertIfSerialMatches subject k) w = (r, v)"
  obtain q u where q: "run_state (GetCert subject) w = (q, u)" by fastforce
  have u: "sameState w u" using q unfolding GetCert_def by (rule backendRead_same)
  show "certsBut D w v"
  proof (cases "\<exists>c n. q = Inr (PEM c) \<and> set_string16 k = Some n \<and> certSerialNumber c = n")
    case False
    then have "sameState u v"
      using run q by (auto simp: deleteStoredCertIfSerialMatches_def run_bindE run_attempt
          split: sum.splits pem.splits option.splits if_splits)
    then show ?thesis using cb.same sameState_trans u by blast
  next
    case True
    then obtain c n where c: "q = Inr (PEM c)" "set_string16 k = Some n" "certSerialNumber c = n" by blast
    have held: "map_of (stCerts (wStore w)) subject = Some (PEM c)"
      using q c(1) unfolding GetCert_def by (auto dest!: backendRead_ok simp: lookupE_def split: option.splits)
    obtain r' where d: "run_state (DeleteCert subject) u = (r', v)"
      using run q c by (auto simp: deleteStoredCertIfSerialMatches_def run_bindE run_attempt split: prod.splits)
    show ?thesis
      unfolding certsBut_def
    proof (intro allI impI)
      fix s p assume s: "map_of (stCerts (wStore w)) s = Some p"
      show "map_of (stCerts (wStore v)) s = Some p \<or> (\<exists>c. p = PEM c \<and> certSerialNumber c \<in> D)"
        using s DeleteCert_certs [OF d, of s] u held c assms by (cases "s = subject") (auto simp: sameState_def)
    qed
  qed
qed

lemma cb_deleteEach:
  assumes "\<And>e n. e \<in> set es \<Longrightarrow> set_string16 (ieSerial e) = Some n \<Longrightarrow> n \<in> D"
  shows "state_io_rel (certsBut D) (deleteEach es)"
  using assms by (induction es) (auto intro!: cb.io cb_deleteIf)

lemma certsOnly_entries: "certsOnly w v \<Longrightarrow> entriesSame w v"
  by (simp add: certsOnly_def entriesSame_def storeEntries_def isChained_def storeBlob_def)

lemma certsOnly_frame: "certsOnly w v \<Longrightarrow> crlFrame w v"
  by (simp add: certsOnly_def crlFrame_def sameId_def)

lemma quiet_entries: "state_io_rel quiet m \<Longrightarrow> state_io_rel entriesSame m"
  unfolding state_io_rel_def quiet_def entriesSame_def by fastforce

lemma es_changeCA: "state_io_rel entriesSame (changeCA f)"
  by (rule es.io_changeCA) (simp add: entriesSame_def)

lemma es_update: "state_io_rel entriesSame (UpdateCRL b)"
  unfolding UpdateCRL_def
  by (rule es.io_backendWrite) (auto simp: entriesSame_def storeEntries_def isChained_def storeBlob_def)

lemma es_sign: "state_io_rel entriesSame (signCRLLocked p es)"
  unfolding signCRLLocked_def
  by (auto intro!: es.io quiet_entries [OF quiet_prepare] quiet_entries [OF quiet_count(1)] es_update
      es_changeCA split: option.splits)

lemma es_dropCRL: "state_io_rel entriesSame (dropCRLEntriesLocked keys)"
  unfolding dropCRLEntriesLocked_def by (auto intro!: es.io quiet_entries [OF quiet_readStored] es_sign simp: Let_def)

text \<open>The part after the prune, for the entries it gave up.\<close>

definition afterPrune :: "InventoryEntry list \<Rightarrow> err option \<Rightarrow> (nat \<times> unit res) opr" where
  "afterPrune dropped pruneErr =
     bindE (changeCA (fold unindexSerialLocked (removedSerials dropped))) (\<lambda>_.
     bindE (attempt (dropCRLEntriesLocked (removedSerials dropped))) (\<lambda>crlErr.
     bindE (deleteEach dropped) (\<lambda>_.
     ok (length dropped, joinErrors pruneErr crlErr))))"

lemma cleanupLocked_alt:
  "cleanupLocked cutoff = bindE (attempt (PruneInventory (keepEntry cutoff))) (\<lambda>p.
     case (case p of Inl e \<Rightarrow> ([], Some e) | Inr x \<Rightarrow> x) of (dropped, pruneErr) \<Rightarrow>
     if dropped = [] then ok (0, joinErrors pruneErr (Inr ())) else afterPrune dropped pruneErr)"
  unfolding cleanupLocked_def afterPrune_def Let_def ..

lemma frame_is_step: "state_io_rel crlFrame m \<Longrightarrow> state_io_rel (crlStep D) m"
  by (blast intro: crlFrame_step dest: state_io_relD)

lemma afterPrune_rel:
  assumes D: "\<And>e n. e \<in> set dropped \<Longrightarrow> set_string16 (ieSerial e) = Some n \<Longrightarrow> n \<in> D"
  shows "state_io_rel (crlStep D) (afterPrune dropped pe)" "state_io_rel (certsBut D) (afterPrune dropped pe)"
    "state_io_rel entriesSame (afterPrune dropped pe)"
proof -
  have k: "n \<in> D" if "serialHexStr n \<in> set (removedSerials dropped)" for n
    using that D by (auto simp: removed_mem)
  have "state_io_rel (crlStep D) (deleteEach dropped)"
    using co_deleteEach certsOnly_frame frame_is_step by (blast intro: crlFrame_step dest: state_io_relD)
  then show "state_io_rel (crlStep D) (afterPrune dropped pe)"
    unfolding afterPrune_def by (intro cs.io frame_is_step [OF frame_unindex] step_dropCRL k)
  have "state_io_rel (certsBut D) (changeCA f)" for f
    by (rule cb.io_changeCA) (simp add: certsBut_def)
  moreover have "state_io_rel (certsBut D) (dropCRLEntriesLocked keys)" for keys
    using other_dropCRL unfolding state_io_rel_def otherSame_def certsBut_def by metis
  ultimately show "state_io_rel (certsBut D) (afterPrune dropped pe)"
    unfolding afterPrune_def using cb_deleteEach [OF D] by (intro cb.io)
  have "state_io_rel entriesSame (deleteEach dropped)"
    using co_deleteEach certsOnly_entries by (blast dest: state_io_relD)
  then show "state_io_rel entriesSame (afterPrune dropped pe)"
    unfolding afterPrune_def by (intro es.io es_changeCA es_dropCRL)
qed

lemma cleanupLocked_step:
  assumes "run_state (cleanupLocked cutoff) w = (r, v)" "expiredSerials cutoff (wStore w) \<subseteq> D"
  shows "crlStep D w v" "certsBut D w v"
    "storeEntries (wStore v) \<in> {storeEntries (wStore w), filter (keepEntry cutoff) (storeEntries (wStore w))}"
    "terminated (storeBlob (wStore w)) \<Longrightarrow> terminated (storeBlob (wStore v))"
proof -
  let ?D = D
  obtain p u where p: "run_state (PruneInventory (keepEntry cutoff)) w = (p, u)" by fastforce
  note fr = state_io_relD [OF inv_prune p] and pr = prune_run [OF p]
  obtain dropped pe where d: "(case p of Inl e \<Rightarrow> ([], Some e) | Inr x \<Rightarrow> x) = (dropped, pe)" by fastforce
  have rest: "run_state (if dropped = [] then ok (0, joinErrors pe (Inr ())) else afterPrune dropped pe) u = (r, v)"
    using assms(1) p d by (simp add: cleanupLocked_alt run_bindE run_attempt)
  have D: "n \<in> ?D" if "e \<in> set dropped" "set_string16 (ieSerial e) = Some n" for e n
    using that pr d assms(2) by (fastforce simp: prunedBy_def expiredSerials_def split: sum.splits)
  note rel = afterPrune_rel [of dropped ?D pe, OF D]
  have one: "crlStep ?D w u" "certsBut ?D w u"
    using invFrame_step [OF fr] fr by (simp_all add: certsBut_def invFrame_def)
  have two: "crlStep ?D u v" "certsBut ?D u v" "entriesSame u v"
    using rest rel [THEN state_io_relD] cs.same cb.same es.same by (auto split: if_splits)
  show "crlStep ?D w v" "certsBut ?D w v"
    using cs.trans [OF one(1) two(1)] cb.trans [OF one(2) two(2)] .
  show "storeEntries (wStore v) \<in> {storeEntries (wStore w), filter (keepEntry cutoff) (storeEntries (wStore w))}"
    "terminated (storeBlob (wStore w)) \<Longrightarrow> terminated (storeBlob (wStore v))"
    using pr two(3) by (auto simp: prunedBy_def entriesSame_def split: sum.splits)
qed

section \<open>A run without an error leaves nothing expired\<close>

lemma indexed_unindex: "indexed (fold unindexSerialLocked keys ca) = indexed ca - set keys"
proof (induction keys arbitrary: ca)
  case (Cons k keys)
  have "indexed (unindexSerialLocked k ca) = indexed ca - {k}"
    by (auto simp: unindexSerialLocked_def Let_def indexed_def AList.delete_eq)
  then show ?case using Cons.IH [of "unindexSerialLocked k ca"] by auto
qed simp

lemma dropCRL_ok:
  assumes run: "run_state (dropCRLEntriesLocked keys) w = (Inr (), v)" and k: "keyOk (wCA w)"
  shows "serialHexStr n \<in> set keys \<Longrightarrow> \<not> onList v n" "serialIndex (wCA v) = serialIndex (wCA w)"
proof -
  let ?kept = "\<lambda>p. filter (\<lambda>entry. serialHexStr (rleSerialNumber entry) \<notin> set keys) (rlEntries (scOwn p))"
  obtain p u where p: "run_state readStoredCRL w = (Inr p, u)"
    and r: "run_state (if ?kept p = rlEntries (scOwn p) then ok () else signCRLLocked (Some p) (?kept p)) u = (Inr (), v)"
    using run unfolding dropCRLEntriesLocked_def Let_def by (rule bindE_okE)
  have q: "quiet w u" and rd: "readOf p u" using readStoredCRL_ok [OF p] readOf_quiet by (auto simp: readOf_def)
  have ku: "keyOk (wCA u)" using k q by (simp add: quiet_def caFrame_def keyOk_def)
  have "\<exists>l. storedOwn v = Some l \<and> revokedSerials l = rleSerialNumber ` set (?kept p)"
    and ix: "serialIndex (wCA v) = serialIndex (wCA u)"
  proof (atomize (full), cases "?kept p = rlEntries (scOwn p)")
    case True
    then have "v = u" using r by simp
    moreover have "rleSerialNumber ` set (?kept p) = revokedSerials (scOwn p)"
      unfolding True by (simp add: revokedSerials_def)
    ultimately show "(\<exists>l. storedOwn v = Some l \<and> revokedSerials l = rleSerialNumber ` set (?kept p))
        \<and> serialIndex (wCA v) = serialIndex (wCA u)" using readOf_own [OF rd] by simp
  next
    case False
    then have s: "run_state (signCRLLocked (Some p) (?kept p)) u = (Inr (), v)" using r by simp
    then have "serialIndex (wCA v) = serialIndex (wCA u)"
      by (cases rule: sign_cases) (simp_all add: caFrame_def)
    moreover obtain l where "storedOwn v = Some l" "revokedSerials l = rleSerialNumber ` set (?kept p)"
      using sign_ok [OF s rd ku] by metis
    ultimately show "(\<exists>l. storedOwn v = Some l \<and> revokedSerials l = rleSerialNumber ` set (?kept p))
        \<and> serialIndex (wCA v) = serialIndex (wCA u)" by blast
  qed
  then show "serialHexStr n \<in> set keys \<Longrightarrow> \<not> onList v n" by (auto simp: onList_def)
  show "serialIndex (wCA v) = serialIndex (wCA w)" using ix q by (simp add: quiet_def caFrame_def)
qed

lemma afterPrune_ok:
  assumes run: "run_state (afterPrune dropped pe) w = (Inr (m, Inr ()), v)" and k: "keyOk (wCA w)"
  shows "m = length dropped" "pe = None"
    "\<And>e n. e \<in> set dropped \<Longrightarrow> set_string16 (ieSerial e) = Some n \<Longrightarrow> \<not> onList v n \<and> serialHexStr n \<notin> indexed (wCA v)"
proof -
  let ?keys = "removedSerials dropped"
  let ?u = "updCA (fold unindexSerialLocked ?keys) w"
  obtain c x y where c: "run_state (dropCRLEntriesLocked ?keys) ?u = (c, x)"
    and d: "run_state (deleteEach dropped) x = (Inr (), y)" and e: "m = length dropped" "joinErrors pe c = Inr ()" "v = y"
    using run unfolding afterPrune_def by (auto elim!: bindE_okE attemptE)
  then have pe: "pe = None" "c = Inr ()" by (auto simp: joinErrors_def split: option.splits)
  have ku: "keyOk (wCA ?u)" using k indexFrame_unindex [of "wCA w" ?keys] by (simp add: keyOk_def indexFrame_def)
  have co: "certsOnly x v" using state_io_relD [OF co_deleteEach d] e(3) by simp
  have ix: "indexed (wCA v) = indexed (wCA w) - set ?keys"
    using dropCRL_ok(2) [OF c [unfolded pe(2)] ku] co indexed_unindex [of ?keys "wCA w"]
    by (simp add: certsOnly_def indexed_def)
  have "\<not> onList v n \<and> serialHexStr n \<notin> indexed (wCA v)" if "e \<in> set dropped" "set_string16 (ieSerial e) = Some n" for e n
  proof -
    have "serialHexStr n \<in> set ?keys" using that by (auto simp: removed_mem)
    then show ?thesis
      using dropCRL_ok(1) [OF c [unfolded pe(2)] ku] co ix by (auto simp: onList_def storedOwn_def certsOnly_def)
  qed
  then show "m = length dropped" "pe = None"
    "\<And>e n. e \<in> set dropped \<Longrightarrow> set_string16 (ieSerial e) = Some n \<Longrightarrow> \<not> onList v n \<and> serialHexStr n \<notin> indexed (wCA v)"
    using e(1) pe(1) by blast+
qed

lemma cleanupLocked_ok:
  assumes "run_state (cleanupLocked cutoff) w = (Inr (m, Inr ()), v)" "keyOk (wCA w)"
  shows "storeEntries (wStore v) = filter (keepEntry cutoff) (storeEntries (wStore w))"
    "m = length (filter (\<lambda>e. \<not> keepEntry cutoff e) (storeEntries (wStore w)))"
    "\<forall>n \<in> expiredSerials cutoff (wStore w). \<not> onList v n \<and> serialHexStr n \<notin> indexed (wCA v)"
proof -
  obtain p u where p: "run_state (PruneInventory (keepEntry cutoff)) w = (p, u)" by fastforce
  note fr = state_io_relD [OF inv_prune p] and pr = prune_run [OF p]
  obtain dropped pe where d: "(case p of Inl e \<Rightarrow> ([], Some e) | Inr x \<Rightarrow> x) = (dropped, pe)" by fastforce
  have rest: "run_state (if dropped = [] then ok (0, joinErrors pe (Inr ())) else afterPrune dropped pe) u = (Inr (m, Inr ()), v)"
    using assms p d by (simp add: cleanupLocked_alt run_bindE run_attempt)
  have ku: "keyOk (wCA u)" using fr assms(2) by (simp add: invFrame_def)
  have pe: "pe = None"
    using rest afterPrune_ok(2) [OF _ ku] by (auto simp: joinErrors_def split: if_splits option.splits)
  then have ds: "dropped = filter (\<lambda>e. \<not> keepEntry cutoff e) (storeEntries (wStore w))"
    and es: "storeEntries (wStore u) = filter (keepEntry cutoff) (storeEntries (wStore w))"
    using pr d by (auto simp: prunedBy_def split: sum.splits)
  have "entriesSame u v"
    using rest es.same afterPrune_rel(3) [of dropped UNIV pe, THEN state_io_relD] by (auto split: if_splits)
  then show "storeEntries (wStore v) = filter (keepEntry cutoff) (storeEntries (wStore w))"
    using es by (simp add: entriesSame_def)
  show "m = length (filter (\<lambda>e. \<not> keepEntry cutoff e) (storeEntries (wStore w)))"
    using rest afterPrune_ok(1) [OF _ ku] ds by (auto split: if_splits)
  show "\<forall>n \<in> expiredSerials cutoff (wStore w). \<not> onList v n \<and> serialHexStr n \<notin> indexed (wCA v)"
  proof
    fix n assume "n \<in> expiredSerials cutoff (wStore w)"
    then obtain e where e: "e \<in> set dropped" "set_string16 (ieSerial e) = Some n"
      using ds by (auto simp: expiredSerials_def)
    then have "dropped \<noteq> []" by auto
    then show "\<not> onList v n \<and> serialHexStr n \<notin> indexed (wCA v)"
      using rest afterPrune_ok(3) [OF _ ku e] by simp
  qed
qed

section \<open>The whole operation\<close>

lemma counted_cases:
  assumes "run_state (withCRLLockCounted fn) w = (r, v)"
  obtains (refused) "quiet w v" "r = Inl ErrBackend"
    | (ran) u u' where "sameState w u" "run_state fn u = (r, u')" "sameState u' v"
proof -
  obtain q x where q: "run_state (WithLock LockCRL (attempt fn)) w = (q, x)" by fastforce
  from q show ?thesis
  proof (cases rule: WithLock_cases)
    case refused
    then have "quiet w x" by (auto intro: qt.same)
    moreover have "quiet x v" "r = Inl ErrBackend"
      using assms q refused by (simp_all add: withCRLLockCounted_def run_bindE run_onError countUpdateFailure_def
          quiet_def caFrame_def) auto
    ultimately show ?thesis using that(1) qt.trans by blast
  next
    case (ran u u')
    obtain q' where "run_state fn u = (q', u')" "q = Inr q'" using ran(2) by (rule attemptE)
    then show ?thesis
      using that(2) [OF ran(1)] assms q ran(3) by (simp add: withCRLLockCounted_def run_bindE run_onError)
  qed
qed

definition cleanupCutoff :: "duration \<Rightarrow> world \<Rightarrow> gotime" where
  "cleanupCutoff retain w = clockOf w - (if retain < 0 then 0 else retain)"

lemma deleteEach_total: "fst (run_state (deleteEach es) t) = Inr ()"
proof (induction es arbitrary: t)
  case (Cons e es)
  have "\<exists>t'. run_state (deleteStoredCertIfSerialMatches s k) t = (Inr (), t')" for s k t
    by (auto simp: deleteStoredCertIfSerialMatches_def run_bindE run_attempt split: prod.splits sum.splits pem.splits option.splits)
  then obtain t' where "run_state (deleteStoredCertIfSerialMatches (ieSubject e) (ieSerial e)) t = (Inr (), t')" by blast
  then show ?case using Cons.IH [of t'] by (simp add: run_bindE)
qed simp

lemma afterPrune_result:
  "fst (run_state (afterPrune d pe) w) =
     Inr (length d, joinErrors pe (fst (run_state (dropCRLEntriesLocked (removedSerials d))
       (updCA (fold unindexSerialLocked (removedSerials d)) w))))"
  using deleteEach_total by (auto simp: afterPrune_def run_bindE run_attempt split: prod.splits sum.splits)
     (metis fst_conv Inl_Inr_False)

lemma Cleanup_cases:
  assumes "run_state (CleanupExpiredCerts retain) w = (r, v)"
  obtains (refused) e where "quiet w v" "r = Inr (0, Inl e)"
    | (ran) u m e u' where "sameState w u" "run_state (cleanupLocked (cleanupCutoff retain w)) u = (Inr (m, e), u')"
        "sameState u' v" "r = Inr (m, e)"
proof -
  let ?c = "cleanupCutoff retain w"
  obtain x where x: "run_state timeNow w = (Inr (clockOf w), x)" "sameState w x" using live_time [of w] by metis
  obtain q where q: "run_state (withCRLLockCounted (withMu (cleanupLocked ?c))) x = (q, v)"
    "r = Inr (case q of Inl e \<Rightarrow> (0, Inl e) | Inr x \<Rightarrow> x)"
    using assms x(1)
    by (auto simp: CleanupExpiredCerts_def cleanupCutoff_def run_bindE run_attempt Let_def split: prod.splits)
  have total: "\<exists>m e. a = Inr (m, e)" if "run_state (cleanupLocked ?c) y = (a, z)" for a y z
  proof -
    have "\<exists>b. fst (run_state (afterPrune d p) t) = Inr b" for d p t by (simp add: afterPrune_result)
    then have "\<exists>b. a = Inr b" using that
      by (auto simp: cleanupLocked_alt run_bindE run_attempt split: prod.splits if_splits) (metis fst_conv)+
    then show ?thesis by (metis surj_pair)
  qed
  from q(1) show ?thesis
  proof (cases rule: counted_cases)
    case refused
    then have "quiet w v" using qt.trans [OF qt.same [OF x(2)]] by blast
    then show ?thesis using that(1) q(2) refused by simp
  next
    case (ran u u')
    from ran(2) obtain y z where y: "sameState u y" "run_state (cleanupLocked ?c) y = (q, z)" "sameState z u'"
      by (rule withMu_cases)
    obtain m e where m: "q = Inr (m, e)" using total [OF y(2)] by blast
    have "sameState w y" using sameState_trans [OF x(2) sameState_trans [OF ran(1) y(1)]] .
    moreover have "sameState z v" using sameState_trans [OF y(3) ran(3)] .
    ultimately show ?thesis using that(2) y(2) m q(2) by simp
  qed
qed

section \<open>A run without faults\<close>

lemma canSign_cong:
  assumes "faultless v = faultless w" "CACert (wCA v) = CACert (wCA w)" "CAKey (wCA v) = CAKey (wCA w)"
    and "stCRL (wStore v) = stCRL (wStore w)" "wConfig v = wConfig w"
  shows "canSignCRL v = canSignCRL w"
  using assms by (simp add: canSignCRL_def)

lemma live_dropCRL:
  assumes "canSignCRL w"
  shows "fst (run_state (dropCRLEntriesLocked keys) w) = Inr ()"
proof -
  obtain p where p: "run_state readStoredCRL w = (Inr p, w)" "readOf p w" using live_readStored [OF assms] .
  have "fst (run_state (signCRLLocked (Some p) es) w) = Inr ()" for es
    using live_signCRL [OF assms p(2), of es] by (metis fst_conv)
  then show ?thesis using p(1) by (simp add: dropCRLEntriesLocked_def Let_def run_bindE)
qed

lemma live_cleanup:
  assumes "canSignCRL w" "hmacKey (wCA w) = None" "stInventory (wStore w) = InvRows rows"
  obtains m v where "run_state (CleanupExpiredCerts retain) w = (Inr (m, Inr ()), v)"
proof -
  let ?keep = "keepEntry (cleanupCutoff retain w)"
  obtain x where x: "run_state timeNow w = (Inr (clockOf w), x)" "sameState w x" "faultless x"
    using live_time [of w] assms(1) by (metis canSignCRL_def)
  let ?u = "enterLock LockMu (enterLock LockCRL x)"
  have "\<exists>st removed. onTable (\<lambda>t. Inr (pruneEntriesOnce ?keep None t)) (wStore w) = Inr (st, removed)"
    using assms(3) by (simp add: onTable_def split_def)
  then obtain st removed where st: "onTable (\<lambda>t. Inr (pruneEntriesOnce ?keep None t)) (wStore w) = Inr (st, removed)"
    by blast
  have pr: "run_state (PruneInventory ?keep) ?u = (Inr (removed, None), ?u\<lparr>wStore := st\<rparr>)"
    using assms(2,3) x(2,3) st
    by (simp add: PruneInventory_def verifyIfKeyed_def run_bindE isChained_def sameState_def live_write)
  have "canSignCRL (updCA (fold unindexSerialLocked ks) (?u\<lparr>wStore := st\<rparr>))" for ks
  proof (subst canSign_cong [of _ w])
    show "faultless (updCA (fold unindexSerialLocked ks) (?u\<lparr>wStore := st\<rparr>)) = faultless w"
      using x(3) assms(1) by (simp add: canSignCRL_def)
    show "CACert (wCA (updCA (fold unindexSerialLocked ks) (?u\<lparr>wStore := st\<rparr>))) = CACert (wCA w)"
      "CAKey (wCA (updCA (fold unindexSerialLocked ks) (?u\<lparr>wStore := st\<rparr>))) = CAKey (wCA w)"
      using indexFrame_unindex [of "wCA w" ks] x(2) by (simp_all add: indexFrame_def sameState_def)
    show "stCRL (wStore (updCA (fold unindexSerialLocked ks) (?u\<lparr>wStore := st\<rparr>))) = stCRL (wStore w)"
      using onTable_fields [OF st] by simp
    show "wConfig (updCA (fold unindexSerialLocked ks) (?u\<lparr>wStore := st\<rparr>)) = wConfig w"
      using x(2) by (simp add: sameState_def)
  qed (rule assms(1))
  then have "fst (run_state (afterPrune removed None) (?u\<lparr>wStore := st\<rparr>)) = Inr (length removed, Inr ())"
    by (simp add: afterPrune_result live_dropCRL joinErrors_def)
  then obtain v where "run_state (cleanupLocked (cleanupCutoff retain w)) ?u = (Inr (length removed, Inr ()), v)"
    using pr by (cases "removed = []") (auto simp: cleanupLocked_alt run_bindE run_attempt joinErrors_def prod_eq_iff)
  then show ?thesis
    using that x(1,3)
    by (simp add: CleanupExpiredCerts_def cleanupCutoff_def [symmetric] run_bindE run_attempt Let_def
        withCRLLockCounted_def run_onError live)
qed

text \<open>The sample with one expired certificate, revoked and still stored.\<close>

definition sampleExpired :: world where
  "sampleExpired = (sampleWith 1 [1])\<lparr>wStore := (wStore (sampleWith 1 [1]))\<lparr>stInventory :=
     InvRows [inventoryRowFromEntry (demoEntry 1 ''a'')], stCerts := [(''a'', PEM (sampleLeaf 1))]\<rparr>,
     wEnv := sampleEnv\<lparr>eNow := 3000000000 * second\<rparr>\<rparr>"

lemma sampleExpired_canSign: "canSignCRL sampleExpired"
  by (subst canSign_cong [of _ "sampleWith 1 [1]"])
    (simp_all add: sampleWith_canSign, simp_all add: sampleExpired_def sampleWith_def faultless_def sampleEnv_def)

lemma sampleExpired_parts:
  "storeEntries (wStore sampleExpired) = [demoEntry 1 ''a'']" "cleanupCutoff 0 sampleExpired = 3000000000 * second"
  "onList sampleExpired 1" "map_of (stCerts (wStore sampleExpired)) ''a'' = Some (PEM (sampleLeaf 1))"
proof -
  have "storedOwn sampleExpired = storedOwn (sampleWith 1 [1])"
    by (simp add: sampleExpired_def storedOwn_def)
  then show "onList sampleExpired 1" by (simp add: onList_def sampleWith_own)
qed (simp_all add: sampleExpired_def storeEntries_def inventoryRowFromEntry_def cleanupCutoff_def clockOf_def sampleEnv_def)

lemma demo_expired: "keepEntry (3000000000 * second) (demoEntry 1 ''a'') = False"
  by (simp add: demoEntry_def keepEntry_def) code_simp

lemma sampleExpired_runs:
  obtains m v where "run_state (CleanupExpiredCerts 0) sampleExpired = (Inr (m, Inr ()), v)"
  using live_cleanup [OF sampleExpired_canSign, of _ 0]
  by (auto simp: sampleExpired_def sampleWith_def sampleCA_def)

section \<open>Properties\<close>

text \<open>
  C30. A cleanup removes nothing that has not expired.  Whatever the backend answers and
  however the run ends, an entry is missing from the inventory afterwards, a serial from
  this CA's revocation list, or a certificate from the store, only if the inventory dated
  its end before the clock less the retention.
\<close>

theorem cleanup_removes_only_expired:
  assumes "run_state (CleanupExpiredCerts retain) w = (r, v)" "keyOk (wCA w)"
  shows "(\<forall>e \<in> set (storeEntries (wStore w)). e \<in> set (storeEntries (wStore v)) \<or> \<not> keepEntry (cleanupCutoff retain w) e)
    \<and> (\<forall>n. onList w n \<longrightarrow> onList v n \<or> n \<in> expiredSerials (cleanupCutoff retain w) (wStore w))
    \<and> (\<forall>s p. map_of (stCerts (wStore w)) s = Some p \<longrightarrow> map_of (stCerts (wStore v)) s = Some p
         \<or> (\<exists>c. p = PEM c \<and> certSerialNumber c \<in> expiredSerials (cleanupCutoff retain w) (wStore w)))"
  using assms(1)
proof (cases rule: Cleanup_cases)
  case (refused e)
  then show ?thesis by (simp add: quiet_def onList_def storedOwn_def caFrame_def)
next
  case (ran u m e u')
  let ?c = "cleanupCutoff retain w"
  let ?D = "expiredSerials ?c (wStore w)"
  have st: "wStore u = wStore w" "wStore v = wStore u'" using ran(1,3) by (simp_all add: sameState_def)
  note s = cleanupLocked_step(1-3) [OF ran(2), unfolded st(1), OF subset_refl]
  have step: "crlStep ?D w v" using cs.trans [OF cs.same [OF ran(1)] cs.trans [OF s(1) cs.same [OF ran(3)]]] .
  have "onList v n \<or> n \<in> ?D" if "onList w n" for n
  proof -
    have "advanced ?D w v" "sameId w v" using step assms(2) by (simp_all add: crlStep_def)
    then show ?thesis using that unfolding advanced_def onList_def storedOwn_def sameId_def by auto
  qed
  then show ?thesis using s(2,3) st unfolding certsBut_def by (auto simp: st)
qed

theorem cleanup_removes_only_expired_witness:
  "\<exists>r v. run_state (CleanupExpiredCerts 0) (sampleWith 1 [7]) = (r, v) \<and> onList v 7"
proof -
  obtain r v where r: "run_state (CleanupExpiredCerts 0) (sampleWith 1 [7]) = (r, v)" by fastforce
  have "onList (sampleWith 1 [7]) 7" "expiredSerials (cleanupCutoff 0 (sampleWith 1 [7])) (wStore (sampleWith 1 [7])) = {}"
    by (simp_all add: onList_def sampleWith_own expiredSerials_def)
      (simp add: sampleWith_def storeEntries_def sampleStore_def go_string parseInventoryBlob_def parseInventoryBlobCounting_def)
  with cleanup_removes_only_expired [OF r sampleWith_ok(1)] r show ?thesis by auto
qed

text \<open>
  C31. A cleanup that reports no error has removed everything expired: the inventory holds
  exactly the entries that had not expired, the number reported is the number of the
  others, and none of their serials is on the revocation list or in the index.
\<close>

theorem cleanup_is_complete:
  assumes "run_state (CleanupExpiredCerts retain) w = (Inr (m, Inr ()), v)" "keyOk (wCA w)"
  shows "storeEntries (wStore v) = filter (keepEntry (cleanupCutoff retain w)) (storeEntries (wStore w))
    \<and> m = length (storeEntries (wStore w)) - length (storeEntries (wStore v))
    \<and> (\<forall>n \<in> expiredSerials (cleanupCutoff retain w) (wStore w). \<not> onList v n \<and> serialHexStr n \<notin> indexed (wCA v))"
  using assms(1)
proof (cases rule: Cleanup_cases)
  case (ran u m' e u')
  then have run: "run_state (cleanupLocked (cleanupCutoff retain w)) u = (Inr (m, Inr ()), u')" by simp
  have st: "wStore u = wStore w" "wCA u = wCA w" "wStore v = wStore u'" "wCA v = wCA u'"
    using ran(1,3) by (simp_all add: sameState_def)
  have k: "keyOk (wCA u)" using assms(2) st(2) by simp
  note c = cleanupLocked_ok [OF run k, unfolded st(1)]
  have "length (storeEntries (wStore w)) = length (filter (keepEntry (cleanupCutoff retain w)) (storeEntries (wStore w))) + m"
    using c(2) sum_length_filter_compl [of "keepEntry (cleanupCutoff retain w)" "storeEntries (wStore w)"] by simp
  then show ?thesis using c st by (simp add: onList_def storedOwn_def)
qed simp

theorem cleanup_is_complete_witness:
  "\<exists>v. run_state (CleanupExpiredCerts 0) sampleExpired = (Inr (1, Inr ()), v)
     \<and> onList sampleExpired 1 \<and> \<not> onList v 1 \<and> storeEntries (wStore v) = []"
proof -
  obtain m v where r: "run_state (CleanupExpiredCerts 0) sampleExpired = (Inr (m, Inr ()), v)"
    by (rule sampleExpired_runs)
  have "set_string16 (ieSerial (demoEntry 1 ''a'')) = Some 1" by (simp add: demoEntry_def)
  then have "1 \<in> expiredSerials (cleanupCutoff 0 sampleExpired) (wStore sampleExpired)"
    by (simp add: expiredSerials_def sampleExpired_parts demo_expired)
  with cleanup_is_complete [OF r canSign_keyOk [OF sampleExpired_canSign]] r show ?thesis
    by (auto simp: sampleExpired_parts demo_expired)
qed

end
