(* ===== verification/Revocation.thy ===== *)
theory Revocation
  imports Issuance Cleanup
begin

text \<open>
  What a revocation promises, across the components: a subject that was revoked has its
  latest certificate on the stored list, a replica that follows the store sees it, refuses
  its renewal and no longer vouches for it, and the guards of revoking by serial hold.
\<close>

section \<open>What a revocation leaves alone\<close>

lemma set_revoked_entries:
  "map rowEntry (tblRows (tblSetRevoked serial at \<lparr>tblRows = rows, tblHead = h\<rparr>)) = map rowEntry rows"
  by (simp add: tblSetRevoked_def comp_def if_distrib cong: if_cong)

lemma es_markIndex: "state_io_rel entriesSame (markCertRevokedIndex s t)"
proof -
  have "state_io_rel entriesSame (backendWrite (onTable (\<lambda>x. Inr (tblSetRevoked s t x, ()))))"
  proof (rule es.io_backendWrite)
    fix w v :: world and st x assume "onTable (\<lambda>x. Inr (tblSetRevoked s t x, ())) (wStore w) = Inr (st, x)" "wStore v = st"
    then obtain rows where "stInventory (wStore w) = InvRows rows"
      "wStore v = (wStore w)\<lparr>stInventory := InvRows (tblRows (tblSetRevoked s t \<lparr>tblRows = rows, tblHead = stInventoryHMAC (wStore w)\<rparr>)),
         stInventoryHMAC := tblHead (tblSetRevoked s t \<lparr>tblRows = rows, tblHead = stInventoryHMAC (wStore w)\<rparr>)\<rparr>"
      by (auto simp: onTable_def split: inventory.splits)
    then show "entriesSame w v"
      using set_revoked_entries [of s t rows "stInventoryHMAC (wStore w)"]
      by (simp add: entriesSame_def storeEntries_def isChained_def storeBlob_def)
  qed
  then show ?thesis
    unfolding markCertRevokedIndex_def MarkCertRevoked_def by (auto intro!: es.io)
qed

lemma es_revokeSerial: "state_io_rel entriesSame (revokeSerialLocked s)"
  unfolding revokeSerialLocked_def
  by (auto intro!: es.io quiet_entries [OF quiet_readStored] quiet_entries [OF quiet_count(1)] es_sign es_markIndex
      es_changeCA split: option.splits)

lemma es_retireEach: "state_io_rel entriesSame (retireEach xs)"
  by (induction xs) (auto intro!: es.io es_revokeSerial)

lemma es_writeSuperseded: "state_io_rel entriesSame (writeSuperseded xs)"
proof -
  have "state_io_rel entriesSame (SaveSuperseded b)" for b
    unfolding SaveSuperseded_def
    by (rule es.io_backendWrite) (auto simp: entriesSame_def storeEntries_def isChained_def storeBlob_def)
  then show ?thesis unfolding writeSuperseded_def by (auto intro!: es.io split: sum.splits)
qed

lemma es_retire: "state_io_rel entriesSame (retireSupersededForSubjectLocked subject)"
  unfolding retireSupersededForSubjectLocked_def
  by (auto intro!: es.io quiet_entries [OF quiet_readSuperseded] quiet_entries [OF quiet_supersedeCount]
      es_retireEach es_writeSuperseded simp: Let_def split: sum.splits)

section \<open>The serial a revocation picks\<close>

lemma latest_ok:
  assumes "run_state (LatestSerialForSubject subject) w = (Inr s, v)"
  shows "latestSerial (storeEntries (wStore w)) subject = Inr s"
proof (cases "stInventory (wStore w)")
  case (InvRows rows)
  then show ?thesis
    using assms
    by (auto simp: LatestSerialForSubject_def run_bindE isChained_def tblLatestSerialForSubject_def latestSerial_def
        storeEntries_def tblEntries_def dest!: backendRead_ok split: option.splits)
next
  case (InvBlob b)
  then obtain data u x where r: "run_state verifyIfKeyed w = (Inr (), x)"
    "run_state (backendRead (\<lambda>st. case stInventory st of InvBlob b \<Rightarrow> optionE b
       | InvRows rows \<Rightarrow> Inr (renderInventoryText (map rowEntry rows)))) x = (Inr data, u)"
    "latestSerialFromBlob data subject = Inr s"
    using assms by (auto simp: LatestSerialForSubject_def ReadInventory_def run_bindE [of "getsE f" for f] isChained_def
        elim!: bindE_okE)
  have e: "entriesSame w x" by (rule state_io_relD [OF es_verifyIfKeyed r(1)])
  then obtain b' where "stInventory (wStore x) = InvBlob b'"
    using InvBlob by (cases "stInventory (wStore x)") (auto simp: entriesSame_def isChained_def)
  then have "storeEntries (wStore x) = parseInventoryBlob data"
    using backendRead_ok [OF r(2)] by (auto simp: storeEntries_def optionE_def split: option.splits)
  then show ?thesis using r(3) e by (simp add: entriesSame_def latestSerialFromBlob_entries)
qed

lemma Revoke_ok:
  assumes run: "run_state (Revoke subject) w = (Inr (), v)" and k: "keyOk (wCA w)"
  obtains s n where "latestSerial (storeEntries (wStore w)) subject = Inr s" "set_string16 s = Some n" "onList v n"
proof -
  from run have "run_state (WithLock (LockSubject subject) (withCRLLockCounted (withMu (revokeLocked subject)))) w = (Inr (), v)"
    unfolding Revoke_def by (auto elim!: bindE_okE)
  then show ?thesis
  proof (cases rule: WithLock_cases)
    case (ran a b)
    from ran(2) show ?thesis
    proof (cases rule: counted_cases)
      case inner: (ran c d)
      from inner(2) obtain x y where xy: "sameState c x" "run_state (revokeLocked subject) x = (Inr (), y)" "sameState y d"
        by (rule withMu_cases)
      have wx: "sameState w x" using sameState_trans ran(1) inner(1) xy(1) by blast
      have yv: "sameState y v" using sameState_trans xy(3) inner(3) ran(3) by blast
      obtain p r q where p: "run_state (retireSupersededForSubjectLocked subject) x = (Inr (), p)"
        and q: "run_state (LatestSerialForSubject subject) p = (r, q)"
        and r: "run_state (case r of Inl e \<Rightarrow> if errors_is e ErrNotExist then fail ErrSubjectUnknown
           else onError (fail e) (\<lambda>_. countUpdateFailure) | Inr serialStr \<Rightarrow> revokeSerialLocked serialStr) q = (Inr (), y)"
        using xy(2) unfolding revokeLocked_def findSerialForSubject_def by (auto elim!: bindE_okE attemptE)
      obtain s where s: "r = Inr s" "run_state (revokeSerialLocked s) q = (Inr (), y)"
        using r by (cases r) (auto simp: run_onError split: if_splits)
      have "storeEntries (wStore p) = storeEntries (wStore w)"
        using state_io_relD [OF es_retire p] wx by (simp add: entriesSame_def sameState_def)
      then have l: "latestSerial (storeEntries (wStore w)) subject = Inr s"
        using latest_ok q s(1) by fastforce
      have "crlStep {} x p" "invFrame p q"
        using state_io_relD [OF step_retire p] state_io_relD [OF inv_latest q] .
      then have "keyOk (wCA q)" using k wx keyOk_step by (auto simp: sameState_def invFrame_def)
      from s(2) this obtain n where "set_string16 s = Some n" "onList y n" by (rule revokeSerialLocked_ok)
      then show ?thesis using that [OF l] yv by (simp add: onList_def storedOwn_def sameState_def)
    qed simp
  qed simp
qed

section \<open>The cached answers\<close>

text \<open>
  Most operations only take answers out of the cache and only add to the index; then the
  cache stays well formed.
\<close>

definition cacheShrinks :: "world \<Rightarrow> world \<Rightarrow> bool" where
  "cacheShrinks w v = (set (ocspCache (wCA v)) \<subseteq> set (ocspCache (wCA w)) \<and> indexed (wCA w) \<subseteq> indexed (wCA v))"

interpretation ck: step_relation cacheShrinks
  by unfold_locales (auto simp: cacheShrinks_def sameState_def)

lemma shrinks_wf: "cacheShrinks w v \<Longrightarrow> ocspWf (wCA w) \<Longrightarrow> ocspWf (wCA v)"
  unfolding cacheShrinks_def ocspWf_def by (meson subsetD)

lemma ck_quiet: "state_io_rel quiet m \<Longrightarrow> state_io_rel cacheShrinks m"
  unfolding state_io_rel_def quiet_def caFrame_def cacheShrinks_def indexed_def by fastforce

lemma ck_inv: "state_io_rel invFrame m \<Longrightarrow> state_io_rel cacheShrinks m"
  unfolding state_io_rel_def invFrame_def cacheShrinks_def by fastforce

lemma ck_install: "state_io_rel cacheShrinks (changeCA (installCachedCRLLocked l))"
  by (rule ck.io_changeCA) (auto simp: cacheShrinks_def install_fields indexed_def)

lemma ck_notify: "state_io_rel cacheShrinks (changeCA (\<lambda>ca. ca\<lparr>crlNotify := b\<rparr>))"
  by (rule ck.io_changeCA) (simp add: cacheShrinks_def indexed_def)

lemma ck_evict: "state_io_rel cacheShrinks (changeCA (evictOCSPLocked s))"
  by (rule ck.io_changeCA) (auto simp: cacheShrinks_def evictOCSPLocked_def indexed_def)

lemma ck_write: "state_io_rel cacheShrinks (backendWrite f)"
  by (rule ck.io_backendWrite) (simp add: cacheShrinks_def)

lemma ck_sign: "state_io_rel cacheShrinks (signCRLLocked p es)"
  unfolding signCRLLocked_def UpdateCRL_def
  by (auto intro!: ck.io ck_quiet [OF quiet_prepare] ck_quiet [OF quiet_count(1)] ck_write ck_install ck_notify
      split: option.splits)

lemma ck_sync: "state_io_rel cacheShrinks SyncCRLCache"
  unfolding SyncCRLCache_def syncFrom_def
  by (auto intro!: ck.io ck_quiet [OF quiet_reads(1)] ck_quiet [OF quiet_count(2)] ck_install split: option.splits)

lemma ck_revokeSerial: "state_io_rel cacheShrinks (revokeSerialLocked s)"
  unfolding revokeSerialLocked_def
  by (auto intro!: ck.io ck_quiet [OF quiet_readStored] ck_quiet [OF quiet_count(1)] ck_sign ck_inv [OF inv_markIndex]
      ck_evict split: option.splits)

section \<open>Revoking without faults\<close>

lemma mark_total: "\<exists>v. run_state (markCertRevokedIndex s t) w = (Inr (), v)"
  by (auto simp: markCertRevokedIndex_def run_bindE run_attempt split: prod.splits)

lemma live_revokeSerial:
  assumes "canSignCRL w" "set_string16 s = Some n"
  obtains v where "run_state (revokeSerialLocked s) w = (Inr (), v)"
proof -
  obtain p where p: "run_state readStoredCRL w = (Inr p, w)" "readOf p w" using live_readStored [OF assms(1)] .
  show ?thesis
  proof (cases "find (\<lambda>entry. rleSerialNumber entry = n) (rlEntries (scOwn p))")
    case None
    obtain u where u: "run_state timeNow w = (Inr (clockOf w), u)" "sameState w u" "faultless u = faultless w"
      using live_time [of w] by metis
    have cs: "canSignCRL u" "readOf p u"
      using canSign_same [OF u(2,3)] assms(1) p(2) u(2) by (simp_all add: readOf_def sameState_def)
    obtain x where x: "run_state (signCRLLocked (Some p) (rlEntries (scOwn p)
        @ [\<lparr>rleSerialNumber = n, rleRevocationTime = clockOf w\<rparr>])) u = (Inr (), x)"
      using live_signCRL [OF cs] by metis
    obtain y where "run_state (markCertRevokedIndex s (clockOf w)) x = (Inr (), y)" using mark_total by blast
    then show ?thesis using that p(1) None u(1) x assms(2) by (simp add: revokeSerialLocked_def run_bindE)
  next
    case (Some e)
    obtain y where "run_state (markCertRevokedIndex s (rleRevocationTime e)) w = (Inr (), y)" using mark_total by blast
    then show ?thesis using that p(1) Some assms(2) by (simp add: revokeSerialLocked_def run_bindE)
  qed
qed

text \<open>Room for the list to be signed again some more times.\<close>

definition canSignMore :: "nat \<Rightarrow> world \<Rightarrow> bool" where
  "canSignMore k w = (canSignCRL w \<and> (\<forall>l. storedOwn w = Some l \<longrightarrow> \<bar>nextNumber l\<bar> + int k < 2 ^ 159))"

lemma more_cong:
  assumes "faultless v = faultless w" "sameId w v" "stCRL (wStore v) = stCRL (wStore w)"
  shows "canSignMore k v = canSignMore k w"
  using assms canSign_cong [of v w] by (simp add: canSignMore_def storedOwn_def sameId_def)

lemma more_less: "canSignMore k w \<Longrightarrow> j \<le> k \<Longrightarrow> canSignMore j w"
  unfolding canSignMore_def by fastforce

text \<open>What retiring a certificate leaves of the inventory's integrity value.\<close>

definition headSame :: "world \<Rightarrow> world \<Rightarrow> bool" where
  "headSame w v = (stInventoryHMAC (wStore v) = stInventoryHMAC (wStore w))"

interpretation hd: step_relation headSame
  by unfold_locales (auto simp: headSame_def sameState_def)

lemma head_quiet: "state_io_rel quiet m \<Longrightarrow> state_io_rel headSame m"
  unfolding state_io_rel_def headSame_def by (auto simp: quiet_def)

lemma head_mark: "state_io_rel headSame (markCertRevokedIndex s t)"
proof -
  have "state_io_rel headSame (backendWrite (onTable (\<lambda>x. Inr (tblSetRevoked s t x, ()))))"
    by (rule hd.io_backendWrite) (auto simp: onTable_def headSame_def tblSetRevoked_def split: inventory.splits, drule sym, simp)
  then show ?thesis unfolding markCertRevokedIndex_def MarkCertRevoked_def by (auto intro!: hd.io)
qed

lemma head_changeCA: "state_io_rel headSame (changeCA f)"
  by (rule hd.io_changeCA) (simp add: headSame_def)

lemma head_sign: "state_io_rel headSame (signCRLLocked p es)"
proof -
  have "state_io_rel headSame (UpdateCRL b)" for b
    unfolding UpdateCRL_def by (rule hd.io_backendWrite) (auto simp: headSame_def)
  then show ?thesis
    unfolding signCRLLocked_def
    by (auto intro!: hd.io head_quiet [OF quiet_prepare] head_quiet [OF quiet_count(1)] head_changeCA split: option.splits)
qed

lemma head_revokeSerial: "state_io_rel headSame (revokeSerialLocked s)"
  unfolding revokeSerialLocked_def
  by (auto intro!: hd.io head_quiet [OF quiet_readStored] head_quiet [OF quiet_count(1)] head_sign head_mark head_changeCA
      split: option.splits)

lemma head_retire: "state_io_rel headSame (retireSupersededForSubjectLocked subject)"
proof -
  have "state_io_rel headSame (retireEach es)" for es
    by (induction es) (auto intro!: hd.io head_revokeSerial)
  moreover have "state_io_rel headSame (SaveSuperseded b)" for b
    unfolding SaveSuperseded_def by (rule hd.io_backendWrite) (auto simp: headSame_def)
  then have "state_io_rel headSame (writeSuperseded es)" for es
    unfolding writeSuperseded_def by (auto intro!: hd.io split: sum.splits)
  ultimately show ?thesis
    unfolding retireSupersededForSubjectLocked_def
    by (auto intro!: hd.io head_quiet [OF quiet_readSuperseded] head_quiet [OF quiet_supersedeCount] simp: Let_def
        split: sum.splits)
qed

lemma intact_retire:
  assumes "run_state (retireSupersededForSubjectLocked subject) w = (r, v)"
  shows "inventoryIntact v = inventoryIntact w" "storeEntries (wStore v) = storeEntries (wStore w)"
proof -
  have "sameId w v" using state_io_relD [OF step_retire assms] by (simp add: crlStep_def)
  then show "inventoryIntact v = inventoryIntact w" "storeEntries (wStore v) = storeEntries (wStore w)"
    using state_io_relD [OF head_retire assms] state_io_relD [OF es_retire assms]
    by (simp_all add: inventoryIntact_def headSame_def entriesSame_def sameId_def computedHead_def)
qed

text \<open>A run that keeps the room it does not use.\<close>

lemma live_markIndex:
  assumes "faultless w"
  obtains v where "run_state (markCertRevokedIndex s t) w = (Inr (), v)" "faultless v" "sameId w v"
    "stCRL (wStore v) = stCRL (wStore w)"
proof -
  obtain r v where v: "run_state (MarkCertRevoked s t) w = (r, v)" by fastforce
  have "faultless v"
    using v assms by (auto simp: MarkCertRevoked_def run_bindE live_write split: if_splits sum.splits prod.splits)
  moreover have "invFrame w v" by (rule state_io_relD [OF inv_mark v])
  moreover have "run_state (markCertRevokedIndex s t) w = (Inr (), v)"
    using v by (simp add: markCertRevokedIndex_def run_bindE run_attempt)
  ultimately show ?thesis using that by (simp add: invFrame_def sameId_def)
qed

lemma live_resign:
  assumes "canSignMore (Suc k) w" "readOf p w"
  obtains v where "run_state (signCRLLocked (Some p) revoked) w = (Inr (), v)" "canSignMore k v" "sameId w v"
proof -
  have cs: "canSignCRL w" and room: "\<bar>nextNumber (scOwn p)\<bar> + int (Suc k) < 2 ^ 159"
    using assms readOf_own [OF assms(2)] by (auto simp: canSignMore_def)
  from cs assms(2) obtain v where v: "run_state (signCRLLocked (Some p) revoked) w = (Inr (), v)" "faultless v"
    by (rule live_signCRL)
  from v(1) show ?thesis
  proof (cases rule: sign_cases)
    case (signed l b)
    have id: "sameId w v" using signed by (simp add: sameId_def caFrame_def)
    note f = resigned_forward [OF signed(2) canSign_keyOk [OF cs] assms(2) [unfolded readOf_def, THEN conjunct2]]
    have n: "rlNumber l = Some (nextNumber (scOwn p))" "\<exists>chain. decodeCRLChain b = Inr chain"
      using signed(2) unfolding resigned_def by (auto dest: create_fields(1))
    have "\<bar>nextNumber l\<bar> + int k < 2 ^ 159" using room n(1) by (simp add: nextNumber_def)
    then have "canSignMore k v"
      using cs f(2) n(2) signed(3) id v(2)
      by (auto simp: canSignMore_def canSignCRL_def storedOwn_def ownOf_def sameId_def)
    then show ?thesis using that v(1) id by blast
  qed simp_all
qed

lemma live_revokeMore:
  assumes "canSignMore (Suc k) w"
  obtains r v where "run_state (revokeSerialLocked s) w = (r, v)" "canSignMore k v"
proof (cases "set_string16 s")
  case None
  then show ?thesis
    using that [of "Inl (ErrOther ''malformed serial'')"] more_less [OF assms, of k] more_cong [of "updCA (crlUpdateFailures_update Suc) w" w k]
    by (simp add: revokeSerialLocked_def run_onError countUpdateFailure_def sameId_def faultless_def)
next
  case (Some n)
  have cs: "canSignCRL w" using assms by (simp add: canSignMore_def)
  obtain p where p: "run_state readStoredCRL w = (Inr p, w)" "readOf p w" using live_readStored [OF cs] .
  show ?thesis
  proof (cases "find (\<lambda>entry. rleSerialNumber entry = n) (rlEntries (scOwn p))")
    case None
    obtain u where u: "run_state timeNow w = (Inr (clockOf w), u)" "sameState w u" "faultless u = faultless w"
      using live_time [of w] by metis
    have m: "canSignMore (Suc k) u" "readOf p u"
      using more_cong [of u w "Suc k"] assms p(2) u by (simp_all add: readOf_def sameState_def sameId_def)
    obtain x where x: "run_state (signCRLLocked (Some p) (rlEntries (scOwn p)
        @ [\<lparr>rleSerialNumber = n, rleRevocationTime = clockOf w\<rparr>])) u = (Inr (), x)" "canSignMore k x"
      using live_resign [OF m] by metis
    have "faultless x" using x(2) by (simp add: canSignMore_def canSignCRL_def)
    then obtain y where y: "run_state (markCertRevokedIndex s (clockOf w)) x = (Inr (), y)" "faultless y" "sameId x y"
      "stCRL (wStore y) = stCRL (wStore x)" by (rule live_markIndex)
    let ?v = "updCA (evictOCSPLocked (serialHexStr n)) y"
    have "canSignMore k ?v"
      using more_cong [of ?v x k] y x(2) by (simp add: sameId_def evictOCSPLocked_def faultless_def canSignMore_def canSignCRL_def)
    then show ?thesis using that p(1) None u(1) x(1) y(1) Some by (simp add: revokeSerialLocked_def run_bindE)
  next
    case (Some e)
    have "faultless w" using cs by (simp add: canSignCRL_def)
    then obtain y where y: "run_state (markCertRevokedIndex s (rleRevocationTime e)) w = (Inr (), y)" "faultless y" "sameId w y"
      "stCRL (wStore y) = stCRL (wStore w)" by (rule live_markIndex)
    then have "canSignMore k y"
      using more_cong [of y w k] more_less [OF assms, of k] by (simp add: canSignMore_def canSignCRL_def)
    then show ?thesis using that p(1) Some y(1) \<open>set_string16 s = Some n\<close> by (simp add: revokeSerialLocked_def run_bindE)
  qed
qed

lemma live_retireEach:
  assumes "canSignMore (length es + k) w"
  obtains failed v where "run_state (retireEach es) w = (Inr failed, v)" "canSignMore k v"
  using assms
proof (induction es arbitrary: w thesis)
  case (Cons e es)
  from Cons.prems(2) have "canSignMore (Suc (length es + k)) w" by simp
  then obtain r u where u: "run_state (revokeSerialLocked (seSerial e)) w = (r, u)" "canSignMore (length es + k) u"
    by (rule live_revokeMore)
  from Cons.IH [OF _ u(2)] obtain failed v where "run_state (retireEach es) u = (Inr failed, v)" "canSignMore k v" by blast
  then show ?case using Cons.prems(1) u(1) by (simp add: run_bindE run_attempt)
qed simp

lemma live_retire:
  assumes "canSignMore (length (pending w) + k) w"
  obtains v where "run_state (retireSupersededForSubjectLocked subject) w = (Inr (), v)" "canSignMore k v"
proof -
  let ?mine = "filter (\<lambda>e. seSubject e = subject) (pending w)" let ?kept = "filter (\<lambda>e. seSubject e \<noteq> subject) (pending w)"
  have f: "faultless w" using assms by (simp add: canSignMore_def canSignCRL_def)
  then obtain c u where u: "run_state readSuperseded w = (Inr (pending w, c), u)" "faultless u" "sameId w u" "wStore u = wStore w"
    by (cases "stSuperseded (wStore w)"; cases "sbCorrupt (the (stSuperseded (wStore w)))")
      (auto simp: readSuperseded_def loadSuperseded_def GetSuperseded_def run_bindE run_attempt live optionE_def parseSuperseded_def
        pending_def countSupersedeFailure_def sameId_def Let_def)
  have m: "canSignMore (length (pending w) + k) u" using more_cong [of u w] u f assms by simp
  show ?thesis
  proof (cases "?mine = []")
    case True
    then show ?thesis
      using that [of u] u(1) more_less [OF m, of k] by (simp add: retireSupersededForSubjectLocked_def run_bindE run_attempt Let_def)
  next
    case False
    have "canSignMore (length ?mine + k) u" using more_less [OF m] by simp
    then obtain failed x where x: "run_state (retireEach ?mine) u = (Inr failed, x)" "canSignMore k x" by (rule live_retireEach)
    obtain y where y: "run_state (if failed \<noteq> [] then countSupersedeFailure else ok ()) x = (Inr (), y)"
      "faultless y = faultless x" "sameId x y" "wStore y = wStore x"
      by (cases "failed = []") (simp_all add: countSupersedeFailure_def sameId_def faultless_def)
    let ?v = "y\<lparr>wStore := (wStore y)\<lparr>stSuperseded := Some \<lparr>sbEntries = ?kept @ failed, sbCorrupt = False\<rparr>\<rparr>\<rparr>"
    have fy: "faultless y" using y(2) x(2) by (simp add: canSignMore_def canSignCRL_def)
    then have "run_state (writeSuperseded (?kept @ failed)) y = (Inr (), ?v)"
      by (simp add: writeSuperseded_def SaveSuperseded_def run_bindE run_attempt live_write)
    moreover have "canSignMore k ?v" using more_cong [of ?v x k] x(2) y fy by (simp add: sameId_def faultless_def)
    ultimately show ?thesis
      using that [of ?v] u(1) x(1) y(1) False by (simp add: retireSupersededForSubjectLocked_def run_bindE run_attempt Let_def)
  qed
qed

lemma live_Revoke:
  assumes "canSignMore (length (pending w)) w" "inventoryIntact w" "ValidateSubject subject = Inr ()"
    and "latestSerial (storeEntries (wStore w)) subject = Inr s" "set_string16 s = Some n"
  obtains v where "run_state (Revoke subject) w = (Inr (), v)"
proof -
  let ?u = "enterLock LockMu (enterLock LockCRL (enterLock (LockSubject subject) w))"
  have f: "faultless w" using assms(1) by (simp add: canSignMore_def canSignCRL_def)
  have "pending ?u = pending w" by (simp add: pending_def)
  moreover have "canSignMore (length (pending w)) ?u" using more_cong [of ?u w] f assms(1) by (simp add: sameId_def)
  ultimately obtain x where x: "run_state (retireSupersededForSubjectLocked subject) ?u = (Inr (), x)" "canSignMore 0 x"
    using live_retire [of ?u 0] by auto
  have i: "inventoryIntact x" "storeEntries (wStore x) = storeEntries (wStore w)"
    using intact_retire [OF x(1)] assms(2) by (simp_all add: inventoryIntact_def)
  have c: "canSignCRL x" "faultless x" using x(2) by (simp_all add: canSignMore_def canSignCRL_def)
  obtain v where "run_state (revokeSerialLocked s) x = (Inr (), v)" using live_revokeSerial [OF c(1) assms(5)] .
  then have "run_state (revokeLocked subject) ?u = (Inr (), v)"
    using x(1) live_latestSerial [OF c(2) i(1)] i(2) assms(4) by (simp add: revokeLocked_def findSerialForSubject_def run_bindE run_attempt)
  then show ?thesis
    using that assms(3) f by (simp add: Revoke_def withCRLLockCounted_def run_bindE run_attempt run_onError live)
qed

lemma live_noRetire:
  assumes "faultless w" "stSuperseded (wStore w) = None"
  shows "run_state (retireSupersededForSubjectLocked subject) w = (Inr (), w)"
  using assms by (simp add: retireSupersededForSubjectLocked_def readSuperseded_def loadSuperseded_def GetSuperseded_def
      run_bindE run_attempt live optionE_def parseSuperseded_def)

text \<open>The sample with a certificate of serial 1 on record for the subject a.\<close>

definition sampleIssued :: "nat \<Rightarrow> int list \<Rightarrow> world" where
  "sampleIssued n ss = (sampleWith n ss)\<lparr>wStore := (wStore (sampleWith n ss))\<lparr>stInventory :=
     InvRows [inventoryRowFromEntry (demoEntry 1 ''a'')], stCerts := [(''a'', PEM (sampleLeaf 1))]\<rparr>\<rparr>"

lemma sampleIssued_canSign: "n < 1000 \<Longrightarrow> canSignCRL (sampleIssued n ss)"
  by (subst canSign_cong [of _ "sampleWith n ss"]) (simp_all add: sampleWith_canSign, simp_all add: sampleIssued_def faultless_def)

lemma sampleIssued_parts:
  "storeEntries (wStore (sampleIssued n ss)) = [demoEntry 1 ''a'']" "stSuperseded (wStore (sampleIssued n ss)) = None"
  "hmacKey (wCA (sampleIssued n ss)) = None" "wCA (sampleIssued n ss) = wCA (sampleWith n ss)"
  "stCRL (wStore (sampleIssued n ss)) = Some (encodeCRLChain [sampleCRL n ss])"
  "latestSerial [demoEntry 1 ''a''] ''a'' = Inr (serialHexStr 1)" "set_string16 (serialHexStr 1) = Some 1"
  by (simp_all add: sampleIssued_def sampleWith_def storeEntries_def inventoryRowFromEntry_def sampleStore_def sampleCA_def
      latestSerial_def demoEntry_def)

lemma sampleIssued_more: "n < 1000 \<Longrightarrow> k < 1000 \<Longrightarrow> canSignMore k (sampleIssued n ss)"
proof -
  assume n: "n < 1000" "k < 1000"
  have "\<bar>nextNumber (sampleCRL n ss)\<bar> + int k \<le> 2000" using n by (simp add: nextNumber_def sampleCRL_def)
  then have "\<bar>nextNumber (sampleCRL n ss)\<bar> + int k < 2 ^ 159" by (rule order_le_less_trans) simp
  moreover have "storedOwn (sampleIssued n ss) = storedOwn (sampleWith n ss)"
    by (simp add: storedOwn_def sampleIssued_parts(4,5)) (simp add: sampleWith_def)
  ultimately show ?thesis using sampleIssued_canSign [OF n(1)] by (simp add: canSignMore_def sampleWith_own)
qed

lemma sampleIssued_runs:
  assumes "n < 1000"
  obtains v where "run_state (Revoke ''a'') (sampleIssued n ss) = (Inr (), v)"
  by (rule live_Revoke [OF _ _ sample_subject, of "sampleIssued n ss" "serialHexStr 1" 1])
    (simp_all add: sampleIssued_more [OF assms] sampleIssued_parts(1-3,6,7) inventoryIntact_def pending_def)

text \<open>Revoking what is listed already only repeats the projection.\<close>

lemma live_mark:
  assumes "faultless w" "stInventory (wStore w) = InvRows rows"
  obtains st where "run_state (markCertRevokedIndex s t) w = (Inr (), w\<lparr>wStore := st\<rparr>)" "stCRL st = stCRL (wStore w)"
  using assms that by (simp add: markCertRevokedIndex_def MarkCertRevoked_def run_bindE run_attempt isChained_def live_write onTable_def)

lemma sampleIssued_listed:
  obtains v where "run_state (Revoke ''a'') (sampleIssued 2 [1]) = (Inr (), v)" "faultless v"
    "stCRL (wStore v) = Some (encodeCRLChain [sampleCRL 2 [1]])" "CACert (wCA v) = Some sampleCACert"
proof -
  let ?w = "sampleIssued 2 [1]"
  let ?u = "enterLock LockMu (enterLock LockCRL (enterLock (LockSubject ''a'') ?w))"
  have cs: "canSignCRL ?w" "faultless ?w" using sampleIssued_canSign [of 2 "[1]"] by (simp_all add: canSignCRL_def)
  then have "canSignCRL ?u" using canSign_same [of ?w ?u] by (simp add: sameState_def)
  then obtain p where p: "run_state readStoredCRL ?u = (Inr p, ?u)" "readOf p ?u" using live_readStored by blast
  have "storedOwn ?u = Some (sampleCRL 2 [1])"
    by (simp add: storedOwn_def ownOf_def sampleIssued_parts(4,5)) (simp add: sampleWith_def sampleCA_def parse_encoded)
  then have own: "scOwn p = sampleCRL 2 [1]" using readOf_own [OF p(2)] by simp
  have "faultless ?u" "\<exists>rows. stInventory (wStore ?u) = InvRows rows" using cs(2) by (simp_all add: sampleIssued_def)
  then obtain st where st: "run_state (markCertRevokedIndex (serialHexStr 1) 0) ?u = (Inr (), ?u\<lparr>wStore := st\<rparr>)"
    "stCRL st = stCRL (wStore ?u)" using live_mark [of ?u] by metis
  then have "run_state (revokeSerialLocked (serialHexStr 1)) ?u = (Inr (), ?u\<lparr>wStore := st\<rparr>)"
    using p(1) own by (simp add: revokeSerialLocked_def run_bindE sampleCRL_def)
  then have "run_state (revokeLocked ''a'') ?u = (Inr (), ?u\<lparr>wStore := st\<rparr>)"
    using cs(2) by (simp add: revokeLocked_def findSerialForSubject_def run_bindE run_attempt live_noRetire live_latestSerial
        sampleIssued_parts(1-3,6) inventoryIntact_def)
  then have "run_state (Revoke ''a'') ?w = (Inr (), leaveLock (leaveLock (leaveLock (?u\<lparr>wStore := st\<rparr>))))"
    using cs(2) by (simp add: Revoke_def withCRLLockCounted_def run_bindE run_attempt run_onError live)
  then show ?thesis
    using that [of "leaveLock (leaveLock (leaveLock (?u\<lparr>wStore := st\<rparr>)))"] st(2) cs(2)
    by (simp add: sampleIssued_parts(4,5)) (simp add: sampleWith_def sampleCA_def)
qed

text \<open>A newer list of ours in the store is adopted.\<close>

lemma live_adopt:
  assumes "faultless b" "stCRL (wStore b) = Some (encodeCRLChain [l])" "cachedCRL (wCA b) = Some k"
    and "CACert (wCA b) = Some c" "ownsCRL (Some c) l" "newerCRL l k" "k \<noteq> l"
  obtains b' where "run_state SyncCRLCache b = (Inr True, b')"
proof -
  have "selectOwnCRL (encodeCRLChain [l]) (Some c) = Inr (Some l)"
    using assms(5) ownCRLIn_lead [of "Some c" l "[]"] by (simp add: selectOwnCRL_def)
  then show ?thesis
    using assms that by (simp add: SyncCRLCache_def GetCRL_def syncFrom_def run_bindE run_onError live optionE_def)
qed

section \<open>Another replica\<close>

text \<open>Any replica of the same CA that has synchronised with a store listing the serial.\<close>

lemma synced_replica:
  assumes "onList v n" "wStore b = wStore v" "CACert (wCA b) = CACert (wCA v)" "keyOk (wCA b)" "cacheOk D b"
    and "run_state SyncCRLCache b = (Inr x, b')"
  obtains l where "cachedCRL (wCA b') = Some l" "n \<in> revokedSerials l" "keyOk (wCA b')" "cacheOk D b'"
    "ocspOk (wCA b) \<longrightarrow> ocspOk (wCA b')" "ocspWf (wCA b) \<longrightarrow> ocspWf (wCA b')"
proof -
  have st: "storedOwn b = storedOwn v" using assms(2,3) by (simp add: storedOwn_def)
  have c: "cachedCRL (wCA b') = storedOwn b" by (rule SyncCRLCache_fresh [OF assms(6,5)])
  have step: "crlStep D b b'" by (rule state_io_relD [OF step_SyncCRLCache assms(6)])
  have "cacheShrinks b b'" by (rule state_io_relD [OF ck_sync assms(6)])
  then show ?thesis
    using that c st assms(1,4,5) step keyOk_step shrinks_wf unfolding crlStep_def onList_def by metis
qed

lemma isRevoked_cached:
  assumes "cachedCRL (wCA w) = Some l" "n \<in> revokedSerials l"
  shows "fst (run_state (IsRevokedSerial n) w) = Inr True"
  using live_isRevoked [OF assms(1), of n] assms(2) by simp

lemma refused_renewals:
  assumes "\<And>u. \<not> cleared w p u"
  shows "(\<exists>e. fst (run_state (Renew subject q (Some p)) w) = Inl e) \<and> (\<exists>e. fst (run_state (AutoRenew (Some p)) w) = Inl e)"
proof -
  have "run_state (Renew subject q (Some p)) w \<noteq> (Inr cert, v)" "run_state (AutoRenew (Some p)) w \<noteq> (Inr cert, v)" for cert v
    using assms by (auto elim!: Renew_ok AutoRenew_ok)
  then show ?thesis by (metis prod.collapse sum.exhaust)
qed

lemma answer_not_good:
  assumes "run_state (AnswerOCSP dep der) w = (Inr a, v)" "odParsed der = Inr req" "ocspOk (wCA w)"
    and "ocspWf (wCA w)" "cachedCRL (wCA w) = Some l" "reqSerialNumber req \<in> revokedSerials l"
  shows "orStatus (oaResponse a) \<noteq> OCSPGood"
  using assms(1,2)
proof (cases rule: AnswerOCSP_ok)
  case (cached c entry)
  then have "((serialHexStr (reqSerialNumber req), HashAlgorithm req), entry) \<in> set (ocspCache (wCA w))"
    using map_of_SomeD by fast
  then have "\<forall>crl. cachedCRL (wCA w) = Some crl \<longrightarrow> orStatus (oceResponse entry) = OCSPGood \<longrightarrow>
      serialHexStr (reqSerialNumber req) \<notin> serialHexStr ` revokedSerials crl"
    using assms(3) unfolding ocspOk_def by blast
  then show ?thesis using cached(5) assms(5,6) by auto
next
  case (signed c now status u)
  then show ?thesis
    using decide_good [of "cachedCRL (wCA w)" "reqSerialNumber req"] assms(5,6) by (auto simp: ocspTemplate_def)
qed

section \<open>Revoking by serial\<close>

lemma SubjectForSerial_ok:
  assumes "run_state (SubjectForSerial serial) w = (Inr subject, v)"
  obtains s where "NormaliseSerial serial = Inr s" "subjectOfSerial s (storeEntries (wStore w)) = Inr subject"
proof -
  obtain s x es where s: "NormaliseSerial serial = Inr s"
    and x: "run_state (if isChained (wStore w) then ok () else verifyIfKeyed) w = (Inr (), x)"
    and r: "run_state inventoryEntriesLocked x = (Inr es, v)" "subjectOfSerial s es = Inr subject"
    using assms unfolding SubjectForSerial_def by (auto elim!: bindE_okE simp: run_bindE [of "getsE f" for f])
  have "state_io_rel entriesSame (if isChained (wStore w) then ok () else verifyIfKeyed)"
    by (auto intro: es.io es_verifyIfKeyed)
  from state_io_relD [OF this x] have "storeEntries (wStore x) = storeEntries (wStore w)"
    by (simp add: entriesSame_def)
  moreover have "subjectOfSerial s (storeEntries (wStore x)) = Inr subject"
    using r unfolding inventoryEntriesLocked_def by (auto dest!: backendRead_ok)
  ultimately show ?thesis using that s by simp
qed

text \<open>The live certificate is not the serial, unless the operator insists.\<close>

lemma storedCertSerial_cases:
  assumes "run_state (storedCertSerial subject) w = (r, v)" "map_of (stCerts (wStore w)) subject = Some (PEM c)"
  shows "r = Inr (serialHexStr (certSerialNumber c)) \<or> r = Inl ErrBackend"
proof -
  obtain out u where o: "run_state nextOutcome w = (out, u)" by fastforce
  show ?thesis
    using assms o nextOutcome_same [OF o]
    by (cases out) (auto simp: storedCertSerial_def GetCert_def backendRead_def run_bindE lookupE_def sameState_def)
qed

lemma RevokeSerial_ok:
  assumes run: "run_state (RevokeSerial serial False) w = (Inr (), v)" and k: "keyOk (wCA w)"
  obtains s subject n where "NormaliseSerial serial = Inr s" "set_string16 s = Some n" "onList v n"
    "subjectOfSerial s (storeEntries (wStore w)) = Inr subject"
    "\<And>c. map_of (stCerts (wStore w)) subject = Some (PEM c) \<Longrightarrow> certSerialNumber c \<noteq> n"
proof -
  from run obtain s where s: "NormaliseSerial serial = Inr s"
    and r: "run_state (withCRLLockCounted (withMu (revokeSerialCheckedLocked s False))) w = (Inr (), v)"
    unfolding RevokeSerial_def by (auto elim!: bindE_okE)
  from r show ?thesis
  proof (cases rule: counted_cases)
    case (ran c d)
    from ran(2) obtain x y where xy: "sameState c x" "run_state (revokeSerialCheckedLocked s False) x = (Inr (), y)" "sameState y d"
      by (rule withMu_cases)
    have wx: "sameState w x" and yv: "sameState y v" using sameState_trans ran(1,3) xy(1,3) by blast+
    obtain q p where q: "run_state (SubjectForSerial s) x = (q, p)" by fastforce
    then obtain subject where subj: "q = Inr subject"
      using xy(2) by (cases q) (auto simp: revokeSerialCheckedLocked_def run_bindE run_attempt run_onError split: if_splits)
    obtain live z where z: "run_state (storedCertSerial subject) p = (live, z)" by fastforce
    have go: "run_state (revokeSerialLocked s) z = (Inr (), y)" "live \<noteq> Inr s"
      "\<And>e. live = Inl e \<Longrightarrow> errors_is e ErrNotExist"
      using xy(2) q subj z
      by (auto simp: revokeSerialCheckedLocked_def run_bindE run_attempt split: sum.splits if_splits)
    obtain t where t: "NormaliseSerial s = Inr t" "subjectOfSerial t (storeEntries (wStore x)) = Inr subject"
      using SubjectForSerial_ok q subj by blast
    then have sub: "subjectOfSerial s (storeEntries (wStore w)) = Inr subject"
      using NormaliseSerial_idem [OF s] wx by (simp add: sameState_def)
    have fr: "invFrame x p" "quiet p z"
      using state_io_relD [OF inv_subjectFor q] state_io_relD [OF quiet_storedCertSerial z] .
    then have "keyOk (wCA z)" using k wx by (simp add: keyOk_def sameState_def invFrame_def quiet_def caFrame_def)
    with go(1) obtain n where n: "set_string16 s = Some n" "onList y n" by (rule revokeSerialLocked_ok)
    have "certSerialNumber c \<noteq> n" if "map_of (stCerts (wStore w)) subject = Some (PEM c)" for c
    proof
      assume "certSerialNumber c = n"
      moreover have "s = serialHexStr n" using NormaliseSerial_canonical [OF s] n(1) by (metis option.sel)
      moreover have "map_of (stCerts (wStore p)) subject = Some (PEM c)"
        using that fr(1) wx by (simp add: invFrame_def sameState_def)
      ultimately show False using storedCertSerial_cases [OF z] go(2,3) by (fastforce simp: errors_is_def)
    qed
    then show ?thesis using that [OF s n(1) _ sub] n(2) yv by (simp add: onList_def storedOwn_def sameState_def)
  qed simp
qed

section \<open>Runs without faults\<close>

lemma live_subjectFor:
  assumes "faultless w" "inventoryIntact w" "NormaliseSerial serial = Inr s"
  shows "run_state (SubjectForSerial serial) w = (subjectOfSerial s (storeEntries (wStore w)), w)"
  using assms by (simp add: SubjectForSerial_def inventoryEntriesLocked_def verify_live run_bindE live)

lemma live_recording:
  assumes "faultless w" "stSuperseded (wStore w) = None" "NormaliseSerial serial = Inr s"
  obtains v where "run_state (recordSuperseded subject serial after) w = (Inr (), v)"
proof -
  obtain u where u: "run_state timeNow w = (Inr (clockOf w), u)" "sameState w u" "faultless u = faultless w"
    using live_time [of w] by metis
  then have f: "faultless u" "stSuperseded (wStore u) = None" using assms(1,2) by (simp_all add: sameState_def)
  show ?thesis
    using that u(1) f assms(3)
    by (simp add: recordSuperseded_def readSuperseded_def loadSuperseded_def GetSuperseded_def writeSuperseded_def
        SaveSuperseded_def run_bindE run_attempt live optionE_def parseSuperseded_def)
qed

text \<open>The sample with a replaced certificate: serial 1 is on record, serial 2 is in use.\<close>

definition sampleReplaced :: world where
  "sampleReplaced = (sampleIssued 1 [])\<lparr>wStore := (wStore (sampleIssued 1 []))\<lparr>stCerts := [(''a'', PEM (sampleLeaf 2))]\<rparr>\<rparr>"

lemma sampleReplaced_canSign: "canSignCRL sampleReplaced"
  by (subst canSign_cong [of _ "sampleIssued 1 []"])
    (simp_all add: sampleIssued_canSign, simp_all add: sampleReplaced_def faultless_def)

lemma sampleReplaced_runs:
  assumes "NormaliseSerial serial = Inr (serialHexStr 1)"
  obtains v where "run_state (RevokeSerial serial False) sampleReplaced = (Inr (), v)"
proof -
  let ?u = "enterLock LockMu (enterLock LockCRL sampleReplaced)"
  have f: "faultless sampleReplaced" using sampleReplaced_canSign by (simp add: canSignCRL_def)
  have p: "hmacKey (wCA sampleReplaced) = None" "storeEntries (wStore sampleReplaced) = [demoEntry 1 ''a'']"
    "map_of (stCerts (wStore sampleReplaced)) ''a'' = Some (PEM (sampleLeaf 2))"
    using sampleIssued_parts(1,3) [of 1 "[]"] by (simp_all add: sampleReplaced_def storeEntries_def)
  have "canSignCRL ?u" using canSign_same [of sampleReplaced ?u] sampleReplaced_canSign f by (simp add: sameState_def)
  then obtain v where "run_state (revokeSerialLocked (serialHexStr 1)) ?u = (Inr (), v)"
    using live_revokeSerial [of ?u "serialHexStr 1" 1] by auto
  then have "run_state (revokeSerialCheckedLocked (serialHexStr 1) False) ?u = (Inr (), v)"
    using f p live_subjectFor [of ?u "serialHexStr 1" "serialHexStr 1"]
    by (simp add: inventoryIntact_def revokeSerialCheckedLocked_def run_bindE run_attempt demoEntry_def storedCertSerial_def GetCert_def live
        lookupE_def)
  then show ?thesis
    using that assms f by (simp add: RevokeSerial_def withCRLLockCounted_def run_bindE run_attempt run_onError live)
qed

section \<open>Properties\<close>

text \<open>
  C16. A revocation that reports success has happened.  The certificate the inventory lists
  last for the subject is on the stored list; everything that was on the list still is; and
  no certificate waiting to be retired was forgotten: it still waits, or is on the list, or
  its serial is unreadable.
\<close>

theorem revoked_subject_is_listed:
  assumes "run_state (Revoke subject) w = (Inr (), v)" "keyOk (wCA w)"
  shows "(\<exists>s n. latestSerial (storeEntries (wStore w)) subject = Inr s \<and> set_string16 s = Some n \<and> onList v n)
    \<and> (\<forall>n. onList w n \<longrightarrow> onList v n)
    \<and> (\<forall>e \<in> set (pending w). e \<in> set (pending v) \<or> entryRevoked v e \<or> malformed e)"
proof -
  have o: "owes w v" by (rule state_io_relD [OF owes_Revoke assms(1)])
  have "\<forall>n. onList w n \<longrightarrow> onList v n" using o onList_mono assms(2) unfolding owes_def by blast
  moreover have "\<forall>e \<in> set (pending w). e \<in> set (pending v) \<or> entryRevoked v e \<or> malformed e"
    using o assms(2) by (simp add: owes_def accounted_def)
  ultimately show ?thesis using Revoke_ok [OF assms] by metis
qed

theorem revoked_subject_is_listed_witness:
  "\<exists>v. run_state (Revoke ''a'') (sampleIssued 1 []) = (Inr (), v) \<and> \<not> onList (sampleIssued 1 []) 1 \<and> onList v 1"
proof -
  obtain v where r: "run_state (Revoke ''a'') (sampleIssued 1 []) = (Inr (), v)"
    by (rule sampleIssued_runs [of 1 "[]"]) auto
  have "storedOwn (sampleIssued 1 []) = storedOwn (sampleWith 1 [])"
    by (simp add: storedOwn_def sampleIssued_parts(4,5)) (simp add: sampleWith_def)
  then have "\<not> onList (sampleIssued 1 []) 1" by (simp add: onList_def sampleWith_own)
  with revoked_subject_is_listed [OF r] sampleWith_ok(1) r show ?thesis by (auto simp: sampleIssued_parts)
qed

text \<open>
  C15. A revocation goes through.  If the backend answers, the stored list is readable and
  the CA can sign lists (its key, a list validity that is not negative, no chain file, a
  list number with room for one more list per certificate waiting to be retired), the
  stored integrity value covers the inventory in case an integrity key is configured, and
  the inventory has a certificate for the subject, then revoking the subject succeeds and
  the certificate is on the list.
\<close>

theorem revocation_goes_through:
  assumes "canSignMore (length (pending w)) w" "inventoryIntact w" "ValidateSubject subject = Inr ()"
    and "latestSerial (storeEntries (wStore w)) subject = Inr s" "set_string16 s = Some n"
  shows "\<exists>v. run_state (Revoke subject) w = (Inr (), v) \<and> onList v n"
proof -
  obtain v where v: "run_state (Revoke subject) w = (Inr (), v)" by (rule live_Revoke [OF assms])
  have "keyOk (wCA w)" using assms(1) canSign_keyOk by (simp add: canSignMore_def)
  with v obtain s' n' where
    "latestSerial (storeEntries (wStore w)) subject = Inr s'" "set_string16 s' = Some n'" "onList v n'"
    by (rule Revoke_ok)
  then show ?thesis using v assms(4,5) by simp
qed

text \<open>The example has an integrity key, and a certificate of the subject that waits.\<close>

definition sampleOwing :: world where
  "sampleOwing = (let w = sampleIssued 4 [9] in
     w\<lparr>wCA := (wCA w)\<lparr>hmacKey := Some ''k''\<rparr>,
       wStore := (wStore w)\<lparr>stInventoryHMAC := Some (computedHead (hmacSHA256 (wConfig w)) ''k'' (wStore w)),
         stSuperseded := Some \<lparr>sbEntries = [\<lparr>seSerial = ''7'', seSubject = ''a'', seRevokeAt = 0\<rparr>], sbCorrupt = False\<rparr>\<rparr>\<rparr>)"

lemma sampleOwing_parts:
  "length (pending sampleOwing) = 1" "inventoryIntact sampleOwing" "storeEntries (wStore sampleOwing) = [demoEntry 1 ''a'']"
  "canSignMore 1 sampleOwing"
proof -
  show "length (pending sampleOwing) = 1" "inventoryIntact sampleOwing" "storeEntries (wStore sampleOwing) = [demoEntry 1 ''a'']"
    using sampleIssued_parts(1) [of 4 "[9]"]
    by (simp_all add: sampleOwing_def Let_def pending_def inventoryIntact_def computedHead_def storeEntries_def storeBlob_def isChained_def)
  have f: "faultless sampleOwing" "faultless (sampleIssued 4 [9])"
    using sampleIssued_canSign [of 4 "[9]"] by (simp_all add: sampleOwing_def Let_def canSignCRL_def faultless_def)
  have p: "CACert (wCA sampleOwing) = CACert (wCA (sampleIssued 4 [9]))" "CAKey (wCA sampleOwing) = CAKey (wCA (sampleIssued 4 [9]))"
    "wConfig sampleOwing = wConfig (sampleIssued 4 [9])" "stCRL (wStore sampleOwing) = stCRL (wStore (sampleIssued 4 [9]))"
    by (simp_all add: sampleOwing_def Let_def)
  show "canSignMore 1 sampleOwing"
    using sampleIssued_more [of 4 1 "[9]"] canSign_cong [of sampleOwing "sampleIssued 4 [9]"] f p
    by (simp add: canSignMore_def storedOwn_def)
qed

theorem revocation_goes_through_witness:
  "hmacKey (wCA sampleOwing) = Some ''k'' \<and> (\<exists>v. run_state (Revoke ''a'') sampleOwing = (Inr (), v) \<and> onList v 1)"
proof
  show "hmacKey (wCA sampleOwing) = Some ''k''" by (simp add: sampleOwing_def Let_def)
  show "\<exists>v. run_state (Revoke ''a'') sampleOwing = (Inr (), v) \<and> onList v 1"
    by (rule revocation_goes_through [OF _ _ sample_subject, where s = "serialHexStr 1"])
      (simp_all add: sampleOwing_parts(2,3) sampleOwing_parts(1,4) [simplified] sampleIssued_parts(6,7))
qed

text \<open>
  A replica that treats a serial as revoked: it reports it so, renews no certificate with
  it, and does not answer good for it.
\<close>

definition rejects :: "int \<Rightarrow> world \<Rightarrow> bool" where
  "rejects n b = (fst (run_state (IsRevokedSerial n) b) = Inr True
    \<and> (\<forall>p name q. certSerialNumber p = n \<longrightarrow> (\<exists>e. fst (run_state (Renew name q (Some p)) b) = Inl e)
         \<and> (\<exists>e. fst (run_state (AutoRenew (Some p)) b) = Inl e))
    \<and> (\<forall>dep der req a u. odParsed der = Inr req \<and> reqSerialNumber req = n
         \<and> run_state (AnswerOCSP dep der) b = (Inr a, u) \<longrightarrow> orStatus (oaResponse a) \<noteq> OCSPGood))"

lemma synced_rejects:
  assumes "onList v n" "wStore b = wStore v" "CACert (wCA b) = CACert (wCA v)" "keyOk (wCA b)" "cacheOk D b" "n \<notin> D"
    and "ocspOk (wCA b)" "ocspWf (wCA b)" "run_state SyncCRLCache b = (Inr x, b')"
  shows "rejects n b'"
proof -
  from assms(1-5,9) obtain l where l: "cachedCRL (wCA b') = Some l" "n \<in> revokedSerials l" "keyOk (wCA b')"
    "cacheOk D b'" "ocspOk (wCA b) \<longrightarrow> ocspOk (wCA b')" "ocspWf (wCA b) \<longrightarrow> ocspWf (wCA b')"
    by (rule synced_replica)
  have "\<not> cleared b' p u" if "certSerialNumber p = n" for p u
    using never_clears [OF l(3,4,1)] l(2) that assms(6) by simp
  moreover have "orStatus (oaResponse a) \<noteq> OCSPGood" if "odParsed der = Inr req" "reqSerialNumber req = n"
    "run_state (AnswerOCSP dep der) b' = (Inr a, u)" for dep der req a u
    using answer_not_good [OF that(3,1) _ _ l(1)] that(2) l(2,5,6) assms(7,8) by simp
  ultimately show ?thesis unfolding rejects_def using isRevoked_cached [OF l(1,2)] refused_renewals by blast
qed

text \<open>
  C18. Revoking by serial spares the certificate in use.  If it succeeds without force, the
  serial, in whatever spelling it was given, is one the inventory lists, it is on the
  stored list afterwards, and it is not the serial of the certificate stored for its
  subject.
\<close>

theorem revoke_serial_spares_current:
  assumes "run_state (RevokeSerial serial False) w = (Inr (), v)" "keyOk (wCA w)"
  shows "\<exists>s subject n. NormaliseSerial serial = Inr s \<and> set_string16 s = Some n \<and> onList v n
    \<and> subjectOfSerial s (storeEntries (wStore w)) = Inr subject
    \<and> (\<forall>c. map_of (stCerts (wStore w)) subject = Some (PEM c) \<longrightarrow> certSerialNumber c \<noteq> n)"
  using RevokeSerial_ok [OF assms] by metis

theorem revoke_serial_spares_current_witness:
  "\<exists>v. run_state (RevokeSerial ''0x01'' False) sampleReplaced = (Inr (), v) \<and> onList v 1"
proof -
  have s: "NormaliseSerial ''0x01'' = Inr (serialHexStr 1)" by code_simp
  obtain v where r: "run_state (RevokeSerial ''0x01'' False) sampleReplaced = (Inr (), v)" by (rule sampleReplaced_runs [OF s])
  from revoke_serial_spares_current [OF r canSign_keyOk [OF sampleReplaced_canSign]] r s show ?thesis by auto
qed

text \<open>
  C17. A certificate that a renewal replaced is spent everywhere.  Once it has been recorded
  for retirement, in whatever spelling its serial was given, no replica sharing the store
  renews it again by either path, whether or not the revocation itself is due.
\<close>

theorem superseded_certificate_is_spent:
  assumes "run_state (recordSuperseded subject serial after) w = (Inr (), v)" "wStore b = wStore v"
    and "NormaliseSerial serial = Inr (serialHexStr (certSerialNumber p))"
  shows "(\<exists>e. fst (run_state (Renew name q (Some p)) b) = Inl e) \<and> (\<exists>e. fst (run_state (AutoRenew (Some p)) b) = Inl e)"
proof (rule refused_renewals)
  from assms(1) obtain s t where "NormaliseSerial serial = Inr s"
    "\<lparr>seSerial = s, seSubject = subject, seRevokeAt = t\<rparr> \<in> set (pending v)" by (rule record_ok)
  then have "\<lparr>seSerial = serialHexStr (certSerialNumber p), seSubject = subject, seRevokeAt = t\<rparr> \<in> set (pending b)"
    using assms(2,3) by (simp add: pending_def)
  then have "\<not> notWaiting b p" using NormaliseSerial_idem [OF assms(3)] by (force simp: notWaiting_def)
  then show "\<not> cleared b p u" for u by (simp add: cleared_def)
qed

theorem superseded_certificate_is_spent_witness:
  "\<exists>v. run_state (recordSuperseded ''a'' ''07'' hour) (sampleWith 1 []) = (Inr (), v)
     \<and> (\<exists>e. fst (run_state (Renew ''a'' (PEM sampleCSR) (Some (sampleLeaf 7))) v) = Inl e)"
proof -
  have s: "NormaliseSerial ''07'' = Inr (serialHexStr 7)" by code_simp
  obtain v where r: "run_state (recordSuperseded ''a'' ''07'' hour) (sampleWith 1 []) = (Inr (), v)"
    by (rule live_recording [OF sampleWith_ok(3) _ s]) (simp_all add: sampleWith_def sampleStore_def)
  from superseded_certificate_is_spent [OF r refl, of "sampleLeaf 7"] r s show ?thesis by auto
qed

end
