(* ===== verification/Access.thy ===== *)
theory Access
  imports ClientCrl Revocation "HOL-Library.Sublist"
begin

text \<open>
  Who may call what (internal/api/auth.go, trustdomain.go and principal.go): the trust domains of
  client certificates, the tier of a route, and the middleware that decides on a request.
  Certificate.Verify of crypto/x509 is modelled with its search for chains, its order of
  candidates and its limit on signature checks.  The constraints an issuer can put on the
  chains below it (path length, names, policies) and unknown critical extensions are not part of
  \<^typ>\<open>Certificate\<close>; what they say about a chain is the argument of type \<open>x509Checks\<close>.
\<close>

section \<open>Verification of a chain\<close>

record x509Checks =
  ckConstraints :: "Certificate list \<Rightarrow> bool" \<comment> \<open>the last one accepts the chain below it\<close>
  ckPolicies :: "Certificate list \<Rightarrow> bool"

definition certAuthorityKeyId :: "Certificate \<Rightarrow> KeyId option" where
  "certAuthorityKeyId c =
     (case extValueOf oidAuthorityKeyId (certExtensions c) of Some (DerKeyId k) \<Rightarrow> Some k | _ \<Rightarrow> None)"

definition certExtKeyUsage :: "Certificate \<Rightarrow> ExtKeyUsage list" where
  "certExtKeyUsage c =
     (case extValueOf oidExtKeyUsage (certExtensions c) of Some (DerExtKeyUsage u) \<Rightarrow> u | _ \<Rightarrow> [])"

definition AddCert :: "Certificate \<Rightarrow> Certificate list \<Rightarrow> Certificate list" where
  "AddCert c pool = (if c \<in> set pool then pool else pool @ [c])"

definition findPotentialParents :: "Certificate list \<Rightarrow> Certificate \<Rightarrow> Certificate list" where
  "findPotentialParents pool cert =
     (let named = filter (\<lambda>p. certSubject p = certIssuer cert) pool;
          matching = (\<lambda>p. certSubjectKeyId p = certAuthorityKeyId cert);
          one = (\<lambda>p. (certSubjectKeyId p = None) \<noteq> (certAuthorityKeyId cert = None))
      in filter matching named @ filter (\<lambda>p. \<not> matching p \<and> one p) named
         @ filter (\<lambda>p. \<not> matching p \<and> \<not> one p) named)"

fun alreadyInChain :: "Certificate \<Rightarrow> Certificate list \<Rightarrow> bool" where
  "alreadyInChain candidate [] = False"
| "alreadyInChain candidate (cert # chain) =
     (if certSubject candidate \<noteq> certSubject cert \<or> certPublicKey candidate \<noteq> certPublicKey cert
      then alreadyInChain candidate chain
      else case (extValueOf oidSubjectAltName (certExtensions candidate), extValueOf oidSubjectAltName (certExtensions cert)) of
             (None, None) \<Rightarrow> True
           | (Some a, Some b) \<Rightarrow> if a = b then True else alreadyInChain candidate chain
           | _ \<Rightarrow> False)"

datatype certType = leafCertificate | intermediateCertificate | rootCertificate

definition isValid :: "x509Checks \<Rightarrow> gotime \<Rightarrow> certType \<Rightarrow> Certificate list \<Rightarrow> Certificate \<Rightarrow> bool" where
  "isValid checks now kind chain c =
     ((chain \<noteq> [] \<longrightarrow> certIssuer (last chain) = certSubject c)
      \<and> certNotBefore c \<le> now \<and> now \<le> certNotAfter c
      \<and> ckConstraints checks (chain @ [c])
      \<and> (kind = intermediateCertificate \<longrightarrow> certBasicConstraints c = Some True))"

type_synonym agenda = "(Certificate list \<times> certType \<times> Certificate) list"

definition candidates :: "Certificate list \<Rightarrow> Certificate list \<Rightarrow> Certificate list \<Rightarrow> agenda" where
  "candidates roots intermediates chain =
     map (\<lambda>p. (chain, rootCertificate, p)) (findPotentialParents roots (last chain))
     @ map (\<lambda>p. (chain, intermediateCertificate, p)) (findPotentialParents intermediates (last chain))"

text \<open>
  buildChains: depth first, the roots before the intermediates, with the number of
  signature checks that are left.
\<close>

fun buildChains :: "x509Checks \<Rightarrow> gotime \<Rightarrow> Certificate list \<Rightarrow> Certificate list \<Rightarrow> nat \<Rightarrow> agenda \<Rightarrow> Certificate list list" where
  "buildChains checks now roots intermediates n [] = []"
| "buildChains checks now roots intermediates n ((chain, kind, candidate) # rest) =
     (if alreadyInChain candidate chain then buildChains checks now roots intermediates n rest
      else case n of
        0 \<Rightarrow> []
      | Suc m \<Rightarrow>
          if \<not> certSignedBy candidate (last chain) \<or> \<not> isValid checks now kind chain candidate
          then buildChains checks now roots intermediates m rest
          else if kind = rootCertificate
          then (chain @ [candidate]) # buildChains checks now roots intermediates m rest
          else buildChains checks now roots intermediates m
                 (candidates roots intermediates (chain @ [candidate]) @ rest))"

definition maxChainSignatureChecks :: nat where "maxChainSignatureChecks = 100"

text \<open>checkChainForKeyUsage with the client usage.\<close>

definition clientUsage :: "Certificate list \<Rightarrow> bool" where
  "clientUsage chain = list_all (\<lambda>c. certExtKeyUsage c = [] \<or> EKUOther [2, 5, 29, 37, 0] \<in> set (certExtKeyUsage c)
      \<or> EKUClientAuth \<in> set (certExtKeyUsage c)) chain"

definition Verify :: "x509Checks \<Rightarrow> gotime \<Rightarrow> Certificate list \<Rightarrow> Certificate list \<Rightarrow> Certificate \<Rightarrow> Certificate list list" where
  "Verify checks now roots intermediates cert =
     (if \<not> isValid checks now leafCertificate [] cert then []
      else filter (\<lambda>chain. clientUsage chain \<and> ckPolicies checks chain)
        (if cert \<in> set roots then [[cert]]
         else buildChains checks now roots intermediates maxChainSignatureChecks (candidates roots intermediates [cert])))"

section \<open>Trust domains\<close>

record TrustDomain =
  tdName :: string
  tdRoots :: "Certificate list"
  tdAdmins :: "string list"
  tdOwn :: bool
  tdPpCliAuth :: bool
  tdAnchors :: "Certificate list"
  tdCRLs :: "ClientCRLSet option"

definition OwnTrustDomain :: "Certificate option \<Rightarrow> string list \<Rightarrow> bool \<Rightarrow> TrustDomain" where
  "OwnTrustDomain caCert adminCNs ppCliAuth =
     \<lparr>tdName = [], tdRoots = (case caCert of None \<Rightarrow> [] | Some c \<Rightarrow> [c]), tdAdmins = adminCNs, tdOwn = True,
      tdPpCliAuth = ppCliAuth, tdAnchors = [], tdCRLs = None\<rparr>"

definition NewForeignTrustDomain :: "string \<Rightarrow> Certificate list \<Rightarrow> Certificate list \<Rightarrow> string list \<Rightarrow> bool \<Rightarrow> TrustDomain" where
  "NewForeignTrustDomain name roots anchors adminCNs ppCliAuth =
     \<lparr>tdName = name, tdRoots = roots, tdAdmins = adminCNs, tdOwn = False,
      tdPpCliAuth = ppCliAuth, tdAnchors = anchors, tdCRLs = None\<rparr>"

definition IsAdminCN :: "TrustDomain \<Rightarrow> string \<Rightarrow> bool" where
  "IsAdminCN d cn = (cn \<in> set (tdAdmins d))"

text \<open>Each domain is tried with a clock reading of its own.\<close>

fun attribute :: "x509Checks \<Rightarrow> TrustDomain list \<Rightarrow> Certificate \<Rightarrow> Certificate list \<Rightarrow> (TrustDomain \<times> Certificate list) option opr" where
  "attribute checks [] cert presented = ok None"
| "attribute checks (d # domains) cert presented =
     bindE timeNow (\<lambda>now.
     case Verify checks now (tdRoots d) (fold AddCert presented []) cert of
       [] \<Rightarrow> attribute checks domains cert presented
     | chain # _ \<Rightarrow> ok (Some (d, chain)))"

definition hasPpCliAuth :: "Certificate \<Rightarrow> bool" where
  "hasPpCliAuth cert = (extValueOf OIDPpCliAuth (certExtensions cert) = Some (DerString ''true''))"

definition isAdmin :: "TrustDomain \<Rightarrow> Certificate \<Rightarrow> string \<Rightarrow> bool" where
  "isAdmin d clientCert clientCN = (IsAdminCN d clientCN \<or> (tdPpCliAuth d \<and> hasPpCliAuth clientCert))"

section \<open>Tiers\<close>

datatype authTier = tierPublic | tierOwnClient | tierSelfOrAdmin | tierAdminOnly

definition TrimPrefix :: "string \<Rightarrow> string \<Rightarrow> string" where
  "TrimPrefix s p = (if prefix p s then drop (length p) s else s)"

definition lookupTier :: "string \<Rightarrow> string \<Rightarrow> bool \<Rightarrow> authTier" where
  "lookupTier method path allowPublicStatus =
     (let p = TrimPrefix path ''/puppet-ca/v1'' in
      if method = ''GET'' \<and> prefix ''/healthz/'' p then tierPublic
      else if method = ''GET'' \<and> prefix ''/certificate/'' p then tierPublic
      else if method = ''GET'' \<and> prefix ''/certificate_revocation_list/'' p then tierPublic
      else if method = ''PUT'' \<and> prefix ''/certificate_request/'' p then tierPublic
      else if prefix ''/ocsp'' p then tierPublic
      else if method = ''GET'' \<and> prefix ''/certificate_status/'' p
      then (if allowPublicStatus then tierPublic else tierAdminOnly)
      else if method = ''GET'' \<and> p = ''/expirations'' then tierPublic
      else if method = ''GET'' \<and> prefix ''/certificate_request/'' p then tierSelfOrAdmin
      else if method = ''POST'' \<and> p = ''/certificate_renewal'' then tierOwnClient
      else tierAdminOnly)"

definition extractPathSubject :: "string \<Rightarrow> string" where
  "extractPathSubject path0 =
     (let path = TrimPrefix path0 ''/puppet-ca/v1'' in
      case find (\<lambda>p. prefix p path) [''/certificate/'', ''/certificate_status/'', ''/certificate_request/''] of
        Some p \<Rightarrow> TrimPrefix path p
      | None \<Rightarrow> [])"

section \<open>The middleware\<close>

record AuthConfig =
  acDomains :: "TrustDomain list"
  acAllowPublicStatus :: bool
  acClientRevocationPolicy :: string

definition revocationPolicy :: "AuthConfig \<Rightarrow> string" where
  "revocationPolicy cfg = (if acClientRevocationPolicy cfg = [] then RevocationRequire else acClientRevocationPolicy cfg)"

record clientPrincipal =
  prCN :: string
  prDomain :: "TrustDomain option"

datatype verdict = Admitted "clientPrincipal option" | Denied

definition clearOfRevocation :: "AuthConfig \<Rightarrow> TrustDomain \<Rightarrow> Certificate \<Rightarrow> Certificate list \<Rightarrow> bool opr" where
  "clearOfRevocation cfg d clientCert chain =
     (if tdOwn d
      then bindE (attempt (IsRevokedSerial (certSerialNumber clientCert))) (\<lambda>r. ok (r = Inr False))
      else bindE timeNow (\<lambda>now. ok (checkChainRevocation chain (tdCRLs d) (revocationPolicy cfg) now = Inr ())))"

definition permits :: "authTier \<Rightarrow> TrustDomain \<Rightarrow> Certificate \<Rightarrow> string \<Rightarrow> bool" where
  "permits tier d clientCert path =
     (let clientCN = nmCommonName (certSubject clientCert) in
      case tier of
        tierPublic \<Rightarrow> False
      | tierOwnClient \<Rightarrow> tdOwn d
      | tierSelfOrAdmin \<Rightarrow>
          let subject = extractPathSubject path in
          isAdmin d clientCert clientCN \<or> (tdOwn d \<and> subject \<noteq> [] \<and> clientCN = subject)
      | tierAdminOnly \<Rightarrow> isAdmin d clientCert clientCN)"

text \<open>The peer certificates are none without TLS.\<close>

definition newAuthMiddleware ::
    "x509Checks \<Rightarrow> AuthConfig option \<Rightarrow> string \<Rightarrow> string \<Rightarrow> Certificate list \<Rightarrow> verdict opr" where
  "newAuthMiddleware checks cfg0 method path peers =
     (case cfg0 of
        None \<Rightarrow> ok (Admitted None)
      | Some cfg \<Rightarrow>
          let tier = lookupTier method path (acAllowPublicStatus cfg) in
          if tier = tierPublic then ok (Admitted None)
          else case peers of
            [] \<Rightarrow> ok Denied
          | clientCert # presented \<Rightarrow>
              bindE (attribute checks (acDomains cfg) clientCert presented) (\<lambda>verified.
              case verified of
                None \<Rightarrow> ok Denied
              | Some (d, chain) \<Rightarrow>
                  bindE (clearOfRevocation cfg d clientCert chain) (\<lambda>clear.
                  ok (if clear \<and> permits tier d clientCert path
                      then Admitted (Some \<lparr>prCN = nmCommonName (certSubject clientCert), prDomain = Some d\<rparr>)
                      else Denied))))"

section \<open>What a verified chain is\<close>

definition linked :: "Certificate list \<Rightarrow> bool" where
  "linked chain = successively (\<lambda>c p. certSignedBy p c \<and> certIssuer c = certSubject p) chain"

definition inForce :: "gotime \<Rightarrow> Certificate list \<Rightarrow> bool" where
  "inForce now chain = list_all (\<lambda>c. certNotBefore c \<le> now \<and> now \<le> certNotAfter c) chain"

definition genuine :: "gotime \<Rightarrow> Certificate \<Rightarrow> Certificate list \<Rightarrow> bool" where
  "genuine now cert chain = (chain \<noteq> [] \<and> hd chain = cert \<and> linked chain \<and> inForce now chain)"

lemma potential_sub: "set (findPotentialParents pool c) \<subseteq> set pool"
  by (auto simp: findPotentialParents_def Let_def)

lemma genuine_snoc:
  assumes "genuine now cert chain" "certSignedBy p (last chain)" "isValid checks now kind chain p"
  shows "genuine now cert (chain @ [p])"
  using assms by (auto simp: genuine_def linked_def inForce_def isValid_def successively_append_iff)

lemma buildChains_genuine:
  assumes "\<forall>(chain, kind, cand) \<in> set agenda. genuine now cert chain \<and> (kind = rootCertificate \<longrightarrow> cand \<in> set roots)"
    and "chain \<in> set (buildChains checks now roots intermediates n agenda)"
  shows "genuine now cert chain \<and> last chain \<in> set roots"
  using assms
proof (induction checks now roots intermediates n agenda rule: buildChains.induct)
  case (2 checks now roots intermediates n ch kind cand rest)
  have ag: "genuine now cert ch" "kind = rootCertificate \<longrightarrow> cand \<in> set roots"
    "\<forall>(chain, kind, cand) \<in> set rest. genuine now cert chain \<and> (kind = rootCertificate \<longrightarrow> cand \<in> set roots)"
    using "2.prems"(1) by auto
  show ?case
  proof (cases "alreadyInChain cand ch")
    case True
    then show ?thesis using "2.IH"(1) ag(3) "2.prems"(2) by simp
  next
    case new: False
    then obtain m where n: "n = Suc m" using "2.prems"(2) by (cases n) simp_all
    show ?thesis
    proof (cases "\<not> certSignedBy cand (last ch) \<or> \<not> isValid checks now kind ch cand")
      case True
      then show ?thesis using "2.IH"(2) [OF new n True] ag(3) "2.prems"(2) new n by simp
    next
      case ok: False
      then have g: "genuine now cert (ch @ [cand])" using genuine_snoc ag(1) by blast
      show ?thesis
      proof (cases "kind = rootCertificate")
        case True
        then show ?thesis using "2.IH"(3) [OF new n ok True] ag "2.prems"(2) new n ok g by auto
      next
        case False
        have "\<forall>(chain, kind, cand) \<in> set (candidates roots intermediates (ch @ [cand]) @ rest).
            genuine now cert chain \<and> (kind = rootCertificate \<longrightarrow> cand \<in> set roots)"
          using ag(3) g potential_sub by (fastforce simp: candidates_def)
        then show ?thesis using "2.IH"(4) [OF new n ok False] "2.prems"(2) new n ok False by simp
      qed
    qed
  qed
qed simp

lemma Verify_genuine:
  assumes "chain \<in> set (Verify checks now roots intermediates cert)"
  shows "genuine now cert chain \<and> last chain \<in> set roots"
proof -
  have v: "isValid checks now leafCertificate [] cert" using assms by (auto simp: Verify_def split: if_splits)
  have one: "genuine now cert [cert]" using v by (simp add: genuine_def linked_def inForce_def isValid_def)
  have "\<forall>(chain, kind, cand) \<in> set (candidates roots intermediates [cert]).
      genuine now cert chain \<and> (kind = rootCertificate \<longrightarrow> cand \<in> set roots)"
    using one potential_sub by (fastforce simp: candidates_def)
  then show ?thesis
    using assms one buildChains_genuine by (fastforce simp: Verify_def split: if_splits)
qed

text \<open>A reading of the clock taken between two states of a run.\<close>

definition readBetween :: "world \<Rightarrow> gotime \<Rightarrow> world \<Rightarrow> bool" where
  "readBetween w now v = (eNow (wEnv w) \<le> now \<and> now \<le> eNow (wEnv v))"

lemma time_read:
  assumes "run_state timeNow w = (Inr now, u)"
  shows "readBetween w now u" "eNow (wEnv w) \<le> eNow (wEnv u)"
  using assms by (auto simp: timeNow_def readBetween_def split: list.splits)

lemma readBetween_wider:
  assumes "readBetween u now v" "eNow (wEnv w) \<le> eNow (wEnv u)" "eNow (wEnv v) \<le> eNow (wEnv x)"
  shows "readBetween w now x"
  using assms by (simp add: readBetween_def)

lemma attribute_ok:
  assumes "run_state (attribute checks domains cert presented) w = (Inr (Some (d, chain)), v)"
  shows "d \<in> set domains \<and> (\<exists>now. readBetween w now v \<and> genuine now cert chain) \<and> last chain \<in> set (tdRoots d) \<and> sameState w v
    \<and> eNow (wEnv w) \<le> eNow (wEnv v)"
  using assms
proof (induction domains arbitrary: w)
  case (Cons e domains)
  obtain now u where t: "run_state timeNow w = (Inr now, u)" "sameState w u" by (metis live_time)
  note c = time_read [OF t(1)]
  show ?case
  proof (cases "Verify checks now (tdRoots e) (fold AddCert presented []) cert")
    case Nil
    then have "run_state (attribute checks domains cert presented) u = (Inr (Some (d, chain)), v)"
      using Cons.prems t by (simp add: run_bindE)
    note v = Cons.IH [OF this]
    then obtain at where "readBetween u at v" "genuine at cert chain" by blast
    then have "\<exists>now. readBetween w now v \<and> genuine now cert chain" using readBetween_wider c(2) by blast
    moreover have "sameState w v" using v t(2) by (auto simp: sameState_def)
    moreover have "eNow (wEnv w) \<le> eNow (wEnv v)" using v c(2) by linarith
    ultimately show ?thesis using v by simp
  next
    case (Cons x xs)
    then have "x \<in> set (Verify checks now (tdRoots e) (fold AddCert presented []) cert)" by simp
    from Verify_genuine [OF this] show ?thesis using Cons.prems Cons t c by (auto simp: run_bindE)
  qed
qed simp

lemma clear_ok:
  assumes "run_state (clearOfRevocation cfg d cert chain) w = (Inr True, v)"
  shows "sameState w v \<and> eNow (wEnv w) \<le> eNow (wEnv v)
    \<and> (if tdOwn d then \<exists>l. cachedCRL (wCA w) = Some l \<and> certSerialNumber cert \<notin> revokedSerials l
       else \<exists>now. readBetween w now v \<and> checkChainRevocation chain (tdCRLs d) (revocationPolicy cfg) now = Inr ())"
proof (cases "tdOwn d")
  case True
  then show ?thesis using assms
    by (auto simp: clearOfRevocation_def IsRevokedSerial_def run_bindE run_attempt live_mu serialInCRL_def revokedSerials_def list_ex_iff
        sameState_def enterLock_def leaveLock_def split: option.splits)
next
  case False
  obtain now u where t: "run_state timeNow w = (Inr now, u)" "sameState w u" by (metis live_time)
  then show ?thesis using assms False time_read [OF t(1)] by (auto simp: clearOfRevocation_def run_bindE)
qed

text \<open>
  The first peer certificate heads a chain in which each certificate is signed by the next
  and whose last one is an anchor of the domain; every certificate of the chain is in force
  at a reading of the clock taken between the two states; and the revocation check of the
  domain passed: our own list does not name the serial, or the check of the foreign chain
  found nothing against it, again at a reading taken between the two states.
\<close>

definition vouchedFor :: "AuthConfig \<Rightarrow> world \<Rightarrow> world \<Rightarrow> Certificate list \<Rightarrow> Certificate \<Rightarrow> TrustDomain \<Rightarrow> bool" where
  "vouchedFor cfg w v peers cert d = (\<exists>presented chain now. peers = cert # presented \<and> d \<in> set (acDomains cfg)
     \<and> hd chain = cert \<and> linked chain \<and> last chain \<in> set (tdRoots d) \<and> readBetween w now v \<and> inForce now chain
     \<and> (if tdOwn d then \<exists>l. cachedCRL (wCA w) = Some l \<and> certSerialNumber cert \<notin> revokedSerials l
        else \<exists>now'. readBetween w now' v \<and> checkChainRevocation chain (tdCRLs d) (revocationPolicy cfg) now' = Inr ()))"

lemma middleware_admits:
  assumes "run_state (newAuthMiddleware checks (Some cfg) method path peers) w = (Inr (Admitted p), v)"
    and "lookupTier method path (acAllowPublicStatus cfg) = tier" "tier \<noteq> tierPublic"
  shows "sameState w v \<and> (\<exists>cert d. vouchedFor cfg w v peers cert d
     \<and> p = Some \<lparr>prCN = nmCommonName (certSubject cert), prDomain = Some d\<rparr>
     \<and> (tier = tierAdminOnly \<longrightarrow> isAdmin d cert (nmCommonName (certSubject cert)))
     \<and> (tier = tierOwnClient \<longrightarrow> tdOwn d)
     \<and> (tier = tierSelfOrAdmin \<longrightarrow> isAdmin d cert (nmCommonName (certSubject cert))
          \<or> tdOwn d \<and> nmCommonName (certSubject cert) = extractPathSubject path))"
proof -
  obtain cert presented where peers: "peers = cert # presented"
    using assms by (cases peers) (simp_all add: newAuthMiddleware_def)
  with assms obtain at u where at: "run_state (attribute checks (acDomains cfg) cert presented) w = (Inr at, u)"
    and r: "run_state (case at of None \<Rightarrow> ok Denied | Some (d, chain) \<Rightarrow>
        bindE (clearOfRevocation cfg d cert chain) (\<lambda>clear. ok (if clear \<and> permits tier d cert path
          then Admitted (Some \<lparr>prCN = nmCommonName (certSubject cert), prDomain = Some d\<rparr>) else Denied))) u = (Inr (Admitted p), v)"
    by (auto simp: newAuthMiddleware_def elim: bindE_okE)
  then obtain d chain where d: "at = Some (d, chain)" by (cases at) auto
  with r obtain x where x: "run_state (clearOfRevocation cfg d cert chain) u = (Inr True, v)" "permits tier d cert path"
    "p = Some \<lparr>prCN = nmCommonName (certSubject cert), prDomain = Some d\<rparr>"
    by (auto elim!: bindE_okE split: if_splits)
  note a = attribute_ok [OF at [unfolded d]] and c = clear_ok [OF x(1)]
  have s: "sameState w v" "wCA u = wCA w" using a c by (auto simp: sameState_def)
  have "readBetween w t v" if "readBetween w t u \<or> readBetween u t v" for t
    using that a c readBetween_wider by blast
  then have "vouchedFor cfg w v peers cert d"
    using a c s(2) peers by (fastforce simp: vouchedFor_def genuine_def)
  then show ?thesis using s(1) x(2,3) assms(3)
    by (cases tier) (auto simp: permits_def Let_def)
qed

text \<open>
  C11. An admitted client is vouched for.  If the middleware admits a request on a route
  that is not public, the first peer certificate heads a chain in which each certificate
  is signed by the next and whose last one is an anchor of one configured domain, and every
  certificate of the chain is in force at a reading of the clock taken while the middleware
  decided.  If the domain is this CA's own, the serial is not on the list this replica
  holds; if it is a foreign one, the chain passed the revocation check of that domain, at
  another such reading.  On an admin route the certificate is an administrator of that
  domain; on the renewal route the domain is our own; on a self route the domain is our own
  and the name is the subject of the path, or it is an administrator.  Deciding changes
  nothing.
\<close>

theorem admitted_client_is_vouched:
  assumes "run_state (newAuthMiddleware checks (Some cfg) method path peers) w = (Inr (Admitted p), v)"
    and "lookupTier method path (acAllowPublicStatus cfg) = tier" "tier \<noteq> tierPublic"
  shows "sameState w v \<and> (\<exists>cert d. vouchedFor cfg w v peers cert d
     \<and> p = Some \<lparr>prCN = nmCommonName (certSubject cert), prDomain = Some d\<rparr>
     \<and> (tier = tierAdminOnly \<longrightarrow> isAdmin d cert (nmCommonName (certSubject cert)))
     \<and> (tier = tierOwnClient \<longrightarrow> tdOwn d)
     \<and> (tier = tierSelfOrAdmin \<longrightarrow> isAdmin d cert (nmCommonName (certSubject cert))
          \<or> tdOwn d \<and> nmCommonName (certSubject cert) = extractPathSubject path))"
  using middleware_admits [OF assms] .

definition laxChecks :: x509Checks where
  "laxChecks = \<lparr>ckConstraints = (\<lambda>_. True), ckPolicies = (\<lambda>_. True)\<rparr>"

definition demoAuth :: AuthConfig where
  "demoAuth = \<lparr>acDomains = [OwnTrustDomain (Some sampleCACert) [''a''] True], acAllowPublicStatus = False,
     acClientRevocationPolicy = []\<rparr>"

lemma demo_verify: "Verify laxChecks (10 * second) [sampleCACert] [] (sampleLeaf 9) = [[sampleLeaf 9, sampleCACert]]"
proof -
  have m: "maxChainSignatureChecks = Suc 99" by (simp add: maxChainSignatureChecks_def)
  have ne: "sampleLeaf 9 \<noteq> sampleCACert" by (simp add: sampleLeaf_def sampleCACert_def)
  have f: "certSubject sampleCACert = sampleName ''ca''" "certIssuer (sampleLeaf 9) = sampleName ''ca''"
    "certNotBefore (sampleLeaf 9) = 0" "certNotAfter (sampleLeaf 9) = 1000 * second" "certNotBefore sampleCACert = 0"
    "certNotAfter sampleCACert = 1000000 * second" "certSubject (sampleLeaf 9) \<noteq> certSubject sampleCACert"
    "certExtKeyUsage (sampleLeaf 9) = []" "certExtKeyUsage sampleCACert = []"
    by (simp_all add: sampleCACert_def sampleLeaf_def sampleName_def certExtKeyUsage_def extValueOf_def oid_defs)
  show ?thesis
    using ne f
    by (simp add: Verify_def m candidates_def findPotentialParents_def Let_def isValid_def laxChecks_def clientUsage_def second_def)
qed

lemma demo_tier: "lookupTier ''POST'' ''/sign'' False = tierAdminOnly"
  by (simp add: lookupTier_def TrimPrefix_def)

lemma demo_admitted:
  assumes "lookupTier method path False = tierAdminOnly"
  shows "\<exists>v. run_state (newAuthMiddleware laxChecks (Some demoAuth) method path [sampleLeaf 9]) sample
     = (Inr (Admitted (Some \<lparr>prCN = ''a'', prDomain = Some (OwnTrustDomain (Some sampleCACert) [''a''] True)\<rparr>)), v)
     \<and> sameState sample v \<and> faultless v"
proof -
  obtain u where u: "run_state timeNow sample = (Inr (10 * second), u)" "sameState sample u" "faultless u"
    by (metis live_time sample_faultless)
  then have c: "cachedCRL (wCA u) = Some (sampleCRL 1 [])" by (simp add: sameState_def sampleCA_def)
  show ?thesis
    using u c assms demo_verify
    by (simp add: newAuthMiddleware_def demoAuth_def OwnTrustDomain_def run_bindE Let_def clearOfRevocation_def IsRevokedSerial_def
        run_attempt live_mu serialInCRL_def sampleCRL_def permits_def isAdmin_def IsAdminCN_def sameState_def)
qed

theorem admitted_client_is_vouched_witness:
  "\<exists>v d. run_state (newAuthMiddleware laxChecks (Some demoAuth) ''POST'' ''/sign'' [sampleLeaf 9]) sample
     = (Inr (Admitted (Some \<lparr>prCN = ''a'', prDomain = Some d\<rparr>)), v)
     \<and> vouchedFor demoAuth sample v [sampleLeaf 9] (sampleLeaf 9) d \<and> isAdmin d (sampleLeaf 9) ''a''"
proof -
  obtain v d where v: "run_state (newAuthMiddleware laxChecks (Some demoAuth) ''POST'' ''/sign'' [sampleLeaf 9]) sample
     = (Inr (Admitted (Some \<lparr>prCN = ''a'', prDomain = Some d\<rparr>)), v)" using demo_admitted [OF demo_tier] by blast
  have "lookupTier ''POST'' ''/sign'' (acAllowPublicStatus demoAuth) = tierAdminOnly" using demo_tier by (simp add: demoAuth_def)
  from admitted_client_is_vouched [OF v this] obtain cert where
    c: "vouchedFor demoAuth sample v [sampleLeaf 9] cert d" "isAdmin d cert (nmCommonName (certSubject cert))" by auto
  then have "cert = sampleLeaf 9" by (simp add: vouchedFor_def)
  with c v show ?thesis by auto
qed

end
