(* ===== verification/RateLimit.thy ===== *)
theory RateLimit
  imports GoTime "HOL-Library.AList"
begin

text \<open>
  The fixed-window counters of internal/api/ratelimit.go: the per-address limiter of the
  unauthenticated request endpoint and the per-identity tracker of destructive operations.
  The clock reading is an argument.  A call reads the clock before it takes the mutex, and
  is atomic from there on, so a history is a list of calls in the order in which they take
  the mutex: a call that was overtaken comes with an earlier reading than the one before.
\<close>

record windowEntry =
  weStart :: gotime
  weCount :: nat

record ipRateLimiter =
  lmWindow :: duration
  lmMaxReqs :: nat
  lmEntries :: "(string \<times> windowEntry) list"

definition newIPRateLimiter :: "nat \<Rightarrow> duration \<Rightarrow> ipRateLimiter" where
  "newIPRateLimiter maxReqs window = \<lparr>lmWindow = window, lmMaxReqs = maxReqs, lmEntries = []\<rparr>"

definition maxRateLimitEntries :: nat where "maxRateLimitEntries = 100000"

definition evictExpired :: "gotime \<Rightarrow> ipRateLimiter \<Rightarrow> ipRateLimiter" where
  "evictExpired now l = l\<lparr>lmEntries := filter (\<lambda>(ip, e). \<not> lmWindow l \<le> time_sub now (weStart e)) (lmEntries l)\<rparr>"

definition Allow :: "string \<Rightarrow> gotime \<Rightarrow> ipRateLimiter \<Rightarrow> bool \<times> ipRateLimiter" where
  "Allow ip now l =
     (if (case map_of (lmEntries l) ip of None \<Rightarrow> True | Some e \<Rightarrow> lmWindow l \<le> time_sub now (weStart e))
      then let l' = (if maxRateLimitEntries \<le> length (lmEntries l) then evictExpired now l else l)
           in (True, l'\<lparr>lmEntries := AList.update ip \<lparr>weStart = now, weCount = 1\<rparr> (lmEntries l')\<rparr>)
      else case map_of (lmEntries l) ip of
             None \<Rightarrow> (False, l)
           | Some e \<Rightarrow>
               if lmMaxReqs l \<le> weCount e then (False, l)
               else (True, l\<lparr>lmEntries := AList.update ip (e\<lparr>weCount := weCount e + 1\<rparr>) (lmEntries l)\<rparr>))"

text \<open>The tracker is used with the identity of a client, see the theory Api.\<close>

record 'k destructiveOpTracker =
  opWindow :: duration
  opThreshold :: nat
  opEntries :: "('k \<times> windowEntry) list"

definition newDestructiveOpTracker :: "nat \<Rightarrow> duration \<Rightarrow> 'k destructiveOpTracker" where
  "newDestructiveOpTracker threshold window = \<lparr>opWindow = window, opThreshold = threshold, opEntries = []\<rparr>"

text \<open>The answer tells whether the warning is logged.\<close>

definition Record :: "'k \<Rightarrow> gotime \<Rightarrow> 'k destructiveOpTracker \<Rightarrow> bool \<times> 'k destructiveOpTracker" where
  "Record identity now t =
     (case map_of (opEntries t) identity of
        None \<Rightarrow> (False, t\<lparr>opEntries := AList.update identity \<lparr>weStart = now, weCount = 1\<rparr> (opEntries t)\<rparr>)
      | Some e \<Rightarrow>
          if opWindow t \<le> time_sub now (weStart e)
          then (False, t\<lparr>opEntries := AList.update identity \<lparr>weStart = now, weCount = 1\<rparr> (opEntries t)\<rparr>)
          else (opThreshold t < weCount e + 1,
                t\<lparr>opEntries := AList.update identity (e\<lparr>weCount := weCount e + 1\<rparr>) (opEntries t)\<rparr>))"

section \<open>A history of calls\<close>

fun history :: "ipRateLimiter \<Rightarrow> (string \<times> gotime) list \<Rightarrow> (string \<times> gotime \<times> bool) list" where
  "history l [] = []"
| "history l ((ip, now) # calls) = (case Allow ip now l of (b, l') \<Rightarrow> (ip, now, b) # history l' calls)"

definition admitted :: "string \<Rightarrow> gotime \<Rightarrow> gotime \<Rightarrow> (string \<times> gotime \<times> bool) list \<Rightarrow> nat" where
  "admitted ip a b h = length (filter (\<lambda>(i, t, ok). i = ip \<and> ok \<and> a \<le> t \<and> t < b) h)"

lemma expired_iff:
  assumes "0 < w" "w < 2 ^ 63"
  shows "(w \<le> time_sub now s) = (w \<le> now - s)"
  using assms by (auto simp: time_sub_def)

definition windowOk :: "ipRateLimiter \<Rightarrow> bool" where
  "windowOk l = (0 < lmMaxReqs l \<and> distinct (map fst (lmEntries l))
     \<and> (\<forall>ip e. map_of (lmEntries l) ip = Some e \<longrightarrow> 1 \<le> weCount e \<and> weCount e \<le> lmMaxReqs l))"

text \<open>What a call does to the entries, eviction included.\<close>

definition unexpired :: "duration \<Rightarrow> gotime \<Rightarrow> windowEntry option \<Rightarrow> windowEntry option" where
  "unexpired w now e = (case e of None \<Rightarrow> None | Some x \<Rightarrow> if w \<le> time_sub now (weStart x) then None else Some x)"

lemma map_of_kept:
  "distinct (map fst al) \<Longrightarrow> map_of (filter (\<lambda>(ip, e). \<not> w \<le> time_sub now (weStart e)) al) ip = unexpired w now (map_of al ip)"
  by (induction al) (auto simp: unexpired_def image_iff split: option.split dest: map_of_SomeD, force dest: map_of_SomeD)

lemma Allow_frame:
  assumes "Allow ip now l = (b, l')" "windowOk l"
  shows "windowOk l'" "lmWindow l' = lmWindow l" "lmMaxReqs l' = lmMaxReqs l"
    and "other \<noteq> ip \<Longrightarrow> map_of (lmEntries l') other \<in> {map_of (lmEntries l) other, unexpired (lmWindow l) now (map_of (lmEntries l) other)}"
proof -
  have d: "distinct (map fst (lmEntries l))" using assms(2) by (simp add: windowOk_def)
  have u: "unexpired w t e = Some x \<Longrightarrow> e = Some x" for w t e x by (auto simp: unexpired_def split: option.splits if_splits)
  show "lmWindow l' = lmWindow l" "lmMaxReqs l' = lmMaxReqs l"
    using assms(1) by (auto simp: Allow_def evictExpired_def Let_def split: if_splits option.splits)
  show "other \<noteq> ip \<Longrightarrow> map_of (lmEntries l') other \<in> {map_of (lmEntries l) other, unexpired (lmWindow l) now (map_of (lmEntries l) other)}"
    using assms(1) map_of_kept [OF d]
    by (auto simp: Allow_def evictExpired_def Let_def update_conv' split: if_splits option.splits)
  show "windowOk l'"
    using assms map_of_kept [OF d]
    by (auto simp: windowOk_def Allow_def evictExpired_def Let_def update_conv' distinct_map_filter dest!: u
        intro!: distinct_update split: if_splits option.splits)
qed

text \<open>A call for the address itself.\<close>

lemma Allow_own:
  assumes "Allow ip now l = (b, l')"
  shows "case unexpired (lmWindow l) now (map_of (lmEntries l) ip) of
      None \<Rightarrow> b \<and> map_of (lmEntries l') ip = Some \<lparr>weStart = now, weCount = 1\<rparr>
    | Some e \<Rightarrow> (if lmMaxReqs l \<le> weCount e then \<not> b \<and> l' = l
        else b \<and> map_of (lmEntries l') ip = Some (e\<lparr>weCount := weCount e + 1\<rparr>))"
  using assms by (auto simp: unexpired_def Allow_def Let_def update_conv' split: option.splits if_splits)

section \<open>The bound\<close>

text \<open>No call was overtaken by more than a given time between its reading and the mutex.\<close>

fun nearly :: "duration \<Rightarrow> (string \<times> gotime) list \<Rightarrow> bool" where
  "nearly d [] = True"
| "nearly d ((ip, t) # calls) = (list_all (\<lambda>(i, u). t - d \<le> u) calls \<and> nearly d calls)"

text \<open>
  How many windows can still open whose calls count for the interval of length W from a on,
  if the next one opens at g or later: after one window the next opens W - d later at the
  earliest, whether its entry expired or was evicted.  A window that ends by a does not
  count, nor does one that opens d or more after the end of the interval.
\<close>

definition opens :: "duration \<Rightarrow> duration \<Rightarrow> gotime \<Rightarrow> gotime \<Rightarrow> nat" where
  "opens W d a g =
     (let h = max g (a - W + 1) in
      if a + W + d \<le> h then 0 else if a + 2 * d \<le> h then 1 else if a - W + 3 * d \<le> h then 2 else 3)"

definition counts :: "duration \<Rightarrow> duration \<Rightarrow> gotime \<Rightarrow> gotime \<Rightarrow> bool" where
  "counts W d a s = (a < s + W \<and> s < a + W + d)"

text \<open>What may still be admitted, given the entry of the address.\<close>

definition budget :: "nat \<Rightarrow> duration \<Rightarrow> duration \<Rightarrow> gotime \<Rightarrow> gotime \<Rightarrow> windowEntry option \<Rightarrow> nat" where
  "budget m W d a g e =
     (case e of
        None \<Rightarrow> m * opens W d a g
      | Some x \<Rightarrow> (if counts W d a (weStart x) then m - weCount x else 0) + m * opens W d a (weStart x + W - d))"

lemma admitted_simps [simp]:
  "admitted ip a b [] = 0"
  "admitted ip a b ((i, t, ok) # h) = (if i = ip \<and> ok \<and> a \<le> t \<and> t < b then Suc (admitted ip a b h) else admitted ip a b h)"
  by (simp_all add: admitted_def)

lemma opens_mono: "g \<le> g' \<Longrightarrow> 0 \<le> d \<Longrightarrow> 4 * d \<le> W \<Longrightarrow> opens W d a g' \<le> opens W d a g"
  by (auto simp: opens_def Let_def max_def)

text \<open>A window that counts uses one of the openings.\<close>

lemma opens_next:
  assumes "0 \<le> d" "4 * d \<le> W" "0 < W"
  shows "opens W d a (s + W - d) + (if counts W d a s then 1 else 0) \<le> opens W d a s"
  using assms by (auto simp: opens_def counts_def Let_def max_def)

lemma opens_bound: "0 \<le> d \<Longrightarrow> opens W d a g \<le> (if d = 0 then 2 else 3)"
  by (auto simp: opens_def Let_def max_def)

lemma budget_open:
  assumes "0 \<le> d" "4 * d \<le> W" "0 < W" "0 < m" "g \<le> now"
  shows "(if a \<le> now \<and> now < a + W then 1 else 0) + budget m W d a g' (Some \<lparr>weStart = now, weCount = 1\<rparr>) \<le> m * opens W d a g"
proof -
  have "m * (opens W d a (now + W - d) + (if counts W d a now then 1 else 0)) \<le> m * opens W d a g"
    using order_trans [OF opens_next [OF assms(1-3)] opens_mono [OF assms(5,1,2)]] by (rule mult_le_mono2)
  moreover have "a \<le> now \<and> now < a + W \<Longrightarrow> counts W d a now" using assms(1,3) by (simp add: counts_def)
  ultimately show ?thesis using assms(4) by (auto simp: budget_def distrib_left)
qed

lemma budget_evicted:
  "budget m W d a (weStart x + W - d) None \<le> budget m W d a g (Some x)"
  by (simp add: budget_def)

text \<open>One call, for the address or for another one.\<close>

lemma budget_own:
  assumes "Allow ip now l = (b, l')" "windowOk l" "0 < lmWindow l" "lmWindow l < 2 ^ 63" "0 \<le> d" "4 * d \<le> lmWindow l"
    and "g \<le> now" "\<And>x. map_of (lmEntries l) ip = Some x \<Longrightarrow> weStart x - d \<le> now"
  shows "(if b \<and> a \<le> now \<and> now < a + lmWindow l then 1 else 0) + budget (lmMaxReqs l) (lmWindow l) d a g' (map_of (lmEntries l') ip)
    \<le> budget (lmMaxReqs l) (lmWindow l) d a g (map_of (lmEntries l) ip)"
proof (cases "unexpired (lmWindow l) now (map_of (lmEntries l) ip)")
  case None
  have ok: "0 < lmMaxReqs l" using assms(2) by (simp add: windowOk_def)
  have "b" and e: "map_of (lmEntries l') ip = Some \<lparr>weStart = now, weCount = 1\<rparr>"
    using Allow_own [OF assms(1)] None by simp_all
  have old: "lmMaxReqs l * opens (lmWindow l) d a now \<le> budget (lmMaxReqs l) (lmWindow l) d a g (map_of (lmEntries l) ip)"
  proof (cases "map_of (lmEntries l) ip")
    case (Some x)
    then have "weStart x + lmWindow l - d \<le> now"
      using None expired_iff [OF assms(3,4)] assms(5) by (auto simp: unexpired_def split: if_splits)
    then show ?thesis using Some opens_mono [OF _ assms(5,6)] by (simp add: budget_def trans_le_add2)
  qed (use opens_mono [OF assms(7,5,6)] in \<open>simp add: budget_def\<close>)
  show ?thesis
    using order_trans [OF budget_open [OF assms(5,6,3) ok order_refl] old] e \<open>b\<close> by simp
next
  case (Some x)
  then have x: "map_of (lmEntries l) ip = Some x" "now < weStart x + lmWindow l"
    using expired_iff [OF assms(3,4)] by (auto simp: unexpired_def split: option.splits if_splits)
  have "a \<le> now \<and> now < a + lmWindow l \<Longrightarrow> counts (lmWindow l) d a (weStart x)"
    using x(2) assms(8) [OF x(1)] by (simp add: counts_def)
  then show ?thesis
    using Allow_own [OF assms(1)] Some x(1) by (auto simp: budget_def split: if_splits)
qed

lemma bounded_history:
  assumes "windowOk l" "0 < lmWindow l" "lmWindow l < 2 ^ 63" "0 \<le> d" "4 * d \<le> lmWindow l" "nearly d calls"
    and "\<forall>(i, t) \<in> set calls. g \<le> t \<and> (\<forall>x. map_of (lmEntries l) ip = Some x \<longrightarrow> weStart x - d \<le> t)"
  shows "admitted ip a (a + lmWindow l) (history l calls) \<le> budget (lmMaxReqs l) (lmWindow l) d a g (map_of (lmEntries l) ip)"
  using assms
proof (induction l calls arbitrary: g rule: history.induct)
  case (2 l i now calls)
  obtain b l' where al: "Allow i now l = (b, l')" by fastforce
  note fr = Allow_frame [OF al 2(2)]
  have later: "\<forall>(i, t) \<in> set calls. now - d \<le> t" using "2.prems"(6) by (simp add: list_all_iff)
  have ih: "admitted ip a (a + lmWindow l) (history l' calls) \<le> budget (lmMaxReqs l) (lmWindow l) d a k (map_of (lmEntries l') ip)"
    if "\<forall>(i, t) \<in> set calls. k \<le> t \<and> (\<forall>x. map_of (lmEntries l') ip = Some x \<longrightarrow> weStart x - d \<le> t)" for k
    using "2.IH" [OF al [symmetric], of k] fr(1-3) "2.prems" that by simp
  show ?case
  proof (cases "i = ip")
    case True
    have "\<forall>(i, t) \<in> set calls. g \<le> t \<and> (\<forall>x. map_of (lmEntries l') ip = Some x \<longrightarrow> weStart x - d \<le> t)"
      using Allow_own [OF al] True "2.prems"(7) later by (fastforce simp: unexpired_def split: option.splits if_splits)
    from ih [OF this] show ?thesis
      using budget_own [OF al [unfolded True] "2.prems"(1-5), of g a g] "2.prems"(7) al True by auto
  next
    case False
    then have "map_of (lmEntries l') ip = map_of (lmEntries l) ip
        \<or> (\<exists>x. map_of (lmEntries l) ip = Some x \<and> map_of (lmEntries l') ip = None \<and> weStart x + lmWindow l \<le> now)"
      using fr(4) [of ip] expired_iff [OF "2.prems"(2,3)] by (auto simp: unexpired_def split: option.splits if_splits)
    then show ?thesis
    proof (elim disjE exE conjE)
      assume same: "map_of (lmEntries l') ip = map_of (lmEntries l) ip"
      then show ?thesis using ih [of g] "2.prems"(7) False al by simp
    next
      fix x assume x: "map_of (lmEntries l) ip = Some x" "map_of (lmEntries l') ip = None" "weStart x + lmWindow l \<le> now"
      then have "\<forall>(i, t) \<in> set calls. weStart x + lmWindow l - d \<le> t" using later by fastforce
      then show ?thesis
        using ih [of "weStart x + lmWindow l - d"] budget_evicted [of "lmMaxReqs l" "lmWindow l" d a x g] x(1,2) False al by simp
    qed
  qed
qed simp

text \<open>
  C27. The limiter bounds every interval.  The limit and the window are positive.
  Whatever calls arrive, from however many
  addresses, the requests of one address that a limiter lets through within any interval as
  long as its window are at most three times its limit, provided that no call is overtaken
  by more than a quarter of the window between reading the clock and taking the mutex.
  When the calls take the mutex in the order of their readings they are at most twice the
  limit.  Eviction of stale entries does not change that.
\<close>

theorem limiter_bounds_every_interval:
  assumes "0 < maxReqs" "0 < window" "window < 2 ^ 63" "0 \<le> d" "4 * d \<le> window" "nearly d calls"
  shows "admitted ip a (a + window) (history (newIPRateLimiter maxReqs window) calls) \<le> (if d = 0 then 2 else 3) * maxReqs"
proof -
  define l where "l = newIPRateLimiter maxReqs window"
  have l: "windowOk l" "lmWindow l = window" "lmMaxReqs l = maxReqs" "map_of (lmEntries l) ip = None"
    using assms(1) by (simp_all add: l_def newIPRateLimiter_def windowOk_def)
  have "\<forall>(i, t) \<in> set calls. Min (snd ` set calls) \<le> t" by (auto intro!: Min_le image_eqI)
  then obtain g where g: "\<forall>(i, t) \<in> set calls. g \<le> t" by blast
  have "admitted ip a (a + window) (history l calls) \<le> maxReqs * opens window d a g"
    using bounded_history [of l d calls g ip a] l assms g by (simp add: budget_def)
  also have "\<dots> \<le> maxReqs * (if d = 0 then 2 else 3)" by (rule mult_le_mono2 [OF opens_bound [OF assms(4)]])
  finally show ?thesis by (simp add: l_def mult.commute)
qed

text \<open>Readings that took the mutex out of order: the limit is 3 and the interval admits seven.\<close>

definition demoCalls :: "(string \<times> gotime) list" where
  "demoCalls = map (Pair ''1.2.3.4'') [0, 9, 9, 10, 11, 11, 20, 18, 18]"

theorem limiter_bounds_every_interval_witness:
  "admitted ''1.2.3.4'' 9 (9 + 10) (history (newIPRateLimiter 3 10) demoCalls) = 7
   \<and> admitted ''1.2.3.4'' 9 (9 + 10) (history (newIPRateLimiter 3 10) demoCalls) \<le> 3 * 3"
proof
  show "admitted ''1.2.3.4'' 9 (9 + 10) (history (newIPRateLimiter 3 10) demoCalls) = 7"
    by (simp add: demoCalls_def newIPRateLimiter_def Allow_def maxRateLimitEntries_def time_sub_def Let_def)
  show "admitted ''1.2.3.4'' 9 (9 + 10) (history (newIPRateLimiter 3 10) demoCalls) \<le> 3 * 3"
    using limiter_bounds_every_interval [of 3 10 2 demoCalls "''1.2.3.4''" 9] by (simp add: demoCalls_def)
qed

end
