(* ===== verification/Frames.thy ===== *)
theory Frames
  imports Revocation
begin

text \<open>
  What every public operation keeps, whatever the backend answers: the form of the OCSP
  cache, the form of the inventory, and the request queue.  With the relations of the
  theories Crl and Revoke these are the facts the cluster theorems are built from.
\<close>

lemma bindE_lift [simp]: "bindE (lift (Inr x)) f = f x" "bindE (lift (Inl e)) f = fail e"
  by (rule state.expand; simp add: bindE_def lift_def fail_def fun_eq_iff)+

section \<open>The index and the cached answers\<close>

lemma ck_index: "state_io_rel cacheShrinks (changeCA (indexSerialLocked s t))"
  by (rule ck.io_changeCA) (auto simp: cacheShrinks_def indexSerialLocked_def indexed_dom update_conv')

lemmas ck_basic = ck.io ck_index quiet_reads [THEN ck_quiet] quiet_count [THEN ck_quiet] ck_quiet [OF quiet_mint]
  ck_quiet [OF quiet_has(1)] ck_quiet [OF quiet_has(2)] ck_inv [OF inv_append] ck_inv [OF inv_latest]
  ck_quiet [OF quiet_supersedeCount] ck_quiet [OF quiet_readSuperseded] ck_quiet [OF quiet_load]
  ck_revokeSerial ck_sign ck_quiet [OF quiet_readStored] ck_sync ck_quiet [OF quiet_refuse]
  ck_quiet [OF quiet_assertOwn] ck_inv [OF inv_existing]

lemma ck_saves:
  "state_io_rel cacheShrinks (SaveCert s c)" "state_io_rel cacheShrinks (DeleteCert s)"
  "state_io_rel cacheShrinks (SaveCSR s q)" "state_io_rel cacheShrinks (DeleteCSR s)"
  "state_io_rel cacheShrinks (writeSuperseded xs)"
  unfolding SaveCert_def DeleteCert_def SaveCSR_def DeleteCSR_def writeSuperseded_def SaveSuperseded_def
  by (auto intro!: ck.io ck_write split: sum.splits)

lemma ck_leaf: "state_io_rel cacheShrinks (issueLeafLocked s n k sans ext eku ttl)"
  unfolding issueLeafLocked_def recordLeaf_def
  by (auto intro!: ck_basic ck_saves simp: Let_def split: sum.splits option.splits)

lemma ck_signing: "state_io_rel cacheShrinks (signWithDuration s ttl)"
  unfolding signWithDuration_def by (auto intro!: ck_basic ck_saves ck_leaf split: pem.splits)

lemma ck_Sign: "state_io_rel cacheShrinks (SignWithTTL s ttl)" "state_io_rel cacheShrinks (Sign s)"
  unfolding SignWithTTL_def Sign_def by (intro ck.io ck_signing)+

lemma ck_requests: "state_io_rel cacheShrinks (SaveRequest s q)" "state_io_rel cacheShrinks (DeleteRequest s)"
  unfolding SaveRequest_def DeleteRequest_def sign_def checkDuplicateLocked_def storedCertLocked_def revokedLocked_def
  by (auto intro!: ck_basic ck_saves ck_signing split: pem.splits option.splits sum.splits)

lemma ck_supersede: "state_io_rel cacheShrinks (supersedeReplaced s k)"
  unfolding supersedeReplaced_def supersedeReplacedAfter_def recordSuperseded_def
  by (auto intro!: ck_basic ck_saves split: sum.splits)

lemma ck_refuse: "state_io_rel cacheShrinks (refuseIfRevoked c s)"
  unfolding refuseIfRevoked_def IsRevokedSerial_def by (auto intro!: ck_basic split: option.splits)

lemma ck_renewals: "state_io_rel cacheShrinks (Renew s q c)" "state_io_rel cacheShrinks (AutoRenew c)"
  unfolding Renew_def AutoRenew_def renewUnderLock_def autoRenewUnderLock_def retireReplaced_def reissueLeafLocked_def
  by (auto intro!: ck_basic ck_saves ck_refuse ck_leaf ck_supersede simp: Let_def split: option.splits pem.splits)

lemma ck_retireEach: "state_io_rel cacheShrinks (retireEach xs)"
  by (induction xs) (auto intro!: ck_basic)

lemma ck_revokeLocked: "state_io_rel cacheShrinks (revokeLocked s)"
  unfolding revokeLocked_def findSerialForSubject_def retireSupersededForSubjectLocked_def
  by (auto intro!: ck_basic ck_saves ck_retireEach simp: Let_def split: sum.splits)

lemma ck_counted: "state_io_rel cacheShrinks fn \<Longrightarrow> state_io_rel cacheShrinks (withCRLLockCounted fn)"
  unfolding withCRLLockCounted_def by (intro ck_basic)

lemma ck_Revoke: "state_io_rel cacheShrinks (Revoke s)" "state_io_rel cacheShrinks (RevokeSerial k force)"
  unfolding Revoke_def RevokeSerial_def revokeSerialCheckedLocked_def
  by (auto intro!: ck_basic ck_counted ck_revokeLocked ck_inv [OF inv_subjectFor] ck_quiet [OF quiet_storedCertSerial]
      split: sum.splits)

lemma ck_Clean: "state_io_rel cacheShrinks (Clean s)"
  unfolding Clean_def by (auto intro!: ck_basic ck_saves ck_revokeLocked)

lemma ck_many: "state_io_rel cacheShrinks (signEach r1 ss)" "state_io_rel cacheShrinks (cleanEach r2 ss)"
proof -
  show "state_io_rel cacheShrinks (signEach r1 ss)"
    by (induction r1 ss rule: signEach.induct) (auto intro!: ck_basic ck_Sign split: sum.splits)
  show "state_io_rel cacheShrinks (cleanEach r2 ss)"
    by (induction r2 ss rule: cleanEach.induct) (auto intro!: ck_basic ck_Clean split: sum.splits)
qed

lemma ck_drain: "state_io_rel cacheShrinks (drainDueLocked due)"
  unfolding drainDueLocked_def appendCRLEntriesLocked_def
  by (auto intro!: ck_basic ck_inv [OF inv_project] simp: Let_def split: sum.splits prod.splits)

lemma ck_Reconcile: "state_io_rel cacheShrinks ReconcileSuperseded"
  unfolding ReconcileSuperseded_def sweepLocked_def
  by (auto intro!: ck_basic ck_saves ck_drain simp: Let_def split: sum.splits prod.splits)

lemma ck_crl: "state_io_rel cacheShrinks ReissueCRL" "state_io_rel cacheShrinks (RefreshCRLIfDue d)"
    "state_io_rel cacheShrinks RefreshCRLChainFile"
  unfolding ReissueCRL_def RefreshCRLIfDue_def RefreshCRLChainFile_def reissueCRLLocked_def
  by (auto intro!: ck_basic ck_counted ck_install ck_quiet [OF quiet_upstream] split: sum.splits)

section \<open>The inventory\<close>

text \<open>No serial twice, every entry well formed, and the text form ends with a newline.\<close>

definition inventoryOk :: "store \<Rightarrow> bool" where
  "inventoryOk st = (invOk st \<and> list_all entryOk (storeEntries st))"

definition inventoryKept :: "world \<Rightarrow> world \<Rightarrow> bool" where
  "inventoryKept w v = (inventoryOk (wStore w) \<longrightarrow> inventoryOk (wStore v))"

interpretation ik: step_relation inventoryKept
  by unfold_locales (auto simp: inventoryKept_def sameState_def)

lemma kept_same: "entriesSame w v \<Longrightarrow> inventoryKept w v"
  by (simp add: entriesSame_def inventoryKept_def inventoryOk_def invOk_def)

lemma ik_entries: "state_io_rel entriesSame m \<Longrightarrow> state_io_rel inventoryKept m"
  by (blast intro: kept_same dest: state_io_relD)

lemma ik_quiet: "state_io_rel quiet m \<Longrightarrow> state_io_rel inventoryKept m"
  by (rule ik_entries [OF quiet_entries])

lemma ik_latest: "state_io_rel inventoryKept (LatestSerialForSubject s)"
    "state_io_rel inventoryKept (SubjectForSerial k)" "state_io_rel inventoryKept (existingSerial s)"
proof -
  have l: "state_io_rel entriesSame (LatestSerialForSubject s)"
    unfolding LatestSerialForSubject_def ReadInventory_def by (auto intro!: es.io es_verifyIfKeyed)
  show "state_io_rel inventoryKept (LatestSerialForSubject s)" by (rule ik_entries [OF l])
  show "state_io_rel inventoryKept (SubjectForSerial k)"
    unfolding SubjectForSerial_def inventoryEntriesLocked_def
    by (rule ik_entries) (auto intro!: es.io es_verifyIfKeyed)
  show "state_io_rel inventoryKept (existingSerial s)"
    unfolding existingSerial_def by (rule ik_entries) (auto intro!: es.io l split: sum.splits)
qed

lemma ik_saves:
  "state_io_rel inventoryKept (SaveCert s c)" "state_io_rel inventoryKept (DeleteCert s)"
  "state_io_rel inventoryKept (SaveCSR s q)" "state_io_rel inventoryKept (DeleteCSR s)"
  unfolding SaveCert_def DeleteCert_def SaveCSR_def DeleteCSR_def
  by (rule ik_entries, rule es.io_backendWrite, auto simp: entriesSame_def storeEntries_def isChained_def storeBlob_def
      dest!: sym [of _ "wStore v" for v])+

lemma appended_kept: "appended e st st' \<Longrightarrow> entryOk e \<Longrightarrow> inventoryOk st \<Longrightarrow> inventoryOk st'"
  by (auto simp: appended_def inventoryOk_def)

lemma ik_append:
  assumes "entryOk e"
  shows "state_io_rel inventoryKept (AppendInventoryRecord (canonicalInventoryLine e))"
proof
  fix r w v assume run: "run_state (AppendInventoryRecord (canonicalInventoryLine e)) w = (r, v)"
  have "inventoryOk (wStore v)" if "inventoryOk (wStore w)"
  proof -
    have "invOk (wStore w)" using that by (simp add: inventoryOk_def)
    from append_step [OF run assms this] show ?thesis
      using appended_kept [OF _ assms that] that by (auto simp: sameState_def)
  qed
  then show "inventoryKept w v" by (simp add: inventoryKept_def)
qed

lemma ik_changeCA: "state_io_rel inventoryKept (changeCA f)"
  by (rule ik_entries [OF es_changeCA])

lemma ik_record:
  assumes "ValidateSubject subject = Inr ()" "0 \<le> tplSerialNumber tpl"
  shows "state_io_rel inventoryKept (recordLeaf subject tpl cert)"
proof -
  have "FormatInventoryLine (serialHexStr (tplSerialNumber tpl)) (tplNotBefore tpl) (tplNotAfter tpl) subject
      = canonicalInventoryLine (leafEntry subject tpl)" by (simp add: FormatInventoryLine_def leafEntry_def)
  then show ?thesis
    unfolding recordLeaf_def Let_def
    by (auto intro!: ik.io ik_saves ik_append leafEntry_ok [OF assms] ik_changeCA split: sum.splits)
qed

lemma ik_leaf:
  assumes "ValidateSubject subject = Inr ()"
  shows "state_io_rel inventoryKept (issueLeafLocked subject n pub sans extra eku ttl)"
proof
  fix r w v assume run: "run_state (issueLeafLocked subject n pub sans extra eku ttl) w = (r, v)"
  show "inventoryKept w v"
  proof (cases "\<exists>ca key. CACert (wCA w) = Some ca \<and> CAKey (wCA w) = Some key")
    case False
    then have "v = w" using run by (auto simp: issueLeafLocked_def run_bindE split: option.splits)
    then show ?thesis by (simp add: inventoryKept_def)
  next
    case True
    then obtain ca key where ck: "CACert (wCA w) = Some ca" "CAKey (wCA w) = Some key" by blast
    with run have "run_state (bindE (mintLeaf (wConfig w) ca key n pub sans extra eku ttl)
        (\<lambda>(tpl, cert). recordLeaf subject tpl cert)) w = (r, v)"
      by (simp add: issueLeafLocked_def run_bindE [of "getsE f" for f])
    then show ?thesis
    proof (cases rule: bindE_E)
      case (error e)
      show ?thesis by (rule state_io_relD [OF ik_quiet [OF quiet_mint] error(1)])
    next
      case (step x u)
      obtain tpl cert where x: "x = (tpl, cert)" by fastforce
      have m: "minted w n pub sans extra eku ttl tpl cert" using mintLeaf_ok [OF _ ck] step(1) x by blast
      have "0 \<le> tplSerialNumber tpl" using minted_fields(4,6) [OF m] by simp
      from ik_record [OF assms this, THEN state_io_relD, of cert u r v] step(2) x
      have "inventoryKept u v" by simp
      then show ?thesis using ik.trans state_io_relD [OF ik_quiet [OF quiet_mint] step(1)] by blast
    qed
  qed
qed

lemmas ik_basic = ik.io ik_saves ik_changeCA ik_latest quiet_reads [THEN ik_quiet] quiet_count [THEN ik_quiet]
  ik_quiet [OF quiet_has(1)] ik_quiet [OF quiet_has(2)] ik_quiet [OF quiet_supersedeCount]
  ik_quiet [OF quiet_readSuperseded] ik_quiet [OF quiet_load] ik_entries [OF es_revokeSerial] ik_entries [OF es_sign]
  ik_quiet [OF quiet_readStored] ik_quiet [OF quiet_refuse] ik_quiet [OF quiet_assertOwn]
  ik_entries [OF es_writeSuperseded] ik_entries [OF es_retire]

lemma ik_signing: "state_io_rel inventoryKept (signWithDuration s ttl)"
  by (cases "ValidateSubject s")
    (auto simp: signWithDuration_def intro!: ik_basic ik_leaf split: pem.splits)

lemma ik_Sign: "state_io_rel inventoryKept (SignWithTTL s ttl)" "state_io_rel inventoryKept (Sign s)"
  unfolding SignWithTTL_def Sign_def by (intro ik.io ik_signing)+

lemma ik_requests: "state_io_rel inventoryKept (SaveRequest s q)" "state_io_rel inventoryKept (DeleteRequest s)"
  unfolding SaveRequest_def DeleteRequest_def sign_def checkDuplicateLocked_def storedCertLocked_def revokedLocked_def
  by (auto intro!: ik_basic ik_signing split: pem.splits option.splits sum.splits)

lemma ik_sync: "state_io_rel inventoryKept SyncCRLCache"
  unfolding SyncCRLCache_def syncFrom_def by (auto intro!: ik_basic split: option.splits)

lemma ik_refuse: "state_io_rel inventoryKept (refuseIfRevoked c s)"
  unfolding refuseIfRevoked_def IsRevokedSerial_def by (auto intro!: ik_basic ik_sync split: option.splits)

lemma ik_supersede: "state_io_rel inventoryKept (supersedeReplaced s k)"
  unfolding supersedeReplaced_def supersedeReplacedAfter_def recordSuperseded_def
  by (auto intro!: ik_basic split: sum.splits)

lemma ik_renewals: "state_io_rel inventoryKept (Renew s q c)" "state_io_rel inventoryKept (AutoRenew c)"
proof -
  show "state_io_rel inventoryKept (Renew s q c)"
    unfolding Renew_def renewUnderLock_def retireReplaced_def reissueLeafLocked_def
    by (cases "ValidateSubject s")
      (auto intro!: ik_basic ik_refuse ik_leaf ik_supersede split: option.splits pem.splits)
  show "state_io_rel inventoryKept (AutoRenew c)"
    unfolding AutoRenew_def autoRenewUnderLock_def retireReplaced_def reissueLeafLocked_def
    by (cases c; cases "ValidateSubject (nmCommonName (certSubject (the c)))")
      (auto simp: Let_def intro!: ik_basic ik_refuse ik_leaf ik_supersede split: option.splits)
qed

lemma ik_revokeLocked: "state_io_rel inventoryKept (revokeLocked s)"
  unfolding revokeLocked_def findSerialForSubject_def by (auto intro!: ik_basic split: sum.splits)

lemma ik_counted: "state_io_rel inventoryKept fn \<Longrightarrow> state_io_rel inventoryKept (withCRLLockCounted fn)"
  unfolding withCRLLockCounted_def by (intro ik_basic)

lemma ik_Revoke: "state_io_rel inventoryKept (Revoke s)" "state_io_rel inventoryKept (RevokeSerial k force)"
  unfolding Revoke_def RevokeSerial_def revokeSerialCheckedLocked_def
  by (auto intro!: ik_basic ik_counted ik_revokeLocked ik_quiet [OF quiet_storedCertSerial] split: sum.splits)

lemma ik_Clean: "state_io_rel inventoryKept (Clean s)"
  unfolding Clean_def by (auto intro!: ik_basic ik_revokeLocked)

lemma ik_many: "state_io_rel inventoryKept (signEach r1 ss)" "state_io_rel inventoryKept (cleanEach r2 ss)"
proof -
  show "state_io_rel inventoryKept (signEach r1 ss)"
    by (induction r1 ss rule: signEach.induct) (auto intro!: ik_basic ik_Sign split: sum.splits)
  show "state_io_rel inventoryKept (cleanEach r2 ss)"
    by (induction r2 ss rule: cleanEach.induct) (auto intro!: ik_basic ik_Clean split: sum.splits)
qed

lemma es_project: "state_io_rel entriesSame (projectEach m ds)"
  by (induction m ds rule: projectEach.induct) (auto intro!: es.io es_markIndex)

lemma ik_Reconcile: "state_io_rel inventoryKept ReconcileSuperseded"
proof -
  have "state_io_rel inventoryKept (drainDueLocked due)" for due
    unfolding drainDueLocked_def appendCRLEntriesLocked_def
    by (auto intro!: ik_basic ik_entries [OF es_project] simp: Let_def split: sum.splits prod.splits)
  then show ?thesis
    unfolding ReconcileSuperseded_def sweepLocked_def
    by (auto intro!: ik_basic simp: Let_def split: sum.splits prod.splits)
qed

lemma ik_crl: "state_io_rel inventoryKept ReissueCRL" "state_io_rel inventoryKept (RefreshCRLIfDue d)"
    "state_io_rel inventoryKept RefreshCRLChainFile"
  unfolding ReissueCRL_def RefreshCRLIfDue_def RefreshCRLChainFile_def reissueCRLLocked_def
  by (auto intro!: ik_basic ik_counted ik_quiet [OF quiet_upstream] split: sum.splits)

section \<open>The queue\<close>

lemma queue_counted: "state_io_rel queueKept fn \<Longrightarrow> state_io_rel queueKept (withCRLLockCounted fn)"
  unfolding withCRLLockCounted_def by (intro queue_io quiet_count [THEN queue_quiet])

lemma queue_Revoke: "state_io_rel queueKept (Revoke s)" "state_io_rel queueKept (RevokeSerial k force)"
  unfolding Revoke_def RevokeSerial_def revokeLocked_def findSerialForSubject_def revokeSerialCheckedLocked_def
  by (auto intro!: queue_io queue_counted queue_certs [OF certs_retire] queue_inv [OF inv_latest]
      quiet_count [THEN queue_quiet] queue_other [OF other_revokeSerial] queue_inv [OF inv_subjectFor]
      queue_quiet [OF quiet_storedCertSerial] split: sum.splits)

lemma queue_many: "state_io_rel queueKept (signEach r1 ss)" "state_io_rel queueKept (cleanEach r2 ss)"
proof -
  show "state_io_rel queueKept (signEach r1 ss)"
    by (induction r1 ss rule: signEach.induct) (auto intro!: queue_io queue_Sign split: sum.splits)
  show "state_io_rel queueKept (cleanEach r2 ss)"
    by (induction r2 ss rule: cleanEach.induct) (auto intro!: queue_io queue_Clean split: sum.splits)
qed

lemma queue_Reconcile: "state_io_rel queueKept ReconcileSuperseded"
  unfolding ReconcileSuperseded_def sweepLocked_def
  by (auto intro!: queue_io queue_quiet [OF quiet_load] queue_quiet [OF quiet_readSuperseded]
      queue_quiet [OF quiet_supersedeCount] queue_certs [OF certs_write] queue_other [OF other_drain]
      simp: Let_def split: sum.splits prod.splits)

lemma queue_crl: "state_io_rel queueKept ReissueCRL" "state_io_rel queueKept (RefreshCRLIfDue d)"
    "state_io_rel queueKept RefreshCRLChainFile" "state_io_rel queueKept SyncCRLCache"
proof -
  show "state_io_rel queueKept ReissueCRL" "state_io_rel queueKept (RefreshCRLIfDue d)"
    "state_io_rel queueKept RefreshCRLChainFile"
    unfolding ReissueCRL_def RefreshCRLIfDue_def RefreshCRLChainFile_def reissueCRLLocked_def
    by (auto intro!: queue_io queue_counted queue_quiet [OF quiet_upstream] queue_quiet [OF quiet_readStored]
        quiet_count [THEN queue_quiet] queue_other [OF other_sign] split: sum.splits)
  show "state_io_rel queueKept SyncCRLCache" by (rule queue_other [OF other_SyncCRLCache])
qed

section \<open>The operations that put into the cache or take from the index\<close>

definition wfKept :: "world \<Rightarrow> world \<Rightarrow> bool" where
  "wfKept w v = (ocspWf (wCA w) \<longrightarrow> ocspWf (wCA v))"

interpretation wk: step_relation wfKept
  by unfold_locales (auto simp: wfKept_def sameState_def)

lemma wk_shrinks: "state_io_rel cacheShrinks m \<Longrightarrow> state_io_rel wfKept m"
  unfolding wfKept_def by (blast intro: shrinks_wf dest: state_io_relD)

lemma wf_drop: "ocspWf ca \<Longrightarrow> ocspWf (dropSerialLocked s ca)"
proof -
  assume wf: "ocspWf ca"
  have i: "indexed (dropSerialLocked s ca) = indexed ca - {s}" by (auto simp: indexed_dom delete_conv')
  show ?thesis
    unfolding ocspWf_def
  proof (intro allI impI)
    fix k h e assume "((k, h), e) \<in> set (ocspCache (dropSerialLocked s ca))"
    then have "((k, h), e) \<in> set (ocspCache ca)" "k \<noteq> s \<or> \<not> ocspCacheableHash h"
      by (auto simp: evictOCSPLocked_def)
    then show "k = serialHexStr (orSerial (oceResponse e)) \<and> orHash (oceResponse e) = h
     \<and> orNonce (oceResponse e) = None \<and> orStatus (oceResponse e) \<noteq> OCSPUnknown
     \<and> orNextUpdate (oceResponse e) = Some (oceExpiresAt e) \<and> ocspCacheableHash h \<and> k \<in> indexed (dropSerialLocked s ca)"
      using wf i unfolding ocspWf_def by blast
  qed
qed

lemma wf_index_only: "ocspCache ca' = ocspCache ca \<Longrightarrow> indexed ca \<subseteq> indexed ca' \<Longrightarrow> ocspWf ca \<Longrightarrow> ocspWf ca'"
  unfolding ocspWf_def by (metis subsetD)

lemma wf_unindex: "ocspWf ca \<Longrightarrow> ocspWf (fold unindexSerialLocked ks ca)"
proof (induction ks arbitrary: ca)
  case (Cons k ks)
  have "ocspWf (unindexSerialLocked k ca)"
    by (rule wf_index_only [OF _ _ wf_drop [OF Cons.prems, of k]])
      (simp_all add: unindexSerialLocked_def Let_def indexed_def)
  then show ?case using Cons.IH by simp
qed simp

lemma wf_remove: "ocspWf ca \<Longrightarrow> ocspWf (snd (removeAbsent stored ss (a, ca)))"
proof (induction ss arbitrary: a ca)
  case (Cons s ss)
  then show ?case by (cases "map_of stored s") (simp_all add: wf_drop)
qed simp

lemma wf_reconcile:
  assumes "ocspWf ca" "distinct (map fst stored)"
  shows "ocspWf (snd (reconcileSerialIndexLocked stored e r ca))"
proof -
  obtain a ca1 where a: "(if serialIndexRemovalEpoch ca \<noteq> r then (0, ca) else addStored stored (0, ca)) = (a, ca1)"
    by fastforce
  define ca2 where "ca2 = (if 0 < a then ca1\<lparr>serialIndexEpoch := Suc (serialIndexEpoch ca1)\<rparr> else ca1)"
  have "ca1 = ca \<or> (\<exists>al. ca1 = ca\<lparr>serialIndex := al\<rparr>) \<and> indexed ca \<subseteq> indexed ca1"
    using a addStored_frame [of stored 0 ca] addStored_map(1) [OF _ assms(2), of 0 ca a ca1]
    by (auto simp: indexed_dom split: if_splits)
  then have "ocspWf ca1" using assms(1) wf_index_only [of ca1 ca] by auto
  then have "ocspWf ca2" using wf_index_only [of ca2 ca1] by (simp add: ca2_def indexed_def)
  moreover have "snd (reconcileSerialIndexLocked stored e r ca) = (if serialIndexEpoch ca \<noteq> e then ca2
      else snd (removeAbsent stored (map fst (serialIndex ca2)) (0, ca2)))"
    using a by (simp add: reconcileSerialIndexLocked_def split_def Let_def ca2_def)
  ultimately show ?thesis using wf_remove by simp
qed

interpretation ss: step_relation sameState
  by unfold_locales (auto simp: sameState_def)

lemma same_readIndex:
  assumes "run_state readSerialIndex w = (r, v)"
  shows "sameState w v" "\<And>index. r = Inr index \<Longrightarrow> distinct (map fst index)"
proof -
  have es: "sameState w u" if "run_state InventoryEntries w = (q, u)" for q u
  proof -
    have "state_io_rel sameState InventoryEntries"
      unfolding InventoryEntries_def compareInventoryMACLocked_def
      by (auto intro!: ss.io split: option.splits sum.splits err.splits)
    then show ?thesis using that by (rule state_io_relD)
  qed
  show "sameState w v" using assms es unfolding readSerialIndex_def by (auto simp: run_bindE split: prod.splits sum.splits)
  show "distinct (map fst index)" if "r = Inr index" for index
    using assms that distinct_index [of "[]"] unfolding readSerialIndex_def by (auto elim!: bindE_okE)
qed

lemma wk_SyncSerialIndex: "state_io_rel wfKept SyncSerialIndex"
proof
  fix r w v assume run: "run_state SyncSerialIndex w = (r, v)"
  let ?u = "leaveLock (enterLock LockMu w)"
  let ?count = "modify (updCA (serialIndexSyncFailures_update Suc))"
  let ?rec = "\<lambda>stored. withMu (withCA (reconcileSerialIndexLocked stored (serialIndexEpoch (wCA w)) (serialIndexRemovalEpoch (wCA w))))"
  from run have "run_state (bindE (onError readSerialIndex (\<lambda>_. ?count)) ?rec) ?u = (r, v)"
    by (simp add: SyncSerialIndex_def run_bindE [of "withMu m" for m] live_mu)
  then show "wfKept w v"
  proof (cases rule: bindE_E)
    case (error e)
    from error(1) obtain x where "run_state readSerialIndex ?u = (Inl e, x)" "v = snd (run_state ?count x)"
      by (cases rule: onErrorE) auto
    then have "wCA v = serialIndexSyncFailures_update Suc (wCA w)"
      using same_readIndex(1) by (fastforce simp: sameState_def)
    then show ?thesis by (simp add: wfKept_def ocspWf_def indexed_def)
  next
    case (step stored x)
    have rd: "run_state readSerialIndex ?u = (Inr stored, x)" using step(1) by (simp add: onError_ok)
    have ca: "wCA x = wCA w" using same_readIndex(1) [OF rd] by (simp add: sameState_def)
    have "wCA v = snd (reconcileSerialIndexLocked stored (serialIndexEpoch (wCA w)) (serialIndexRemovalEpoch (wCA w)) (wCA w))"
      using step(2) ca by (auto simp: live_mu withCA_def split: prod.splits)
    then show ?thesis using wf_reconcile same_readIndex(2) [OF rd refl] by (simp add: wfKept_def)
  qed
qed

lemma same_store_SyncIndex: "run_state SyncSerialIndex w = (r, v) \<Longrightarrow> wStore v = wStore w"
proof -
  let ?R = "\<lambda>w v. wStore v = wStore (w :: world)"
  have "state_io_rel ?R SyncSerialIndex"
  proof -
    have R: "step_relation ?R" by unfold_locales (auto simp: sameState_def)
    note io = step_relation.io [OF R]
    have rd: "state_io_rel ?R readSerialIndex" using same_readIndex(1) by (fastforce simp: state_io_rel_def sameState_def)
    have ca: "state_io_rel ?R (withCA f)" for f :: "CA \<Rightarrow> SerialIndexDelta \<times> CA"
      by (auto simp: state_io_rel_def withCA_def split: prod.splits)
    have m: "state_io_rel ?R (modify (updCA g))" for g by (auto simp: state_io_rel_def)
    show ?thesis unfolding SyncSerialIndex_def by (auto intro!: io rd ca m)
  qed
  then show "run_state SyncSerialIndex w = (r, v) \<Longrightarrow> wStore v = wStore w" by (auto dest: state_io_relD)
qed

section \<open>Answering\<close>

lemma AnswerOCSP_parts:
  assumes "run_state (AnswerOCSP dep der) w = (r, v)"
  obtains (refused) "quiet w v"
    | (stored) req nonce now status u where "quiet w u"
        "run_state (ocspStore req nonce (ocspTemplate req nonce now status, now)) u = (r, v)"
proof (cases "odParsed der")
  case (Inl e)
  then show ?thesis using refused assms qt.same by (simp add: AnswerOCSP_def Let_def)
next
  case (Inr req)
  let ?n = "acceptedNonce der"
  have ql: "state_io_rel quiet (ocspLookup dep req ?n)"
    unfolding ocspLookup_def Let_def by (auto intro!: quiet_io split: option.splits)
  from Inr assms have "run_state (bindE (ocspLookup dep req ?n) (\<lambda>look. case look of Hit a \<Rightarrow> ok a
      | Miss snap \<Rightarrow> bindE (ocspSign req ?n snap) (ocspStore req ?n))) w = (r, v)"
    by (simp add: AnswerOCSP_def Let_def)
  then show ?thesis
  proof (cases rule: bindE_E)
    case (error e)
    show ?thesis by (rule refused [OF state_io_relD [OF ql error(1)]])
  next
    case (step look x)
    have wx: "quiet w x" by (rule state_io_relD [OF ql step(1)])
    show ?thesis
    proof (cases look)
      case (Hit a)
      then show ?thesis using step(2) refused wx by simp
    next
      case (Miss snap)
      with step(2) have "run_state (bindE (ocspSign req ?n snap) (ocspStore req ?n)) x = (r, v)" by simp
      then show ?thesis
      proof (cases rule: bindE_E)
        case (error e)
        show ?thesis by (rule refused [OF qt.trans [OF wx state_io_relD [OF quiet_ocspSign error(1)]]])
      next
        case inner: (step signed y)
        obtain resp now where sg: "signed = (resp, now)" by fastforce
        obtain status where "resp = ocspTemplate req ?n now status"
          using ocspSign_ok [OF inner(1) [unfolded sg]] by blast
        then show ?thesis
          using stored [OF qt.trans [OF wx state_io_relD [OF quiet_ocspSign inner(1)]]] inner(2) sg by simp
      qed
    qed
  qed
qed

text \<open>Storing an answer, whenever it happens.\<close>

lemma store_step:
  assumes "run_state (ocspStore req nonce (ocspTemplate req nonce now status, now)) w = (r, v)"
  shows "owes w v" "crlStep D w v" "wfKept w v" "wStore v = wStore w"
proof -
  let ?t = "ocspTemplate req nonce now status"
  have run: "wStore v = wStore w" "wConfig v = wConfig w"
    "wCA v = (if storesAnswer req nonce ?t (wCA w) then putAnswer req ?t now (wCA w) else wCA w)"
    using ocspStore_run [of req nonce ?t now w] assms by auto
  have id: "sameId w v" "cachedCRL (wCA v) = cachedCRL (wCA w)" "stCRL (wStore v) = stCRL (wStore w)"
    using run by (simp_all add: sameId_def putAnswer_def)
  then have "storedOwn v = storedOwn w" "leadTyped v = leadTyped w"
    by (simp_all add: storedOwn_def leadTyped_def sameId_def)
  then have st: "crlStep E w v" for E
    using id store_ocspOk [OF assms refl] by (auto simp: crlStep_def advanced_def cacheOk_def cacheForward_def sameId_def)
  then show "crlStep D w v" .
  show "owes w v" using st run(1) by (simp add: owes_def accounted_def pending_def)
  show "wfKept w v" using store_ocspWf [OF assms refl] by (simp add: wfKept_def)
  show "wStore v = wStore w" by (rule run(1))
qed

lemma answer_step:
  assumes "run_state (AnswerOCSP dep der) w = (r, v)"
  shows "owes w v" "crlStep D w v" "wfKept w v" "wStore v = wStore w"
proof -
  have "owes w v \<and> crlStep D w v \<and> wfKept w v \<and> wStore v = wStore w"
    using assms
  proof (cases rule: AnswerOCSP_parts)
    case refused
    then show ?thesis
      using quiet_owes quiet_step by (auto simp: wfKept_def quiet_def caFrame_def ocspWf_def indexed_def)
  next
    case (stored req nonce now status u)
    note q = stored(1) and s = store_step [OF stored(2)]
    have "wfKept w u" using q by (auto simp: wfKept_def quiet_def caFrame_def ocspWf_def indexed_def)
    then show ?thesis
      using ow.trans [OF quiet_owes [OF q] s(1)] cs.trans [OF quiet_step [OF q] s(2)] wk.trans s(3,4) q
      by (auto simp: quiet_def)
  qed
  then show "owes w v" "crlStep D w v" "wfKept w v" "wStore v = wStore w" by blast+
qed

section \<open>Cleaning up\<close>

definition queuesSame :: "world \<Rightarrow> world \<Rightarrow> bool" where
  "queuesSame w v = (stCSRs (wStore v) = stCSRs (wStore w) \<and> stSuperseded (wStore v) = stSuperseded (wStore w))"

interpretation qs: step_relation queuesSame
  by unfold_locales (auto simp: queuesSame_def sameState_def)

lemma qs_cleanup: "state_io_rel queuesSame (cleanupLocked cutoff)"
proof -
  have "state_io_rel queuesSame (PruneInventory keep)" for keep
    using inv_prune unfolding state_io_rel_def invFrame_def queuesSame_def by fastforce
  moreover have "state_io_rel queuesSame (changeCA f)" for f
    by (rule qs.io_changeCA) (simp add: queuesSame_def)
  moreover have "state_io_rel queuesSame (dropCRLEntriesLocked keys)" for keys
    using other_dropCRL unfolding state_io_rel_def otherSame_def queuesSame_def by fastforce
  moreover have "state_io_rel queuesSame (deleteEach es)" for es
    using co_deleteEach unfolding state_io_rel_def certsOnly_def queuesSame_def by fastforce
  ultimately show ?thesis
    unfolding cleanupLocked_def by (auto intro!: qs.io simp: Let_def split: sum.splits prod.splits)
qed

lemma wk_cleanup: "state_io_rel wfKept (cleanupLocked cutoff)"
proof -
  have "state_io_rel wfKept (changeCA (fold unindexSerialLocked ks))" for ks
    by (rule wk.io_changeCA) (simp add: wfKept_def wf_unindex)
  moreover have "state_io_rel wfKept (dropCRLEntriesLocked keys)" for keys
    unfolding dropCRLEntriesLocked_def by (rule wk_shrinks) (auto intro!: ck_basic simp: Let_def)
  moreover have "state_io_rel wfKept (deleteEach es)" for es
    using co_deleteEach unfolding state_io_rel_def certsOnly_def wfKept_def by fastforce
  ultimately show ?thesis
    unfolding cleanupLocked_def
    by (auto intro!: wk.io wk_shrinks [OF ck_inv [OF inv_prune]] simp: Let_def split: sum.splits prod.splits)
qed

lemma cleanup_step:
  assumes "run_state (CleanupExpiredCerts retain) w = (r, v)" "expiredSerials (cleanupCutoff retain w) (wStore w) \<subseteq> D"
  shows "crlStep D w v" "wfKept w v" "inventoryKept w v" "queuesSame w v"
proof -
  have "crlStep D w v \<and> wfKept w v \<and> inventoryKept w v \<and> queuesSame w v"
    using assms(1)
  proof (cases rule: Cleanup_cases)
    case (refused e)
    then show ?thesis
      using quiet_step by (auto simp: wfKept_def inventoryKept_def queuesSame_def quiet_def caFrame_def ocspWf_def indexed_def)
  next
    case (ran u m e u')
    have st: "wStore u = wStore w" "wStore v = wStore u'" using ran(1,3) by (simp_all add: sameState_def)
    have D: "expiredSerials (cleanupCutoff retain w) (wStore u) \<subseteq> D" using assms(2) st by simp
    note s = cleanupLocked_step [OF ran(2) D]
    have k: "inventoryKept u u'"
      using s(3,4) by (auto simp: inventoryKept_def inventoryOk_def invOk_def distinct_map_filter list_all_iff)
    show ?thesis
      using cs.trans [OF cs.same [OF ran(1)] cs.trans [OF s(1) cs.same [OF ran(3)]]]
        wk.trans [OF wk.same [OF ran(1)] wk.trans [OF state_io_relD [OF wk_cleanup ran(2)] wk.same [OF ran(3)]]]
        ik.trans [OF ik.same [OF ran(1)] ik.trans [OF k ik.same [OF ran(3)]]]
        qs.trans [OF qs.same [OF ran(1)] qs.trans [OF state_io_relD [OF qs_cleanup ran(2)] qs.same [OF ran(3)]]]
      by blast
  qed
  then show "crlStep D w v" "wfKept w v" "inventoryKept w v" "queuesSame w v" by blast+
qed

end
