(* ===== verification/Enrol.thy ===== *)
theory Enrol
  imports Frames
begin

text \<open>
  The two ways to a certificate that start from no queued request: ImportCertificate
  (internal/ca/importcert.go), which registers a certificate issued elsewhere under this
  CA's key, and GenerateWithOptions with its network form Generate (internal/ca/generate.go,
  key generation from internal/ca/keys.go), which makes the key as well and can replace the
  certificate a subject has.  Also loadCRLCache (internal/ca/init.go), which both startup
  and generation use.  A private key is represented by its public half.  Lemmas: what an
  import has checked and leaves behind, that a generated certificate is the only live one
  of its subject, and that both keep what the theory Frames asks of every operation.
\<close>

section \<open>The cached list, read again\<close>

text \<open>Our newest list in the chain, or the leading one where there is none.\<close>

definition loadedCRL :: "Certificate option \<Rightarrow> CRLBlob \<Rightarrow> RevocationList \<Rightarrow> RevocationList" where
  "loadedCRL caCert blob crl =
     (case decodeCRLChain blob of
        Inl _ \<Rightarrow> crl
      | Inr chain \<Rightarrow>
          (case ownCRLIn chain caCert of
             None \<Rightarrow> crl
           | Some newest \<Rightarrow> if newest \<noteq> hd chain \<or> newerCRL newest crl then newest else crl))"

definition loadCRLCache :: "unit opr" where
  "loadCRLCache =
     bindE GetCRL (\<lambda>crlPEM.
     bindE (getsE (\<lambda>w. CACert (wCA w))) (\<lambda>caCert.
     case cbBlocks crlPEM of
       [] \<Rightarrow> fail (ErrOther ''CRL is empty or not PEM-encoded'')
     | block # _ \<Rightarrow>
         (case blkCRL block of
            None \<Rightarrow> fail (ErrOther ''parsing CRL'')
          | Some crl \<Rightarrow>
              changeCA (installCachedCRLLocked (loadedCRL caCert crlPEM crl)))))"

section \<open>Import\<close>

record ImportResult =
  irSubject :: string
  irSerial :: string
  irNotBefore :: gotime
  irNotAfter :: gotime
  irImported :: bool

definition certMatchesSubject :: "Certificate \<Rightarrow> string \<Rightarrow> bool" where
  "certMatchesSubject cert subject =
     (nmCommonName (certSubject cert) = subject \<or> subject \<in> set (sanDNSNames (sansOf (certExtensions cert))))"

definition SerialExists :: "string \<Rightarrow> bool opr" where
  "SerialExists serial =
     bindE inventoryEntriesLocked (\<lambda>entries. ok (list_ex (\<lambda>e. ieSerial e = serial) entries))"

definition importResult :: "string \<Rightarrow> Certificate \<Rightarrow> bool \<Rightarrow> ImportResult" where
  "importResult subject cert imported =
     \<lparr>irSubject = subject, irSerial = serialHexStr (certSerialNumber cert), irNotBefore = certNotBefore cert,
      irNotAfter = certNotAfter cert, irImported = imported\<rparr>"

definition importCertificateLocked :: "string \<Rightarrow> string \<Rightarrow> Certificate \<Rightarrow> ImportResult opr" where
  "importCertificateLocked subject serialStr cert =
     bindE (HasCert subject) (\<lambda>has.
     bindE (if has then storedCertLocked subject else ok None) (\<lambda>existing.
     if existing = Some cert then ok (importResult subject cert False)
     else
     bindE (SerialExists serialStr) (\<lambda>exists.
     if exists then fail ErrSerialExists
     else
     bindE (evictRevokedLocked subject) (\<lambda>_.
     bindE (SaveCert subject (PEM cert)) (\<lambda>_.
     bindE (attempt (AppendInventoryRecord
        (FormatInventoryLine serialStr (certNotBefore cert) (certNotAfter cert) subject))) (\<lambda>r.
     case r of
       Inl e \<Rightarrow>
         bindE (attempt (DeleteCert subject)) (\<lambda>_.
         fail (if errors_is e ErrDuplicateSerial then ErrSerialExists else e))
     | Inr _ \<Rightarrow>
         bindE (changeCA (indexSerialLocked serialStr subject)) (\<lambda>_.
         ok (importResult subject cert True))))))))"

text \<open>The second argument tells whether another block follows the first one.\<close>

definition ImportCertificate :: "string \<Rightarrow> Certificate pem \<Rightarrow> bool \<Rightarrow> ImportResult opr" where
  "ImportCertificate subject certPEM another =
     bindE (getsE (\<lambda>w. (CACert (wCA w), CAKey (wCA w)))) (\<lambda>(caCert, caKey).
     case (caCert, caKey) of
       (Some ca, Some _) \<Rightarrow>
         (case ValidateSubject subject of
            Inl _ \<Rightarrow> fail ErrImportInvalid
          | Inr _ \<Rightarrow>
              (case certPEM of
                 NotPEM \<Rightarrow> fail ErrImportInvalid
               | BadDER \<Rightarrow> fail ErrImportInvalid
               | PEM cert \<Rightarrow>
                   if another then fail ErrImportInvalid
                   else if \<not> certSignedBy ca cert then fail ErrImportInvalid
                   else if certBasicConstraints cert = Some True then fail ErrImportInvalid
                   else if \<not> certMatchesSubject cert subject then fail ErrImportInvalid
                   else if certSerialNumber cert \<le> 0 then fail ErrImportInvalid
                   else if \<not> certNotBefore cert < certNotAfter cert then fail ErrImportInvalid
                   else WithLock (LockSubject subject) (withMu (
                     importCertificateLocked subject (serialHexStr (certSerialNumber cert)) cert))))
     | _ \<Rightarrow> fail ErrNotInitialized)"

section \<open>Generation\<close>

definition ValidateKeyConfig :: "KeyConfig \<Rightarrow> unit res" where
  "ValidateKeyConfig cfg =
     (if Algo cfg \<in> {[], ''rsa''} then
        (if Size cfg \<in> {0, 2048, 3072, 4096} then Inr () else Inl (ErrOther ''unsupported RSA key size''))
      else if Algo cfg = ''ecdsa'' then
        (if Size cfg \<in> {0, 256, 384, 521} then Inr () else Inl (ErrOther ''unsupported ECDSA key size''))
      else Inl (ErrOther ''unsupported key algorithm''))"

definition DefaultLeafKeyConfig :: KeyConfig where
  "DefaultLeafKeyConfig = \<lparr>Algo = ''rsa'', Size = 2048\<rparr>"

definition leafKeyConfig :: "config \<Rightarrow> KeyConfig" where
  "leafKeyConfig cfg =
     (if Algo (LeafKeyConfig cfg) \<noteq> [] \<or> Size (LeafKeyConfig cfg) \<noteq> 0 then LeafKeyConfig cfg else DefaultLeafKeyConfig)"

definition generateKey :: "KeyConfig \<Rightarrow> PublicKey opr" where
  "generateKey cfg =
     bindE (lift (ValidateKeyConfig cfg)) (\<lambda>_.
     bindE (randInt (2 ^ 128)) (\<lambda>r.
     ok (if Algo cfg = ''ecdsa''
         then ECDSAKey (if Size cfg = 384 then P384 else if Size cfg = 521 then P521 else P256) (nat r)
         else RSAKey (if Size cfg = 0 then 4096 else nat (Size cfg)) (nat r))))"

record GenerateOptions =
  goDNSAltNames :: "string list"
  goAuthGrants :: "AuthGrant list"
  goTTL :: duration
  goReplaceExisting :: bool
  goRetainPrivateKeyInStorage :: bool
  goEmitKey :: bool \<comment> \<open>whether there is a receiver for the key, a call that may fail\<close>

record GenerateResult =
  grKey :: PublicKey
  grCertificate :: Certificate
  grReplaced :: bool

definition storedCertSerialLocked :: "string \<Rightarrow> string opr" where
  "storedCertSerialLocked subject =
     bindE (GetCert subject) (\<lambda>certPEM.
     case certPEM of
       NotPEM \<Rightarrow> fail (ErrOther ''stored certificate cannot be decoded'')
     | BadDER \<Rightarrow> fail (ErrOther ''stored certificate cannot be parsed'')
     | PEM cert \<Rightarrow> ok (serialHexStr (certSerialNumber cert)))"

text \<open>utf8.DecodeRune over a whole string, None where utf8.ValidString fails.\<close>

definition utf8_cont :: "nat \<Rightarrow> bool" where
  "utf8_cont b = (128 \<le> b \<and> b \<le> 191)"

fun utf8_runes :: "nat list \<Rightarrow> nat list option" where
  "utf8_runes [] = Some []"
| "utf8_runes (a # bs) =
     (if a < 128 then map_option ((#) a) (utf8_runes bs)
      else if 194 \<le> a \<and> a \<le> 223 then
        (case bs of
           b # r \<Rightarrow> if utf8_cont b then map_option ((#) ((a - 192) * 64 + (b - 128))) (utf8_runes r) else None
         | _ \<Rightarrow> None)
      else if 224 \<le> a \<and> a \<le> 239 then
        (case bs of
           b # c # r \<Rightarrow>
             if utf8_cont b \<and> utf8_cont c \<and> (a = 224 \<longrightarrow> 160 \<le> b) \<and> (a = 237 \<longrightarrow> b \<le> 159)
             then map_option ((#) ((a - 224) * 4096 + (b - 128) * 64 + (c - 128))) (utf8_runes r) else None
         | _ \<Rightarrow> None)
      else if 240 \<le> a \<and> a \<le> 244 then
        (case bs of
           b # c # d # r \<Rightarrow>
             if utf8_cont b \<and> utf8_cont c \<and> utf8_cont d \<and> (a = 240 \<longrightarrow> 144 \<le> b) \<and> (a = 244 \<longrightarrow> b \<le> 143)
             then map_option ((#) ((a - 240) * 262144 + (b - 128) * 4096 + (c - 128) * 64 + (d - 128))) (utf8_runes r)
             else None
         | _ \<Rightarrow> None)
      else None)"

definition validateKeyName :: "string \<Rightarrow> unit res" where
  "validateKeyName name =
     (if name = [] then Inl (ErrOther ''empty name'')
      else if contains name ''..'' then Inl (ErrOther ''contains ..'')
      else if contains name ''/'' then Inl (ErrOther ''contains /'')
      else case utf8_runes (map of_char name) of
        None \<Rightarrow> Inl (ErrOther ''not valid UTF-8'')
      | Some runes \<Rightarrow>
          if list_ex (\<lambda>r. r < 32 \<or> (127 \<le> r \<and> r \<le> 159)) runes then Inl (ErrOther ''contains control character'')
          else Inr ())"

definition SavePrivateKey :: "string \<Rightarrow> PublicKey \<Rightarrow> unit opr" where
  "SavePrivateKey subject key =
     bindE (lift (validateKeyName subject)) (\<lambda>_.
     localWrite (privateKeys_update (AList.update subject key)))"

text \<open>The serial to revoke first, if there is a certificate to replace.\<close>

definition generateRead :: "string \<Rightarrow> bool \<Rightarrow> string option opr" where
  "generateRead subject replaceExisting =
     bindE (HasCert subject) (\<lambda>has.
     if \<not> has then ok None
     else
       bindE loadCRLCache (\<lambda>_.
       if \<not> replaceExisting then ok None
       else bindE (storedCertSerialLocked subject) (\<lambda>s. ok (Some s))))"

definition generateIssue ::
    "string \<Rightarrow> GenerateOptions \<Rightarrow> PublicKey \<Rightarrow> string list \<Rightarrow> Extension list \<Rightarrow> bool \<Rightarrow> GenerateResult opr" where
  "generateIssue subject opts key dnsNames extra replacing =
     bindE (if replacing then loadCRLCache else ok ()) (\<lambda>_.
     bindE (evictRevokedLocked subject) (\<lambda>_.
     bindE (issueLeafLocked subject \<lparr>nmCommonName = subject, nmAttributes = [], nmUnmodelled = []\<rparr> key
        (noSANs\<lparr>sanDNSNames := dnsNames\<rparr>) extra [] (goTTL opts)) (\<lambda>cert.
     bindE (if \<not> goRetainPrivateKeyInStorage opts then ok ()
            else
              bindE (attempt (SavePrivateKey subject key)) (\<lambda>r.
              case r of
                Inr _ \<Rightarrow> ok ()
              | Inl e \<Rightarrow> bindE (attempt (DeleteCert subject)) (\<lambda>_. fail e))) (\<lambda>_.
     bindE (HasCSR subject) (\<lambda>pending.
     bindE (if pending then bindE (attempt (DeleteCSR subject)) (\<lambda>_. ok ()) else ok ()) (\<lambda>_.
     ok \<lparr>grKey = key, grCertificate = cert, grReplaced = replacing\<rparr>))))))"

text \<open>What runs under the lock on the subject: read, revoke, issue.\<close>

definition generateUnderLock ::
    "string \<Rightarrow> GenerateOptions \<Rightarrow> PublicKey \<Rightarrow> string list \<Rightarrow> Extension list \<Rightarrow> GenerateResult opr" where
  "generateUnderLock subject opts key dnsNames extra =
     bindE (withMu (generateRead subject (goReplaceExisting opts))) (\<lambda>retired.
     bindE (case retired of None \<Rightarrow> ok () | Some serial \<Rightarrow> WithLock LockCRL (withMu (revokeSerialLocked serial))) (\<lambda>_.
     withMu (generateIssue subject opts key dnsNames extra (retired \<noteq> None))))"

definition GenerateWithOptions :: "string \<Rightarrow> GenerateOptions \<Rightarrow> GenerateResult opr" where
  "GenerateWithOptions subject opts =
     bindE (lift (ValidateSubject subject)) (\<lambda>_.
     bindE (lift (CheckKeySubject subject)) (\<lambda>_.
     bindE (lift (validateDNSAltNames (goDNSAltNames opts))) (\<lambda>_.
     bindE (withMu (getsE (\<lambda>w. CACert (wCA w) \<noteq> None \<and> CAKey (wCA w) \<noteq> None))) (\<lambda>initialised.
     if \<not> initialised then fail ErrNotInitialized
     else
     bindE (lift (authGrantExtensions (goAuthGrants opts))) (\<lambda>extra.
     bindE (getsE wConfig) (\<lambda>cfg.
     bindE (generateKey (leafKeyConfig cfg)) (\<lambda>key.
     bindE (if goEmitKey opts then externalCall (Inr ()) else ok ()) (\<lambda>_.
     let dnsNames = (if PromoteCNToSAN cfg \<and> goDNSAltNames opts = [] then [subject] else goDNSAltNames opts) in
     WithLock (LockSubject subject) (generateUnderLock subject opts key dnsNames extra)))))))))"

definition Generate :: "string \<Rightarrow> string list \<Rightarrow> GenerateResult opr" where
  "Generate subject dnsAltNames =
     GenerateWithOptions subject
       \<lparr>goDNSAltNames = dnsAltNames, goAuthGrants = [], goTTL = 0, goReplaceExisting = False,
        goRetainPrivateKeyInStorage = True, goEmitKey = False\<rparr>"

section \<open>What both keep\<close>

lemma localWrite_rel:
  assumes "\<And>w. R w (updCA f w)" "step_relation R"
  shows "state_io_rel R (localWrite f)"
proof -
  note io = step_relation.io_bindE [OF assms(2)] step_relation.io_perform [OF assms(2)] step_relation.io_env [OF assms(2)]
    step_relation.io_pure [OF assms(2)] step_relation.io_changeCA [OF assms(2)]
  show ?thesis unfolding localWrite_def by (auto intro!: io assms(1) split: outcome.splits)
qed

text \<open>Reading the stored list again puts the cached one where it belongs.\<close>

lemma install_stored:
  assumes "cacheOk D w \<longrightarrow> storedOwn w = Some l"
  shows "crlStep D w (updCA (installCachedCRLLocked l) w)"
proof -
  have "storedOwn (updCA (installCachedCRLLocked l) w) = storedOwn w"
    and "leadTyped (updCA (installCachedCRLLocked l) w) = leadTyped w"
    by (simp_all add: storedOwn_def leadTyped_def)
  moreover have "ownsCRL (CACert (wCA w)) l" if "storedOwn w = Some l"
    using that own_parse by (auto simp: storedOwn_def ownOf_def split: option.splits sum.splits)
  ultimately have "cacheOk D w \<longrightarrow> cacheOk D (updCA (installCachedCRLLocked l) w)
      \<and> cacheForward D w (updCA (installCachedCRLLocked l) w)"
    using assms by (auto simp: cacheOk_def cacheForward_def)
  then show ?thesis by (simp add: crlStep_def sameId_def advanced_def ocspOk_install)
qed

lemma loadedCRL_stored:
  assumes "leadTyped w" "stCRL (wStore w) = Some b" "storedOwn w = Some k" "cbBlocks b = blk # bs" "blkCRL blk = Some crl"
  shows "loadedCRL (CACert (wCA w)) b crl = k"
proof -
  let ?c = "CACert (wCA w)"
  have p: "parseStoredBlob ?c b = Inr k"
    using assms(2,3) by (auto simp: storedOwn_def ownOf_def split: sum.splits)
  show ?thesis
  proof (cases "selectOwnCRL b ?c")
    case (Inl e)
    then show ?thesis using p assms(4,5)
      by (auto simp: parseStoredBlob_def loadedCRL_def selectOwnCRL_def split: sum.splits if_splits)
  next
    case (Inr sel)
    show ?thesis
    proof (cases sel)
      case None
      then show ?thesis using p assms(4,5) Inr
        by (auto simp: parseStoredBlob_def loadedCRL_def selectOwnCRL_def split: sum.splits if_splits)
    next
      case (Some x)
      have "x = k" using lead_select [OF assms(1-3)] Inr Some by simp
      then show ?thesis using p assms(4,5) Inr Some
        by (auto simp: parseStoredBlob_def loadedCRL_def selectOwnCRL_def split: sum.splits if_splits option.splits)
    qed
  qed
qed

lemma loadCRLCache_cases:
  assumes "run_state loadCRLCache w = (r, v)"
  obtains (refused) e where "r = Inl e" "sameState w v"
    | (loaded) u l where "r = Inr ()" "sameState w u" "v = updCA (installCachedCRLLocked l) u"
        "leadTyped w \<longrightarrow> (\<forall>k. storedOwn w = Some k \<longrightarrow> l = k)"
  using assms unfolding loadCRLCache_def
proof (cases rule: bindE_E)
  case (error e)
  then show ?thesis using refused backendRead_same unfolding GetCRL_def by blast
next
  case (step b u)
  have s: "sameState w u" and b: "stCRL (wStore w) = Some b"
    using step(1) unfolding GetCRL_def using backendRead_ok backendRead_same
    by (force simp: optionE_def split: option.splits)+
  then have ca: "CACert (wCA u) = CACert (wCA w)" by (simp add: sameState_def)
  show ?thesis
  proof (cases "\<exists>blk bs crl. cbBlocks b = blk # bs \<and> blkCRL blk = Some crl")
    case False
    then obtain e where "r = Inl e" "v = u" using step(2) by (auto simp: run_bindE split: list.splits option.splits)
    then show ?thesis using refused s by blast
  next
    case True
    then obtain blk bs crl where k: "cbBlocks b = blk # bs" "blkCRL blk = Some crl" by blast
    have "r = Inr ()" "v = updCA (installCachedCRLLocked (loadedCRL (CACert (wCA w)) b crl)) u"
      using step(2) k ca by (simp_all add: run_bindE)
    then show ?thesis using loaded [OF _ s] loadedCRL_stored [OF _ b _ k] by blast
  qed
qed

lemma step_loadCRLCache: "state_io_rel (crlStep D) loadCRLCache"
proof
  fix r w v assume "run_state loadCRLCache w = (r, v)"
  then show "crlStep D w v"
  proof (cases rule: loadCRLCache_cases)
    case (refused e)
    then show ?thesis by (simp add: cs.same)
  next
    case (loaded u l)
    have "storedOwn u = Some l" if "cacheOk D u"
      using that loaded(2,4) by (auto simp: cacheOk_def sameState_def storedOwn_def leadTyped_def)
    then show ?thesis using loaded(2,3) cs.trans [OF cs.same] install_stored by blast
  qed
qed

lemma owes_loadCRLCache: "state_io_rel owes loadCRLCache"
  unfolding loadCRLCache_def
  by (rule owes_other [OF step_loadCRLCache [unfolded loadCRLCache_def]])
    (auto intro!: os.io other_changeCA quiet_reads [THEN quiet_other] split: list.splits option.splits)

lemma ck_loadCRLCache: "state_io_rel cacheShrinks loadCRLCache"
  unfolding loadCRLCache_def by (auto intro!: ck_basic ck_install split: list.splits option.splits)

lemma quiet_storedSerial: "state_io_rel quiet (storedCertSerialLocked s)"
  unfolding storedCertSerialLocked_def by (auto intro!: quiet_io split: pem.splits)

lemma quiet_generateKey: "state_io_rel quiet (generateKey cfg)"
  unfolding generateKey_def by (intro quiet_io)

lemma quiet_savePrivateKey: "state_io_rel quiet (SavePrivateKey s key)"
  unfolding SavePrivateKey_def
  by (intro quiet_io localWrite_rel qt.step_relation_axioms) (simp add: quiet_def caFrame_def)

lemma quiet_serialExists: "state_io_rel quiet (SerialExists s)"
  unfolding SerialExists_def inventoryEntriesLocked_def by (intro quiet_io)

definition importEntry :: "string \<Rightarrow> Certificate \<Rightarrow> InventoryEntry" where
  "importEntry subject cert = \<lparr>ieSerial = serialHexStr (certSerialNumber cert),
     ieNotBefore = format_time (certNotBefore cert), ieNotAfter = format_time (certNotAfter cert), ieSubject = subject\<rparr>"

lemma importEntry_ok:
  "ValidateSubject subject = Inr () \<Longrightarrow> 0 < certSerialNumber cert \<Longrightarrow> entryOk (importEntry subject cert)"
  using ValidateSubject_plain [of subject] ValidateSubject_chars(1) [of subject] ValidateSubject_safe [of subject]
  by (auto simp: entryOk_def importEntry_def)

lemma import_line:
  "FormatInventoryLine (serialHexStr (certSerialNumber cert)) (certNotBefore cert) (certNotAfter cert) subject
     = canonicalInventoryLine (importEntry subject cert)"
  by (simp add: FormatInventoryLine_def importEntry_def)

lemma issue_import: "state_io_rel issueFrame (importCertificateLocked subject serialStr cert)"
  unfolding importCertificateLocked_def
  by (auto intro!: issue_io issue_duplicate issue_evict issue_quiet [OF quiet_serialExists] split: sum.splits)

lemma owes_Import: "state_io_rel owes (ImportCertificate subject q another)"
  unfolding ImportCertificate_def
  by (auto intro!: ow.io owes_issue [OF issue_import] split: option.splits sum.splits pem.splits)

lemma ck_evictRevoked: "state_io_rel cacheShrinks (evictRevokedLocked s)"
  unfolding evictRevokedLocked_def storedCertLocked_def revokedLocked_def by (auto intro!: ck_basic ck_saves)

lemma ck_Import: "state_io_rel cacheShrinks (ImportCertificate subject q another)"
  unfolding ImportCertificate_def importCertificateLocked_def storedCertLocked_def
  by (auto intro!: ck_basic ck_saves ck_evictRevoked ck_quiet [OF quiet_serialExists]
      split: option.splits sum.splits pem.splits)

lemma ik_evictRevoked: "state_io_rel inventoryKept (evictRevokedLocked s)"
  unfolding evictRevokedLocked_def storedCertLocked_def revokedLocked_def by (auto intro!: ik_basic)

lemma ik_import:
  assumes "ValidateSubject subject = Inr ()" "0 < certSerialNumber cert"
  shows "state_io_rel inventoryKept (importCertificateLocked subject (serialHexStr (certSerialNumber cert)) cert)"
  unfolding importCertificateLocked_def import_line storedCertLocked_def
  by (auto intro!: ik_basic ik_evictRevoked ik_quiet [OF quiet_serialExists] ik_append importEntry_ok [OF assms]
      split: sum.splits)

lemma ik_Import: "state_io_rel inventoryKept (ImportCertificate subject q another)"
  unfolding ImportCertificate_def
  by (auto intro!: ik_basic ik_import split: option.splits sum.splits pem.splits)

lemma queue_evictRevoked: "state_io_rel queueKept (evictRevokedLocked s)"
  unfolding evictRevokedLocked_def storedCertLocked_def revokedLocked_def by (auto intro!: queue_io)

lemma queue_Import: "state_io_rel queueKept (ImportCertificate subject q another)"
  unfolding ImportCertificate_def importCertificateLocked_def storedCertLocked_def
  by (auto intro!: queue_io queue_evictRevoked queue_quiet [OF quiet_serialExists] queue_inv [OF inv_append]
      split: option.splits sum.splits pem.splits)

lemma owes_generateParts:
  "state_io_rel owes (generateRead subject b)" "state_io_rel owes (generateIssue subject opts key dns extra replacing)"
  unfolding generateRead_def generateIssue_def
  by (auto intro!: owes_io owes_loadCRLCache owes_quiet [OF quiet_storedSerial] owes_quiet [OF quiet_savePrivateKey]
      owes_issue [OF issue_evict] split: option.splits sum.splits)

lemma owes_Generate: "state_io_rel owes (GenerateWithOptions subject opts)"
  unfolding GenerateWithOptions_def generateUnderLock_def
  by (auto intro!: owes_io owes_generateParts owes_quiet [OF quiet_generateKey] owes_revokeSerial
      simp: Let_def split: option.splits sum.splits)

lemma ck_Generate: "state_io_rel cacheShrinks (GenerateWithOptions subject opts)"
  unfolding GenerateWithOptions_def generateUnderLock_def generateRead_def generateIssue_def
  by (auto intro!: ck_basic ck_saves ck_leaf ck_loadCRLCache ck_evictRevoked ck_quiet [OF quiet_storedSerial]
      ck_quiet [OF quiet_generateKey] ck_quiet [OF quiet_savePrivateKey] simp: Let_def split: option.splits sum.splits)

lemma ik_loadCRLCache: "state_io_rel inventoryKept loadCRLCache"
  unfolding loadCRLCache_def by (auto intro!: ik_basic split: list.splits option.splits)

lemma ik_Generate: "state_io_rel inventoryKept (GenerateWithOptions subject opts)"
proof (cases "ValidateSubject subject = Inr ()")
  case True
  show ?thesis
    unfolding GenerateWithOptions_def generateUnderLock_def generateRead_def generateIssue_def
    by (auto intro!: ik_basic ik_leaf [OF True] ik_loadCRLCache ik_evictRevoked ik_quiet [OF quiet_storedSerial]
        ik_quiet [OF quiet_generateKey] ik_quiet [OF quiet_savePrivateKey] simp: Let_def split: option.splits sum.splits)
next
  case False
  then obtain e where "ValidateSubject subject = Inl e" by (cases "ValidateSubject subject") auto
  then show ?thesis unfolding GenerateWithOptions_def by (simp add: ik.io)
qed

lemma queue_Generate: "state_io_rel queueKept (GenerateWithOptions subject opts)"
  unfolding GenerateWithOptions_def generateUnderLock_def generateRead_def generateIssue_def loadCRLCache_def
  by (auto intro!: queue_io queue_leaf queue_evictRevoked queue_quiet [OF quiet_storedSerial]
      queue_quiet [OF quiet_generateKey] queue_quiet [OF quiet_savePrivateKey] queue_other [OF other_revokeSerial]
      simp: Let_def split: option.splits sum.splits list.splits)

section \<open>A successful import\<close>

text \<open>The last part of an import records a certificate the way issuance does.\<close>

definition importTail :: "string \<Rightarrow> Certificate \<Rightarrow> ImportResult opr" where
  "importTail subject cert =
     (let serialStr = serialHexStr (certSerialNumber cert) in
      bindE (SaveCert subject (PEM cert)) (\<lambda>_.
      bindE (attempt (AppendInventoryRecord
        (FormatInventoryLine serialStr (certNotBefore cert) (certNotAfter cert) subject))) (\<lambda>r.
      case r of
        Inl e \<Rightarrow>
          bindE (attempt (DeleteCert subject)) (\<lambda>_.
          fail (if errors_is e ErrDuplicateSerial then ErrSerialExists else e))
      | Inr _ \<Rightarrow>
          bindE (changeCA (indexSerialLocked serialStr subject)) (\<lambda>_.
          ok (importResult subject cert True)))))"

definition importTemplate :: "Certificate \<Rightarrow> CertTemplate" where
  "importTemplate cert =
     \<lparr>tplSerialNumber = certSerialNumber cert, tplSubject = certSubject cert, tplNotBefore = certNotBefore cert,
      tplNotAfter = certNotAfter cert, tplExtKeyUsage = [], tplSubjectKeyId = KeyIdOf (certPublicKey cert),
      tplSANs = noSANs, tplCRLDistributionPoints = [], tplExtraExtensions = []\<rparr>"

lemma import_entry: "leafEntry subject (importTemplate cert) = importEntry subject cert"
  by (simp add: leafEntry_def importTemplate_def importEntry_def)

lemma import_tail:
  "importCertificateLocked subject (serialHexStr (certSerialNumber cert)) cert =
     bindE (HasCert subject) (\<lambda>has.
     bindE (if has then storedCertLocked subject else ok None) (\<lambda>existing.
     if existing = Some cert then ok (importResult subject cert False)
     else
     bindE (SerialExists (serialHexStr (certSerialNumber cert))) (\<lambda>exists.
     if exists then fail ErrSerialExists
     else bindE (evictRevokedLocked subject) (\<lambda>_. importTail subject cert))))"
  unfolding importCertificateLocked_def importTail_def Let_def by (rule refl)

lemma tail_records:
  "run_state (importTail subject cert) w = (Inr res, v) \<longleftrightarrow>
     run_state (recordLeaf subject (importTemplate cert) cert) w = (Inr cert, v) \<and> res = importResult subject cert True"
  by (auto simp: importTail_def recordLeaf_def importTemplate_def run_bindE run_attempt Let_def
      split: prod.splits sum.splits)

lemma storedCert_reads:
  assumes "run_state (storedCertLocked subject) w = (Inr (Some cert), v)"
  shows "map_of (stCerts (wStore w)) subject = Some (PEM cert)"
  using assms
  by (auto simp: storedCertLocked_def GetCert_def run_bindE run_attempt lookupE_def dest!: backendRead_ok
      split: prod.splits sum.splits pem.splits option.splits)

lemma co_evict: "state_io_rel certsOnly (evictRevokedLocked s)"
  unfolding evictRevokedLocked_def storedCertLocked_def revokedLocked_def HasCert_def orFalse_def CertExists_def
    GetCert_def DeleteCert_def
  by (auto intro!: co.io co_delete [unfolded DeleteCert_def] split: option.splits)

lemma importLocked_cases:
  assumes "run_state (importCertificateLocked subject (serialHexStr (certSerialNumber cert)) cert) w = (Inr res, v)"
  obtains (kept) "res = importResult subject cert False" "wStore v = wStore w"
        "map_of (stCerts (wStore w)) subject = Some (PEM cert)"
    | (recorded) u where "res = importResult subject cert True" "stInventory (wStore u) = stInventory (wStore w)"
        "run_state (recordLeaf subject (importTemplate cert) cert) u = (Inr cert, v)"
proof -
  obtain has a where a: "run_state (HasCert subject) w = (Inr has, a)"
    and ra: "run_state (bindE (if has then storedCertLocked subject else ok None) (\<lambda>existing.
     if existing = Some cert then ok (importResult subject cert False)
     else
     bindE (SerialExists (serialHexStr (certSerialNumber cert))) (\<lambda>exists.
     if exists then fail ErrSerialExists
     else bindE (evictRevokedLocked subject) (\<lambda>_. importTail subject cert)))) a = (Inr res, v)"
    using assms unfolding import_tail by (rule bindE_okE)
  from ra obtain ex b where b: "run_state (if has then storedCertLocked subject else ok None) a = (Inr ex, b)"
    and rb: "run_state (if ex = Some cert then ok (importResult subject cert False)
     else
     bindE (SerialExists (serialHexStr (certSerialNumber cert))) (\<lambda>exists.
     if exists then fail ErrSerialExists
     else bindE (evictRevokedLocked subject) (\<lambda>_. importTail subject cert))) b = (Inr res, v)"
    by (rule bindE_okE)
  have q: "quiet w a" by (rule state_io_relD [OF quiet_has(1) a])
  have "state_io_rel quiet (if has then storedCertLocked subject else ok None)"
    unfolding storedCertLocked_def by (auto intro!: quiet_io)
  then have qb: "quiet w b" using qt.trans [OF q] state_io_relD [OF _ b] by blast
  show ?thesis
  proof (cases "ex = Some cert")
    case True
    then have "map_of (stCerts (wStore a)) subject = Some (PEM cert)"
      using b storedCert_reads by (auto split: if_splits)
    then show ?thesis using kept rb True q qb by (simp add: quiet_def)
  next
    case False
    with rb obtain c d where c: "run_state (SerialExists (serialHexStr (certSerialNumber cert))) b = (Inr False, c)"
      and d: "run_state (evictRevokedLocked subject) c = (Inr (), d)" "run_state (importTail subject cert) d = (Inr res, v)"
      by (auto elim!: bindE_okE split: if_splits)
    have "stInventory (wStore d) = stInventory (wStore w)"
      using state_io_relD [OF co_evict d(1)] state_io_relD [OF quiet_serialExists c] qb by (simp add: certsOnly_def quiet_def)
    then show ?thesis using recorded d(2) by (simp add: tail_records)
  qed
qed

lemma Import_ok:
  assumes "run_state (ImportCertificate subject q another) w = (Inr res, v)"
  obtains ca cert x y where "q = PEM cert" "\<not> another" "CACert (wCA w) = Some ca" "certSignedBy ca cert"
    "certBasicConstraints cert \<noteq> Some True" "certMatchesSubject cert subject" "0 < certSerialNumber cert"
    "certNotBefore cert < certNotAfter cert" "ValidateSubject subject = Inr ()" "sameState w x" "sameState y v"
    "run_state (importCertificateLocked subject (serialHexStr (certSerialNumber cert)) cert) x = (Inr res, y)"
proof -
  from assms obtain ca k where ca: "CACert (wCA w) = Some ca" "CAKey (wCA w) = Some k"
    by (auto simp: ImportCertificate_def run_bindE split: option.splits)
  from assms obtain cert where c: "q = PEM cert" "ValidateSubject subject = Inr ()"
    by (auto simp: ImportCertificate_def run_bindE ca split: sum.splits pem.splits)
  note simps = assms [unfolded ImportCertificate_def, simplified run_bindE run_simps ca c prod.case option.case sum.case pem.case]
  have g: "\<not> another" "certSignedBy ca cert" "certBasicConstraints cert \<noteq> Some True" "certMatchesSubject cert subject"
    "0 < certSerialNumber cert" "certNotBefore cert < certNotAfter cert"
    and r: "run_state (WithLock (LockSubject subject) (withMu (importCertificateLocked subject
        (serialHexStr (certSerialNumber cert)) cert))) w = (Inr res, v)"
    using simps by (auto split: if_splits)
  from r show ?thesis
  proof (cases rule: WithLock_cases)
    case (ran a a')
    from ran(2) obtain x y where "sameState a x" "sameState y a'"
      "run_state (importCertificateLocked subject (serialHexStr (certSerialNumber cert)) cert) x = (Inr res, y)"
      by (rule withMu_cases)
    then show ?thesis using that [OF c(1) g(1) ca(1) g(2-6) c(2)] ran(1,3) sameState_trans by blast
  qed simp
qed

text \<open>An import into a store that answers and has neither the subject nor the serial.\<close>

lemma live_import:
  assumes "faultless w" "CACert (wCA w) = Some ca" "CAKey (wCA w) = Some k" "ValidateSubject subject = Inr ()"
    and "certSignedBy ca cert" "certBasicConstraints cert \<noteq> Some True" "certMatchesSubject cert subject"
    and "0 < certSerialNumber cert" "certNotBefore cert < certNotAfter cert" "map_of (stCerts (wStore w)) subject = None"
    and "serialHexStr (certSerialNumber cert) \<notin> ieSerial ` set (storeEntries (wStore w))"
  obtains v where "run_state (ImportCertificate subject (PEM cert) False) w = (Inr (importResult subject cert True), v)"
proof -
  let ?u = "enterLock LockMu (enterLock (LockSubject subject) w)"
  have u: "faultless ?u" "map_of (stCerts (wStore ?u)) subject = None" "storeEntries (wStore ?u) = storeEntries (wStore w)"
    using assms(1,10) by (simp_all add: faultless_def)
  have has: "run_state (HasCert subject) ?u = (Inr False, ?u)"
    using u(1,2) by (simp add: HasCert_def orFalse_def CertExists_def run_bindE run_attempt live)
  have ex: "run_state (SerialExists (serialHexStr (certSerialNumber cert))) ?u = (Inr False, ?u)"
    using u(1,3) assms(11) by (auto simp: SerialExists_def inventoryEntriesLocked_def run_bindE live list_ex_iff image_iff)
  obtain v where "run_state (recordLeaf subject (importTemplate cert) cert) ?u = (Inr cert, v)"
    using live_record [of ?u subject "importTemplate cert" cert] u assms(4,8,11) by (auto simp: importTemplate_def)
  then have "run_state (importTail subject cert) ?u = (Inr (importResult subject cert True), v)" by (simp add: tail_records)
  then have "run_state (importCertificateLocked subject (serialHexStr (certSerialNumber cert)) cert) ?u
      = (Inr (importResult subject cert True), v)"
    using has ex by (simp add: import_tail run_bindE evictRevokedLocked_def)
  then show ?thesis
    using that assms by (simp add: ImportCertificate_def run_bindE [of "getsE f" for f] live)
qed

text \<open>
  C26. An imported certificate is vouched for.  If an import succeeds, the certificate was
  signed by this CA's key, is not a CA certificate, names the subject it is filed under and
  is now the one stored for it.  Either it was there already and nothing was written, or its
  serial was not in the inventory before, is exactly one new entry of it now, and is known
  to the OCSP responder.
\<close>

theorem import_is_vouched:
  assumes "run_state (ImportCertificate subject q another) w = (Inr res, v)" "invOk (wStore w)"
  shows "\<exists>ca cert. q = PEM cert \<and> CACert (wCA w) = Some ca \<and> certSignedBy ca cert \<and> certBasicConstraints cert \<noteq> Some True
     \<and> certMatchesSubject cert subject \<and> map_of (stCerts (wStore v)) subject = Some (PEM cert)
     \<and> (if irImported res
        then appended (importEntry subject cert) (wStore w) (wStore v)
          \<and> map_of (serialIndex (wCA v)) (serialHexStr (certSerialNumber cert)) = Some subject
        else wStore v = wStore w)"
proof -
  from assms(1) obtain ca cert x y where c: "q = PEM cert" "\<not> another" "CACert (wCA w) = Some ca" "certSignedBy ca cert"
    "certBasicConstraints cert \<noteq> Some True" "certMatchesSubject cert subject" "0 < certSerialNumber cert"
    "certNotBefore cert < certNotAfter cert" "ValidateSubject subject = Inr ()" "sameState w x" "sameState y v"
    "run_state (importCertificateLocked subject (serialHexStr (certSerialNumber cert)) cert) x = (Inr res, y)"
    by (rule Import_ok)
  have st: "wStore x = wStore w" "wStore v = wStore y" "wCA v = wCA y" using c(10,11) by (simp_all add: sameState_def)
  from c(12) show ?thesis
  proof (cases rule: importLocked_cases)
    case kept
    then show ?thesis using c st by (simp add: importResult_def)
  next
    case (recorded u)
    have "0 \<le> tplSerialNumber (importTemplate cert)" using c(7) by (simp add: importTemplate_def)
    note r = recordLeaf_ok [OF recorded(3) c(9) this]
    have "invOk (wStore u)" using assms(2) st(1) recorded(2) invOk_cong(1) by metis
    then have "appended (importEntry subject cert) (wStore w) (wStore v)"
      using r(5) invOk_cong(2) [OF recorded(2)] st by (simp add: import_entry)
    then show ?thesis using c r(2,3) st recorded(1) by (simp add: importResult_def importTemplate_def)
  qed
qed

theorem import_is_vouched_witness:
  "\<exists>v. run_state (ImportCertificate ''a'' (PEM (sampleLeaf 9)) False) (sampleWith 1 [])
       = (Inr (importResult ''a'' (sampleLeaf 9) True), v)
     \<and> appended (importEntry ''a'' (sampleLeaf 9)) (wStore (sampleWith 1 [])) (wStore v)"
proof -
  let ?w = "sampleWith 1 []"
  have w: "CACert (wCA ?w) = Some sampleCACert" "CAKey (wCA ?w) = Some sampleKey" "storeEntries (wStore ?w) = []"
    "map_of (stCerts (wStore ?w)) ''a'' = None" "faultless ?w" "invOk (wStore ?w)"
    by (simp_all add: sampleWith_def sample_defs storeEntries_def faultless_def invOk_def terminated_def storeBlob_def
        parseInventoryBlob_def parseInventoryBlobCounting_def go_string)
  obtain v where v: "run_state (ImportCertificate ''a'' (PEM (sampleLeaf 9)) False) ?w
      = (Inr (importResult ''a'' (sampleLeaf 9) True), v)"
    using live_import [OF w(5,1,2) sample_subject sample_signed [of 9]] w(3,4)
    by (auto simp: certMatchesSubject_def sampleLeaf_def sampleName_def certBasicConstraints_def extValueOf_def second_def)
  from import_is_vouched [OF this w(6)] v show ?thesis by (auto simp: importResult_def)
qed

section \<open>A successful generation\<close>

text \<open>A computation that leaves a faultless environment faultless.\<close>

definition benign :: "'a opr \<Rightarrow> bool" where
  "benign m = (\<forall>w r v. run_state m w = (r, v) \<longrightarrow> faultless w \<longrightarrow> faultless v)"

lemma benignD: "benign m \<Longrightarrow> run_state m w = (r, v) \<Longrightarrow> faultless w \<Longrightarrow> faultless v"
  unfolding benign_def by blast

lemma benign_basic:
  "benign (ok x)" "benign (fail e)" "benign (lift r)" "benign (getsE f)" "benign (changeCA g)" "benign (randInt k)"
  "benign (backendRead h)" "benign (externalCall q)"
  by (auto simp: benign_def faultless_def randInt_def externalCall_def backendRead_def nextOutcome_def
      split: list.splits)

lemma benign_bindE: "benign m \<Longrightarrow> (\<And>x. benign (f x)) \<Longrightarrow> benign (bindE m f)"
  unfolding benign_def by (metis bindE_E)

lemma benign_lock: "benign fn \<Longrightarrow> benign (withMu fn)" "benign fn \<Longrightarrow> benign (WithLock n fn)"
  by (auto simp: benign_def live_mu live_lock split: prod.splits)

lemma benign_attempt: "benign m \<Longrightarrow> benign (attempt m)"
  unfolding benign_def by (metis attemptE)

lemmas benign_io = benign_basic benign_bindE benign_lock benign_attempt

lemma benign_load: "benign loadCRLCache"
  unfolding loadCRLCache_def GetCRL_def by (auto intro!: benign_io split: list.splits option.splits)

lemma benign_read: "benign (generateRead subject b)"
  unfolding generateRead_def HasCert_def orFalse_def CertExists_def storedCertSerialLocked_def GetCert_def
  by (auto intro!: benign_io benign_load split: pem.splits)

lemma underLock_parts:
  assumes "run_state (generateUnderLock subject opts key dns extra) w = (Inr res, v)"
  obtains retired x y z where
    "run_state (generateRead subject (goReplaceExisting opts)) (enterLock LockMu w) = (Inr retired, x)"
    "run_state (case retired of None \<Rightarrow> ok () | Some serial \<Rightarrow> WithLock LockCRL (withMu (revokeSerialLocked serial)))
      (leaveLock x) = (Inr (), y)"
    "run_state (generateIssue subject opts key dns extra (retired \<noteq> None)) (enterLock LockMu y) = (Inr res, z)"
    "v = leaveLock z"
  using assms unfolding generateUnderLock_def
  by (auto simp: live_mu elim!: bindE_okE split: prod.splits)

lemma Generate_parts:
  assumes "run_state (GenerateWithOptions subject opts) w = (Inr res, v)"
  obtains key dns extra x y where "ValidateSubject subject = Inr ()" "quiet w x" "faultless w \<longrightarrow> faultless x"
    "run_state (generateUnderLock subject opts key dns extra) x = (Inr res, y)" "sameState y v"
proof -
  from assms obtain extra key dns a b c where vs: "ValidateSubject subject = Inr ()"
    and a: "run_state (withMu (getsE (\<lambda>w. CACert (wCA w) \<noteq> None \<and> CAKey (wCA w) \<noteq> None))) w = (Inr True, a)"
    and b: "run_state (generateKey (leafKeyConfig (wConfig a))) a = (Inr key, b)"
    and c: "run_state (if goEmitKey opts then externalCall (Inr ()) else ok ()) b = (Inr (), c)"
    and r: "run_state (WithLock (LockSubject subject) (generateUnderLock subject opts key dns extra)) c = (Inr res, v)"
    unfolding GenerateWithOptions_def Let_def by (auto elim!: bindE_okE split: if_splits)
  have wa: "quiet w a" "faultless w \<longrightarrow> faultless a"
    using a benignD [OF _ a] benign_io by (auto simp: live_mu qt.same sameState_def)
  have ab: "quiet a b" "faultless a \<longrightarrow> faultless b"
    using state_io_relD [OF quiet_generateKey b] benignD [OF _ b] by (auto simp: generateKey_def intro!: benign_io)
  have "state_io_rel quiet (if goEmitKey opts then externalCall (Inr ()) else ok ())"
    "benign (if goEmitKey opts then externalCall (Inr ()) else ok ())" by (auto intro!: quiet_io benign_io)
  from state_io_relD [OF this(1) c] benignD [OF this(2) c] have bc: "quiet b c" "faultless b \<longrightarrow> faultless c" by auto
  have wc: "quiet w c" "faultless w \<longrightarrow> faultless c" using qt.trans wa ab bc by blast+
  obtain out c' where o: "run_state nextOutcome c = (out, c')" by fastforce
  have oc: "sameState c c'" "faultless c \<longrightarrow> faultless c'"
    using nextOutcome_same [OF o] o by (auto simp: nextOutcome_def faultless_def split: list.splits)
  let ?x = "enterLock (LockSubject subject) c'"
  from r o obtain d where d: "run_state (generateUnderLock subject opts key dns extra) ?x = (Inr res, d)" "v = leaveLock d"
    by (auto simp: WithLock_def split: outcome.splits prod.splits)
  have "quiet w ?x" "faultless w \<longrightarrow> faultless ?x"
    using qt.trans [OF wc(1) qt.same] oc wc(2) by (auto simp: sameState_def faultless_def)
  then show ?thesis using that [OF vs _ _ d(1)] d(2) by simp
qed

text \<open>The certificate the subject had is on the list before its successor is issued.\<close>

lemma ss_has: "state_io_rel sameState (HasCert s)"
  unfolding HasCert_def orFalse_def CertExists_def by (intro ss.io)

lemma live_has:
  "faultless w \<Longrightarrow> run_state (HasCert s) w = (Inr (map_of (stCerts (wStore w)) s \<noteq> None), w)"
  by (simp add: HasCert_def orFalse_def CertExists_def run_bindE run_attempt live)

lemma storedSerial_reads:
  assumes "run_state (storedCertSerialLocked subject) w = (Inr s, v)"
  shows "sameState w v" "map_of (stCerts (wStore w)) subject = Some (PEM old) \<Longrightarrow> s = serialHexStr (certSerialNumber old)"
proof -
  have "state_io_rel sameState (storedCertSerialLocked subject)"
    unfolding storedCertSerialLocked_def GetCert_def by (auto intro!: ss.io split: pem.splits)
  then show "sameState w v" using assms state_io_relD by fastforce
  show "map_of (stCerts (wStore w)) subject = Some (PEM old) \<Longrightarrow> s = serialHexStr (certSerialNumber old)"
    using assms by (auto simp: storedCertSerialLocked_def GetCert_def lookupE_def optionE_def elim!: bindE_okE
        dest!: backendRead_ok split: pem.splits option.splits)
qed

lemma read_retires:
  assumes "run_state (generateRead subject b) w = (Inr retired, v)" "map_of (stCerts (wStore w)) subject = Some (PEM old)"
  shows "wStore v = wStore w \<and> (\<forall>s. retired = Some s \<longrightarrow> s = serialHexStr (certSerialNumber old))
    \<and> (faultless w \<longrightarrow> cacheOk {} w \<longrightarrow> cachedCRL (wCA v) = storedOwn w)"
proof -
  from assms(1) obtain has u where u: "run_state (HasCert subject) w = (Inr has, u)"
    and t: "run_state (if \<not> has then ok None else bindE loadCRLCache (\<lambda>_. if \<not> b then ok None
      else bindE (storedCertSerialLocked subject) (\<lambda>s. ok (Some s)))) u = (Inr retired, v)"
    unfolding generateRead_def by (rule bindE_okE)
  have s: "sameState w u" using state_io_relD [OF ss_has u] by simp
  show ?thesis
  proof (cases has)
    case False
    then show ?thesis using t s u assms(2) by (auto simp: live_has sameState_def)
  next
    case True
    with t obtain x where x: "run_state loadCRLCache u = (Inr (), x)"
      and r: "run_state (if \<not> b then ok None else bindE (storedCertSerialLocked subject) (\<lambda>s. ok (Some s))) x = (Inr retired, v)"
      by (auto elim: bindE_okE)
    have xs: "wStore x = wStore w" "cacheOk {} w \<longrightarrow> cachedCRL (wCA x) = storedOwn w"
      using x s by (auto elim!: loadCRLCache_cases simp: sameState_def cacheOk_def storedOwn_def leadTyped_def)
    have "sameState x v \<and> (\<forall>s. retired = Some s \<longrightarrow> s = serialHexStr (certSerialNumber old))"
      using r assms(2) storedSerial_reads xs(1) by (fastforce elim!: bindE_okE split: if_splits)
    then show ?thesis using xs by (auto simp: sameState_def)
  qed
qed

lemma evict_needs_list:
  assumes "run_state (evictRevokedLocked subject) w = (Inr (), v)" "faultless w"
    "map_of (stCerts (wStore w)) subject = Some (PEM old)" "cachedCRL (wCA w) = storedOwn w"
  shows "onList w (certSerialNumber old)"
  using assms
  by (auto simp: evictRevokedLocked_def live_has run_bindE storedCertLocked_def GetCert_def run_attempt live revokedLocked_def
      lookupE_def optionE_def onList_def serialInCRL_def list_ex_iff revokedSerials_def
      split: option.splits if_splits intro: rev_image_eqI)

lemma issue_needs_list:
  assumes "run_state (generateIssue subject opts key dns extra replacing) w = (Inr res, v)" "ValidateSubject subject = Inr ()"
  shows "grReplaced res = replacing \<and> map_of (stCerts (wStore v)) subject = Some (PEM (grCertificate res))
    \<and> (faultless w \<longrightarrow> \<not> replacing \<longrightarrow> cachedCRL (wCA w) = storedOwn w \<longrightarrow> map_of (stCerts (wStore w)) subject = Some (PEM old)
     \<longrightarrow> onList w (certSerialNumber old))"
proof -
  let ?save = "if \<not> goRetainPrivateKeyInStorage opts then ok () else bindE (attempt (SavePrivateKey subject key)) (\<lambda>r.
      case r of Inr _ \<Rightarrow> ok () | Inl e \<Rightarrow> bindE (attempt (DeleteCert subject)) (\<lambda>_. fail e))"
  let ?drop = "\<lambda>pending. if pending then bindE (attempt (DeleteCSR subject)) (\<lambda>_. ok ()) else ok ()"
  from assms(1) obtain a b cert c d p e f where
    a: "run_state (if replacing then loadCRLCache else ok ()) w = (Inr (), a)"
    and b: "run_state (evictRevokedLocked subject) a = (Inr (), b)"
    and c: "run_state (issueLeafLocked subject \<lparr>nmCommonName = subject, nmAttributes = [], nmUnmodelled = []\<rparr> key
        (noSANs\<lparr>sanDNSNames := dns\<rparr>) extra [] (goTTL opts)) b = (Inr cert, c)"
    and d: "run_state ?save c = (Inr (), d)" and e: "run_state (HasCSR subject) d = (Inr p, e)"
    and f: "run_state (?drop p) e = (Inr (), v)" and res: "res = \<lparr>grKey = key, grCertificate = cert, grReplaced = replacing\<rparr>"
    unfolding generateIssue_def by (elim bindE_okE) auto
  have "map_of (stCerts (wStore c)) subject = Some (PEM cert)" using c assms(2) by (rule issueLeaf_ok)
  moreover have "wStore d = wStore c" using d state_io_relD [OF quiet_savePrivateKey]
    by (auto simp: quiet_def elim!: bindE_okE attemptE split: if_splits sum.splits)
  moreover have "state_io_rel sameState (HasCSR subject)" unfolding HasCSR_def orFalse_def CSRExists_def by (intro ss.io)
  then have "wStore e = wStore d" using state_io_relD e by (fastforce simp: sameState_def)
  moreover have "stCerts (wStore v) = stCerts (wStore e)"
    using f by (auto simp: DeleteCSR_def sameState_def elim!: bindE_okE attemptE backendWrite_cases split: if_splits)
      (metis store.select_convs(3) store.surjective store.update_convs(2))+
  ultimately show ?thesis using res a b evict_needs_list by auto
qed

lemma onList_cong:
  "CACert (wCA v) = CACert (wCA w) \<Longrightarrow> stCRL (wStore v) = stCRL (wStore w) \<Longrightarrow> onList v n = onList w n"
  by (simp add: onList_def storedOwn_def)

lemma owes_step: "state_io_rel owes m \<Longrightarrow> run_state m w = (r, v) \<Longrightarrow> crlStep {} w v \<and> sameId w v"
  using state_io_relD by (fastforce simp: owes_def crlStep_def)

text \<open>Either way the old serial is listed when the issue phase begins.\<close>

lemma retired_first:
  assumes a: "run_state (generateRead subject b) (enterLock LockMu w) = (Inr retired, u)"
    and b: "run_state (case retired of None \<Rightarrow> ok () | Some serial \<Rightarrow> WithLock LockCRL (withMu (revokeSerialLocked serial)))
      (leaveLock u) = (Inr (), v)"
    and c: "run_state (generateIssue subject opts key dns extra (retired \<noteq> None)) (enterLock LockMu v) = (Inr res, x)"
    and k: "keyOk (wCA w)" "cacheOk {} w" "ValidateSubject subject = Inr ()"
    and old: "map_of (stCerts (wStore w)) subject = Some (PEM old)" "0 \<le> certSerialNumber old"
    and sure: "faultless w \<or> retired \<noteq> None"
  shows "onList v (certSerialNumber old)"
proof -
  have eq: "cacheOk {} (enterLock LockMu w)" using k(2) by (simp add: cacheOk_def leadTyped_def storedOwn_def)
  note r = read_retires [OF a, of old]
  have id: "sameId w u" using owes_step [OF owes_generateParts(1) a] by (simp add: sameId_def)
  show ?thesis
  proof (cases retired)
    case None
    have f: "faultless w" "faultless u" using sure None benignD [OF benign_read a] by (simp_all add: faultless_def)
    have v: "v = leaveLock u" using b None by simp
    have "cachedCRL (wCA u) = storedOwn u" using r f(1) eq old(1) id by (simp add: faultless_def storedOwn_def sameId_def)
    then have "onList (enterLock LockMu v) (certSerialNumber old)"
      using issue_needs_list [OF c k(3), of old] None f(2) v r old(1) by (simp add: faultless_def storedOwn_def)
    then show ?thesis using onList_cong [of v "enterLock LockMu v"] by simp
  next
    case (Some s)
    have s: "s = serialHexStr (certSerialNumber old)" using r old(1) Some by simp
    from b Some obtain y z where y: "sameState (leaveLock u) y" "run_state (revokeSerialLocked s) (enterLock LockMu y) = (Inr (), z)"
      "sameState z v" by (auto simp: live_mu sameState_def elim!: WithLock_cases split: prod.splits)
    have "keyOk (wCA (enterLock LockMu y))" using k(1) id y(1) by (simp add: keyOk_def sameId_def sameState_def)
    with y(2) obtain n where "set_string16 s = Some n" "onList z n" by (rule revokeSerialLocked_ok)
    then show ?thesis using s old(2) y(3) onList_cong [of v z] by (simp add: sameState_def)
  qed
qed

definition demoOptions :: GenerateOptions where
  "demoOptions = \<lparr>goDNSAltNames = [], goAuthGrants = [], goTTL = 0, goReplaceExisting = False,
     goRetainPrivateKeyInStorage = False, goEmitKey = False\<rparr>"

lemma live_loadCRLCache:
  assumes "faultless w" "stCRL (wStore w) = Some (encodeCRLChain [l])" "ownsCRL (CACert (wCA w)) l"
  shows "run_state loadCRLCache w = (Inr (), updCA (installCachedCRLLocked l) w)"
proof -
  have "loadedCRL (CACert (wCA w)) (encodeCRLChain [l]) l = l"
    using ownCRLIn_lead [OF assms(3), of "[]"] crl.irrefl by (simp add: loadedCRL_def)
  then show ?thesis using assms(1,2)
    by (simp add: loadCRLCache_def GetCRL_def run_bindE live optionE_def encodeCRLChain_def)
qed

text \<open>A subject whose certificate is revoked gets a new one.\<close>

lemma live_generateIssue:
  assumes "faultless w" "CACert (wCA w) = Some ca" "CAKey (wCA w) = Some (certPublicKey ca)"
    and "ValidateSubject subject = Inr ()" "validatePublicKey key = Inr ()" "nextSerial w = Some n"
    and "serialHexStr n \<notin> ieSerial ` set (storeEntries (wStore w))" "0 < time_sub (certNotAfter ca) (clockOf w)"
    and "map_of (stCerts (wStore w)) subject = Some (PEM old)" "cachedCRL (wCA w) = Some l" "serialInCRL l (certSerialNumber old)"
  obtains res v where "run_state (generateIssue subject demoOptions key dns extra False) w = (Inr res, v)"
proof -
  let ?u = "w\<lparr>wStore := (wStore w)\<lparr>stCerts := AList.delete subject (stCerts (wStore w))\<rparr>\<rparr>"
  have e: "run_state (evictRevokedLocked subject) w = (Inr (), ?u)"
    using assms(1,9-11) by (simp add: evictRevokedLocked_def live_has run_bindE storedCertLocked_def GetCert_def run_attempt live
        lookupE_def revokedLocked_def DeleteCert_def deleteE_def)
  have "clockOf ?u = clockOf w" "nextSerial ?u = nextSerial w" "faultless ?u" "storeEntries (wStore ?u) = storeEntries (wStore w)"
    using assms(1) by (simp_all add: clockOf_def nextSerial_def faultless_def storeEntries_def split: list.splits)
  then obtain cert v where "run_state (issueLeafLocked subject \<lparr>nmCommonName = subject, nmAttributes = [], nmUnmodelled = []\<rparr> key
        (noSANs\<lparr>sanDNSNames := dns\<rparr>) extra [] 0) ?u = (Inr cert, v)" "faultless v"
    using live_issue [of ?u ca subject key n _ "noSANs\<lparr>sanDNSNames := dns\<rparr>" extra "[]" 0] assms(2-8) by auto
  moreover obtain y where "run_state (if \<exists>y. map_of (stCSRs (wStore v)) subject = Some y
      then bindE (attempt (DeleteCSR subject)) (\<lambda>_. ok ()) else ok ()) v = (Inr (), y)"
    by (cases "run_state (DeleteCSR subject) v"; cases "map_of (stCSRs (wStore v)) subject") (simp_all add: run_bindE run_attempt)
  ultimately show ?thesis using e that
    by (simp add: generateIssue_def demoOptions_def run_bindE run_attempt HasCSR_def orFalse_def CSRExists_def live)
qed

definition sampleGen :: world where
  "sampleGen = (sampleIssued 1 [1])\<lparr>wEnv := sampleEnv\<lparr>eRand := [2, 5]\<rparr>\<rparr>"

lemma sampleGen_runs:
  obtains res v where "run_state (GenerateWithOptions ''a'' demoOptions) sampleGen = (Inr res, v)"
proof -
  let ?x = "enterLock (LockSubject ''a'') (updEnv (eRand_update (\<lambda>_. [5])) sampleGen)"
  let ?a = "updCA (installCachedCRLLocked (sampleCRL 1 [1])) (enterLock LockMu ?x)"
  let ?b = "enterLock LockMu (leaveLock ?a)"
  have g: "wConfig sampleGen = sampleConfig" "wStore sampleGen = wStore (sampleIssued 1 [1])" "wEnv sampleGen = sampleEnv\<lparr>eRand := [2, 5]\<rparr>"
    "CACert (wCA sampleGen) = Some sampleCACert" "CAKey (wCA sampleGen) = Some sampleKey" "faultless ?x" "faultless (updEnv (eRand_update (\<lambda>_. [5])) sampleGen)"
    by (simp_all add: sampleGen_def sampleIssued_def sampleWith_def sample_defs faultless_def)
  have l: "run_state loadCRLCache (enterLock LockMu ?x) = (Inr (), ?a)"
    by (rule live_loadCRLCache) (use g in \<open>simp_all add: sampleIssued_parts\<close>)
  have "run_state (HasCert ''a'') (enterLock LockMu ?x) = (Inr True, enterLock LockMu ?x)"
    using g by (simp add: live_has) (simp add: sampleIssued_def)
  then have r: "run_state (withMu (generateRead ''a'' False)) ?x = (Inr None, leaveLock ?a)"
    using l by (simp add: generateRead_def run_bindE live_mu)
  have b: "nextSerial ?b = Some 5" "serialHexStr 5 \<notin> ieSerial ` set (storeEntries (wStore ?b))" "clockOf ?b = 10 * second"
    "map_of (stCerts (wStore ?b)) ''a'' = Some (PEM (sampleLeaf 1))" "serialInCRL (sampleCRL 1 [1]) 1"
    "0 < time_sub (certNotAfter sampleCACert) (10 * second)"
    using g by (simp_all add: nextSerial_def sampleIssued_parts clockOf_def sampleEnv_def demoEntry_def)
      (simp_all add: sampleIssued_def serialInCRL_def sampleCRL_def sampleCACert_def time_sub_def second_def)
  obtain res v where "run_state (generateIssue ''a'' demoOptions (RSAKey 2048 2) [] [] False) ?b = (Inr res, v)"
    by (rule live_generateIssue [of ?b sampleCACert "''a''" "RSAKey 2048 2" 5 "sampleLeaf 1" "sampleCRL 1 [1]"])
      (use g b in \<open>simp_all add: validatePublicKey_def\<close>)
  then have "run_state (generateUnderLock ''a'' demoOptions (RSAKey 2048 2) [] []) ?x = (Inr res, leaveLock v)"
    using r by (simp add: generateUnderLock_def run_bindE demoOptions_def live_mu)
  moreover have "CheckKeySubject ''a'' = Inr ()" "validateDNSAltNames [] = Inr ()" "authGrantExtensions [] = Inr []"
    "goDNSAltNames demoOptions = []" "goAuthGrants demoOptions = []" "\<not> goEmitKey demoOptions"
    "leafKeyConfig sampleConfig = DefaultLeafKeyConfig" "\<not> PromoteCNToSAN sampleConfig"
    by (simp_all add: CheckKeySubject_def reservedKeySubject_def validateDNSAltNames_def authGrantExtensions_def demoOptions_def
        leafKeyConfig_def sampleConfig_def)
  moreover have "run_state (generateKey DefaultLeafKeyConfig) sampleGen
      = (Inr (RSAKey 2048 2), updEnv (eRand_update (\<lambda>_. [5])) sampleGen)"
    using g(3) by (simp add: generateKey_def DefaultLeafKeyConfig_def ValidateKeyConfig_def run_bindE randInt_def)
  moreover have "leaveLock (enterLock LockMu sampleGen) = sampleGen"
    by (simp add: leaveLock_def enterLock_def sampleGen_def sampleEnv_def updEnv_def)
  ultimately have "run_state (GenerateWithOptions ''a'' demoOptions) sampleGen = (Inr res, leaveLock (leaveLock v))"
    using g(1,4,5,7) by (simp add: GenerateWithOptions_def run_bindE live_mu live_lock)
  then show ?thesis by (rule that)
qed

text \<open>
  C25. A new certificate never joins a live one.  If generating a certificate for a subject
  that has one on record succeeds, then the certificate stored for the subject is the
  generated one and the serial of the old one is on this CA's stored list, provided the
  generation reports that it replaced it or no call of the backend failed.  (The
  existence checks of the other runs read a failed call as absence.)  The replica starts
  with the key of its CA certificate and with a cached list that is not ahead of the stored
  one, as every run of the cluster keeps it, and the old serial is not negative.
\<close>

theorem generation_retires_the_old:
  assumes run: "run_state (GenerateWithOptions subject opts) w = (Inr res, v)"
    and k: "keyOk (wCA w)" "cacheOk {} w" and old: "map_of (stCerts (wStore w)) subject = Some (PEM old)" "0 \<le> certSerialNumber old"
    and sure: "faultless w \<or> grReplaced res"
  shows "map_of (stCerts (wStore v)) subject = Some (PEM (grCertificate res)) \<and> onList v (certSerialNumber old)"
proof -
  from run obtain key dns extra x y where vs: "ValidateSubject subject = Inr ()" and x: "quiet w x" "faultless w \<longrightarrow> faultless x"
    and y: "run_state (generateUnderLock subject opts key dns extra) x = (Inr res, y)" and v: "sameState y v"
    by (rule Generate_parts)
  from y obtain retired a b c where
    a: "run_state (generateRead subject (goReplaceExisting opts)) (enterLock LockMu x) = (Inr retired, a)"
    and b: "run_state (case retired of None \<Rightarrow> ok () | Some serial \<Rightarrow> WithLock LockCRL (withMu (revokeSerialLocked serial)))
      (leaveLock a) = (Inr (), b)"
    and c: "run_state (generateIssue subject opts key dns extra (retired \<noteq> None)) (enterLock LockMu b) = (Inr res, c)"
    and yc: "y = leaveLock c" by (rule underLock_parts)
  note i = issue_needs_list [OF c vs]
  have st: "wStore x = wStore w" "caFrame (wCA w) (wCA x)" using x(1) by (simp_all add: quiet_def)
  then have kx: "keyOk (wCA x)" "cacheOk {} x"
    using k by (simp_all add: keyOk_def cacheOk_def leadTyped_def storedOwn_def caFrame_def)
  have onb: "onList b (certSerialNumber old)"
    using retired_first [OF a b c kx vs _ old(2)] old(1) sure x(2) i st(1) by auto
  have "state_io_rel owes (case retired of None \<Rightarrow> ok () | Some serial \<Rightarrow> WithLock LockCRL (withMu (revokeSerialLocked serial)))"
    by (auto intro!: owes_io owes_revokeSerial split: option.splits)
  then have id: "sameId x a" "sameId (leaveLock a) b"
    using owes_step [OF owes_generateParts(1) a] owes_step [OF _ b] by (simp_all add: sameId_def)
  have "onList c (certSerialNumber old)"
    using onList_mono [of "enterLock LockMu b" c] owes_step [OF owes_generateParts(2) c] onb onList_cong [of "enterLock LockMu b" b]
      kx(1) id by (simp add: keyOk_def sameId_def)
  then show ?thesis using i v yc onList_cong [of v c] by (simp add: sameState_def)
qed

theorem generation_retires_the_old_witness:
  "\<exists>res v. run_state (GenerateWithOptions ''a'' demoOptions) sampleGen = (Inr res, v)
     \<and> map_of (stCerts (wStore v)) ''a'' = Some (PEM (grCertificate res)) \<and> onList v 1"
proof -
  obtain res v where v: "run_state (GenerateWithOptions ''a'' demoOptions) sampleGen = (Inr res, v)" by (rule sampleGen_runs)
  have "keyOk (wCA sampleGen)" "cacheOk {} sampleGen" "map_of (stCerts (wStore sampleGen)) ''a'' = Some (PEM (sampleLeaf 1))"
    "faultless sampleGen"
    using sampleWith_ok(1,3) [where n = 1 and ss = "[1]"] sampleWith_ok(2) [of "{}" 1 "[1]"]
    by (simp_all add: sampleGen_def sampleIssued_def keyOk_def cacheOk_def leadTyped_def storedOwn_def faultless_def sampleEnv_def)
  with v show ?thesis using generation_retires_the_old [OF v, of "sampleLeaf 1"] by auto
qed

end
