(* ===== verification/Api.thy ===== *)
theory Api
  imports Access RateLimit Enrol
begin

text \<open>
  The HTTP service (internal/api/handlers.go, ocsp_handler.go and health_handler.go): the
  requests it understands, one definition per handler, the routing table and the server
  with its middleware.  The answer of a handler is its status code, and for the status
  endpoints the certificate states it lists; other bodies are not modelled.  A request
  body is represented by what each decoder answers on it.  The path is the list of its
  unescaped segments; a path that is not in canonical form is redirected by the mux.
\<close>

section \<open>Requests and answers\<close>

datatype 'a decoded = TooLarge | Malformed | Decoded 'a

record PutStatusBody =
  DesiredState :: string
  CertTTL :: "int option"

record PutStatusBySerialBody =
  bsDesiredState :: string
  bsForce :: bool

record HttpBody =
  bdRead :: bool \<comment> \<open>the body can be read\<close>
  bdBlank :: bool
  bdStatus :: "PutStatusBody decoded"
  bdBySerial :: "PutStatusBySerialBody decoded"
  bdCertnames :: "string list decoded"
  bdCSR :: "CertificateRequest pem"
  bdCert :: "Certificate pem"
  bdAnother :: bool
  bdOCSP :: ocspReqDER

record HttpRequest =
  rqMethod :: string
  rqSegments :: "string list"
  rqCanonical :: bool
  rqPeers :: "Certificate list"
  rqIP :: string
  rqDNS :: "string list" \<comment> \<open>the dns parameters of the query\<close>
  rqState :: string \<comment> \<open>the state parameter\<close>
  rqOCSPPath :: "ocspReqDER option" \<comment> \<open>the last segment decoded as base64\<close>
  rqBody :: HttpBody

definition rqPath :: "HttpRequest \<Rightarrow> string" where
  "rqPath r = concat (map (\<lambda>s. ''/'' @ s) (rqSegments r))"

record CertStatusResponse =
  csName :: string
  csState :: string
  csDNSAltNames :: "string list"
  csSubjectAltNames :: "string list"
  csSerialNumber :: "int option"
  csNotBefore :: "gotime option"
  csNotAfter :: "gotime option"

datatype httpResponse = Code nat | StatusJSON "CertStatusResponse list"

section \<open>The server\<close>

datatype domainToken = Unattributed | ThisCA | ClientCAToken string

text \<open>The key of a principal: Key renders the two parts injectively into one string.\<close>

type_synonym principalKey = "domainToken \<times> string"

definition whereOf :: "clientPrincipal \<Rightarrow> domainToken" where
  "whereOf p = (case prDomain p of None \<Rightarrow> Unattributed | Some d \<Rightarrow> if tdOwn d then ThisCA else ClientCAToken (tdName d))"

definition principalKeyOf :: "clientPrincipal \<Rightarrow> principalKey" where
  "principalKeyOf p = (whereOf p, prCN p)"

record Server =
  svChecks :: x509Checks
  svHashing :: ocspHashing
  svAuthConfig :: "AuthConfig option"
  svPlainHTTP :: bool
  svSignBatchLimit :: int

record ApiState =
  csrLimiter :: "ipRateLimiter option"
  destructiveOps :: "principalKey destructiveOpTracker"

definition clientCN :: "HttpRequest \<Rightarrow> string" where
  "clientCN r = (case rqPeers r of [] \<Rightarrow> [] | cert # _ \<Rightarrow> nmCommonName (certSubject cert))"

definition clientOf :: "clientPrincipal option \<Rightarrow> HttpRequest \<Rightarrow> clientPrincipal" where
  "clientOf p r = (case p of Some q \<Rightarrow> q | None \<Rightarrow> \<lparr>prCN = clientCN r, prDomain = None\<rparr>)"

definition recordDestructive :: "clientPrincipal \<Rightarrow> ApiState \<Rightarrow> ApiState opr" where
  "recordDestructive p st =
     (if prCN p = [] then ok st
      else bindE timeNow (\<lambda>now. ok (st\<lparr>destructiveOps := snd (Record (principalKeyOf p) now (destructiveOps st))\<rparr>)))"

definition answer :: "nat \<Rightarrow> ApiState \<Rightarrow> (httpResponse \<times> ApiState) opr" where
  "answer code st = ok (Code code, st)"

definition decodeJSONBody :: "'a decoded \<Rightarrow> ApiState \<Rightarrow> ('a \<Rightarrow> (httpResponse \<times> ApiState) opr) \<Rightarrow> (httpResponse \<times> ApiState) opr" where
  "decodeJSONBody body st k = (case body of TooLarge \<Rightarrow> answer 413 st | Malformed \<Rightarrow> answer 400 st | Decoded x \<Rightarrow> k x)"

section \<open>Status\<close>

definition dnsAltNames :: "string list \<Rightarrow> string list" where
  "dnsAltNames names = map (\<lambda>n. ''DNS:'' @ n) names"

definition subjectAltNames :: "string list \<Rightarrow> string list \<Rightarrow> string list" where
  "subjectAltNames ipAddrs dnsNames = map (\<lambda>ip. ''IP:'' @ ip) ipAddrs @ dnsAltNames dnsNames"

definition bareStatus :: "string \<Rightarrow> string \<Rightarrow> CertStatusResponse" where
  "bareStatus subject state = \<lparr>csName = subject, csState = state, csDNSAltNames = [], csSubjectAltNames = [],
     csSerialNumber = None, csNotBefore = None, csNotAfter = None\<rparr>"

definition certStatusFromCert :: "string \<Rightarrow> Certificate pem \<Rightarrow> string \<Rightarrow> CertStatusResponse" where
  "certStatusFromCert subject certPEM state =
     (case certPEM of
        PEM cert \<Rightarrow>
          let s = sansOf (certExtensions cert) in
          \<lparr>csName = subject, csState = state, csDNSAltNames = dnsAltNames (sanDNSNames s),
           csSubjectAltNames = subjectAltNames (sanIPAddresses s) (sanDNSNames s),
           csSerialNumber = Some (certSerialNumber cert), csNotBefore = Some (certNotBefore cert),
           csNotAfter = Some (certNotAfter cert)\<rparr>
      | _ \<Rightarrow> bareStatus subject state)"

definition certStatusFromCSR :: "string \<Rightarrow> CertificateRequest pem \<Rightarrow> CertStatusResponse" where
  "certStatusFromCSR subject csrPEM =
     (case csrPEM of
        PEM csr \<Rightarrow>
          let s = sansOf (csrExtensions csr) in
          (bareStatus subject ''requested'')\<lparr>csDNSAltNames := dnsAltNames (sanDNSNames s),
             csSubjectAltNames := subjectAltNames (sanIPAddresses s) (sanDNSNames s)\<rparr>
      | _ \<Rightarrow> bareStatus subject ''requested'')"

definition certState :: "string \<Rightarrow> string opr" where
  "certState subject = bindE (IsRevoked subject) (\<lambda>revoked. ok (if revoked then ''revoked'' else ''signed''))"

definition handleGetStatus :: "string \<Rightarrow> ApiState \<Rightarrow> (httpResponse \<times> ApiState) opr" where
  "handleGetStatus subject st =
     (if ValidateSubject subject \<noteq> Inr () then answer 400 st
      else
      bindE (attempt (GetCert subject)) (\<lambda>r.
      case r of
        Inr certPEM \<Rightarrow>
          bindE (certState subject) (\<lambda>state. ok (StatusJSON [certStatusFromCert subject certPEM state], st))
      | Inl _ \<Rightarrow>
          bindE (attempt (GetCSR subject)) (\<lambda>q.
          case q of
            Inr csrPEM \<Rightarrow> ok (StatusJSON [certStatusFromCSR subject csrPEM], st)
          | Inl _ \<Rightarrow> answer 404 st)))"

definition subjectIssued :: "string \<Rightarrow> bool opr" where
  "subjectIssued subject =
     bindE (attempt (GetCert subject)) (\<lambda>r.
     case r of
       Inr _ \<Rightarrow> ok True
     | Inl e \<Rightarrow>
         if \<not> errors_is e ErrNotExist then fail e
         else
           bindE (attempt (LatestSerialForSubject subject)) (\<lambda>q.
           case q of
             Inr _ \<Rightarrow> ok True
           | Inl e' \<Rightarrow> if errors_is e' ErrNotExist then ok False else fail e'))"

definition answerSignWithoutCSR :: "string \<Rightarrow> err \<Rightarrow> ApiState \<Rightarrow> (httpResponse \<times> ApiState) opr" where
  "answerSignWithoutCSR subject signErr st =
     (if \<not> errors_is signErr ErrNotExist then answer 503 st
      else
      bindE (attempt (subjectIssued subject)) (\<lambda>r.
      case r of
        Inl _ \<Rightarrow> answer 503 st
      | Inr issued \<Rightarrow> if \<not> issued then answer 404 st else answer 409 st))"

definition putSigned :: "string \<Rightarrow> int option \<Rightarrow> ApiState \<Rightarrow> (httpResponse \<times> ApiState) opr" where
  "putSigned subject ttl st =
     bindE (attempt (case ttl of
         Some n \<Rightarrow> if 0 < n then SignWithTTL subject (wrap64 (n * second)) else Sign subject
       | None \<Rightarrow> Sign subject)) (\<lambda>r.
     case r of
       Inr _ \<Rightarrow> answer 204 st
     | Inl (CSRNotFound e) \<Rightarrow> answerSignWithoutCSR subject (CSRNotFound e) st
     | Inl _ \<Rightarrow> answer 409 st)"

definition putRevoked :: "clientPrincipal \<Rightarrow> string \<Rightarrow> ApiState \<Rightarrow> (httpResponse \<times> ApiState) opr" where
  "putRevoked p subject st =
     bindE (attempt (Revoke subject)) (\<lambda>r.
     case r of
       Inr _ \<Rightarrow> bindE (recordDestructive p st) (\<lambda>st'. answer 204 st')
     | Inl e \<Rightarrow>
         if errors_is e ErrForeignStoredCRL then answer 409 st
         else if errors_is e ErrSubjectUnknown then
           bindE (attempt (GetCSR subject)) (\<lambda>q.
           case q of
             Inr _ \<Rightarrow> answer 409 st
           | Inl e' \<Rightarrow> if errors_is e' ErrNotExist then answer 404 st else answer 503 st)
         else answer 409 st)"

definition handlePutStatus :: "clientPrincipal \<Rightarrow> HttpBody \<Rightarrow> string \<Rightarrow> ApiState \<Rightarrow> (httpResponse \<times> ApiState) opr" where
  "handlePutStatus p body subject st =
     (if ValidateSubject subject \<noteq> Inr () then answer 400 st
      else decodeJSONBody (bdStatus body) st (\<lambda>b.
        if DesiredState b = ''signed'' then putSigned subject (CertTTL b) st
        else if DesiredState b = ''revoked'' then putRevoked p subject st
        else answer 400 st))"

definition handlePutStatusBySerial :: "clientPrincipal \<Rightarrow> HttpBody \<Rightarrow> string \<Rightarrow> ApiState \<Rightarrow> (httpResponse \<times> ApiState) opr" where
  "handlePutStatusBySerial p body serial st =
     (case NormaliseSerial serial of
        Inl _ \<Rightarrow> answer 400 st
      | Inr normalised \<Rightarrow> decodeJSONBody (bdBySerial body) st (\<lambda>b.
          if bsDesiredState b \<noteq> ''revoked'' then answer 400 st
          else
          bindE (attempt (RevokeSerial normalised (bsForce b))) (\<lambda>r.
          case r of
            Inr _ \<Rightarrow> bindE (recordDestructive p st) (\<lambda>st'. answer 204 st')
          | Inl e \<Rightarrow>
              if errors_is e ErrSerialUnknown then answer 404 st
              else if errors_is e ErrSerialIsCurrent \<or> errors_is e ErrSerialStateUnknown \<or> errors_is e ErrForeignStoredCRL
              then answer 409 st
              else answer 503 st)))"

definition handleDeleteStatus :: "clientPrincipal \<Rightarrow> string \<Rightarrow> ApiState \<Rightarrow> (httpResponse \<times> ApiState) opr" where
  "handleDeleteStatus p subject st =
     (if ValidateSubject subject \<noteq> Inr () then answer 400 st
      else
      bindE (attempt (Clean subject)) (\<lambda>r.
      case r of
        Inr _ \<Rightarrow> bindE (recordDestructive p st) (\<lambda>st'. answer 204 st')
      | Inl e \<Rightarrow> if errors_is e ErrNotFound then answer 404 st else answer 409 st))"

definition ListCerts :: "string list opr" where
  "ListCerts = backendRead (\<lambda>st. Inr (map fst (stCerts st)))"

fun scanCerts :: "string \<Rightarrow> string list \<Rightarrow> CertStatusResponse list opr" where
  "scanCerts stateFilter [] = ok []"
| "scanCerts stateFilter (subject # subjects) =
     bindE (attempt (GetCert subject)) (\<lambda>r.
     case r of
       Inl _ \<Rightarrow> scanCerts stateFilter subjects
     | Inr certPEM \<Rightarrow>
         bindE (certState subject) (\<lambda>state.
         bindE (scanCerts stateFilter subjects) (\<lambda>rest.
         ok (if stateFilter \<noteq> [] \<and> state \<noteq> stateFilter then rest
             else certStatusFromCert subject certPEM state # rest))))"

fun scanCSRs :: "string \<Rightarrow> string list \<Rightarrow> string list \<Rightarrow> CertStatusResponse list opr" where
  "scanCSRs stateFilter seen [] = ok []"
| "scanCSRs stateFilter seen (subject # subjects) =
     (if subject \<in> set seen \<or> (stateFilter \<noteq> [] \<and> stateFilter \<noteq> ''requested'') then scanCSRs stateFilter seen subjects
      else
        bindE (attempt (GetCSR subject)) (\<lambda>r.
        bindE (scanCSRs stateFilter seen subjects) (\<lambda>rest.
        ok (case r of Inl _ \<Rightarrow> rest | Inr csrPEM \<Rightarrow> certStatusFromCSR subject csrPEM # rest))))"

text \<open>The listing of a backend without a certificate index, which walks what is stored.\<close>

definition handleGetStatuses :: "HttpRequest \<Rightarrow> ApiState \<Rightarrow> (httpResponse \<times> ApiState) opr" where
  "handleGetStatuses r st =
     bindE (attempt ListCerts) (\<lambda>q.
     case q of
       Inl _ \<Rightarrow> answer 500 st
     | Inr certs \<Rightarrow>
         bindE (scanCerts (rqState r) certs) (\<lambda>held.
         bindE (attempt ListCSRs) (\<lambda>q'.
         case q' of
           Inl _ \<Rightarrow> answer 500 st
         | Inr csrs \<Rightarrow> bindE (scanCSRs (rqState r) certs csrs) (\<lambda>queued. ok (StatusJSON (held @ queued), st)))))"

section \<open>Certificates and the revocation list\<close>

text \<open>A handler that answers with what it reads.\<close>

definition readOr404 :: "'a opr \<Rightarrow> ApiState \<Rightarrow> (httpResponse \<times> ApiState) opr" where
  "readOr404 m st = bindE (attempt m) (\<lambda>r. case r of Inl _ \<Rightarrow> answer 404 st | Inr _ \<Rightarrow> answer 200 st)"

definition handleGetCert :: "string \<Rightarrow> ApiState \<Rightarrow> (httpResponse \<times> ApiState) opr" where
  "handleGetCert subject st =
     (if subject = ''ca'' then readOr404 GetCACert st
      else if ValidateSubject subject \<noteq> Inr () then answer 400 st
      else readOr404 (GetCert subject) st)"

definition handlePutCert :: "HttpBody \<Rightarrow> string \<Rightarrow> ApiState \<Rightarrow> (httpResponse \<times> ApiState) opr" where
  "handlePutCert body subject st =
     (if ValidateSubject subject \<noteq> Inr () then answer 400 st
      else if \<not> bdRead body then answer 500 st
      else
      bindE (attempt (ImportCertificate subject (bdCert body) (bdAnother body))) (\<lambda>r.
      case r of
        Inr _ \<Rightarrow> answer 200 st
      | Inl e \<Rightarrow>
          if errors_is e ErrNotInitialized then answer 503 st
          else if errors_is e ErrImportInvalid then answer 400 st
          else if errors_is e ErrSerialExists \<or> errors_is e ErrCertExists then answer 409 st
          else answer 500 st))"

definition handleGetCRL :: "ApiState \<Rightarrow> (httpResponse \<times> ApiState) opr" where
  "handleGetCRL st = readOr404 GetCRL st"

definition handleReissueCRL :: "ApiState \<Rightarrow> (httpResponse \<times> ApiState) opr" where
  "handleReissueCRL st =
     bindE (attempt ReissueCRL) (\<lambda>r.
     case r of
       Inl e \<Rightarrow> if errors_is e ErrForeignStoredCRL then answer 409 st else answer 500 st
     | Inr _ \<Rightarrow> readOr404 GetCRL st)"

section \<open>Requests\<close>

definition handleGetRequest :: "string \<Rightarrow> ApiState \<Rightarrow> (httpResponse \<times> ApiState) opr" where
  "handleGetRequest subject st =
     (if ValidateSubject subject \<noteq> Inr () then answer 400 st else readOr404 (GetCSR subject) st)"

definition Contains :: "string \<Rightarrow> string \<Rightarrow> bool" where
  "Contains s sub = list_ex (prefix sub) (suffixes s)"

definition csrValidationError :: "err \<Rightarrow> bool" where
  "csrValidationError e =
     (case e of
        ErrOther s \<Rightarrow> Contains s ''does not match requested key'' \<or> Contains s ''failed to decode CSR PEM''
          \<or> Contains s ''failed to parse CSR'' \<or> Contains s ''invalid CSR signature''
      | _ \<Rightarrow> False)"

definition limitCSR :: "string \<Rightarrow> ApiState \<Rightarrow> (bool \<times> ApiState) opr" where
  "limitCSR ip st =
     (case csrLimiter st of
        None \<Rightarrow> ok (True, st)
      | Some l \<Rightarrow> bindE timeNow (\<lambda>now. ok (case Allow ip now l of (b, l') \<Rightarrow> (b, st\<lparr>csrLimiter := Some l'\<rparr>))))"

definition requestErrorCode :: "err \<Rightarrow> nat" where
  "requestErrorCode e =
     (case e of
        DuplicateCertError _ _ \<Rightarrow> 400
      | _ \<Rightarrow> if errors_is e ErrDisallowedSubjectAltNames \<or> errors_is e ErrDisallowedExtensions \<or> csrValidationError e then 400 else 500)"

definition handlePutRequest :: "HttpRequest \<Rightarrow> string \<Rightarrow> ApiState \<Rightarrow> (httpResponse \<times> ApiState) opr" where
  "handlePutRequest r subject st0 =
     bindE (limitCSR (rqIP r) st0) (\<lambda>(allowed, st).
     if \<not> allowed then answer 429 st
     else if ValidateSubject subject \<noteq> Inr () then answer 400 st
     else if \<not> bdRead (rqBody r) then answer 500 st
     else
     bindE (attempt (SaveRequest subject (bdCSR (rqBody r)))) (\<lambda>q.
     case q of Inr _ \<Rightarrow> answer 200 st | Inl e \<Rightarrow> answer (requestErrorCode e) st))"

definition handleDeleteRequest :: "string \<Rightarrow> ApiState \<Rightarrow> (httpResponse \<times> ApiState) opr" where
  "handleDeleteRequest subject st =
     (if ValidateSubject subject \<noteq> Inr () then answer 400 st
      else
      bindE (attempt (DeleteRequest subject)) (\<lambda>r.
      case r of
        Inr _ \<Rightarrow> answer 204 st
      | Inl e \<Rightarrow> if errors_is e ErrNoCSR then answer 404 st else answer 503 st))"

section \<open>Generation, renewal and the bulk operations\<close>

definition handlePostGenerate :: "Server \<Rightarrow> HttpRequest \<Rightarrow> string \<Rightarrow> ApiState \<Rightarrow> (httpResponse \<times> ApiState) opr" where
  "handlePostGenerate s r subject st =
     (if svPlainHTTP s then answer 403 st
      else if ValidateSubject subject \<noteq> Inr () then answer 400 st
      else if CheckKeySubject subject \<noteq> Inr () then answer 400 st
      else
      bindE (attempt (Generate subject (rqDNS r))) (\<lambda>q.
      case q of
        Inr _ \<Rightarrow> answer 200 st
      | Inl e \<Rightarrow>
          if errors_is e ErrCertExists then answer 409 st
          else if errors_is e ErrInvalidDNSAltName then answer 400 st
          else answer 500 st))"

definition autoRenewalCode :: "err \<Rightarrow> nat" where
  "autoRenewalCode e =
     (if errors_is e ErrCertRevoked then 403
      else if errors_is e ErrKeyPolicy then 422
      else if errors_is e ErrForeignCertificate then 403
      else if errors_is e ErrNotInitialized then 503
      else 500)"

definition renewalCode :: "err \<Rightarrow> nat" where
  "renewalCode e =
     (if errors_is e ErrCertRevoked then 403
      else if errors_is e ErrKeyPolicy then 422
      else if errors_is e ErrRenewalSubjectMismatch then 403
      else if errors_is e ErrForeignCertificate then 403
      else if errors_is e ErrNotInitialized then 503
      else 500)"

definition handlePostCertificateRenewal :: "HttpRequest \<Rightarrow> ApiState \<Rightarrow> (httpResponse \<times> ApiState) opr" where
  "handlePostCertificateRenewal r st =
     (case rqPeers r of
        [] \<Rightarrow> answer 403 st
      | cert # _ \<Rightarrow>
          let cn = nmCommonName (certSubject cert) in
          if cn = [] then answer 403 st
          else if \<not> bdRead (rqBody r) then answer 500 st
          else if bdBlank (rqBody r) then
            bindE (attempt (AutoRenew (Some cert))) (\<lambda>q.
            case q of Inr _ \<Rightarrow> answer 200 st | Inl e \<Rightarrow> answer (autoRenewalCode e) st)
          else
            (case bdCSR (rqBody r) of
               PEM csr \<Rightarrow>
                 if nmCommonName (csrSubject csr) \<noteq> cn then answer 403 st
                 else
                   bindE (attempt (Renew cn (bdCSR (rqBody r)) (Some cert))) (\<lambda>q.
                   case q of Inr _ \<Rightarrow> answer 200 st | Inl e \<Rightarrow> answer (renewalCode e) st)
             | _ \<Rightarrow> answer 400 st))"

definition mergeResults :: "SignResult \<Rightarrow> SignResult \<Rightarrow> SignResult" where
  "mergeResults a b = \<lparr>srSigned = srSigned a @ srSigned b, srNoCSR = srNoCSR a @ srNoCSR b,
     srSigningErrors = srSigningErrors a @ srSigningErrors b\<rparr>"

text \<open>The loop over the chunks; its limit is positive.\<close>

function signChunks :: "nat \<Rightarrow> SignResult \<Rightarrow> string list \<Rightarrow> SignResult opr" where
  "signChunks limit merged subjects =
     (if subjects = [] \<or> limit = 0 then ok merged
      else
        bindE (SignMultiple (take limit subjects)) (\<lambda>batch.
        signChunks limit (mergeResults merged batch) (drop limit subjects)))"
  by pat_completeness auto
termination
  by (relation "measure (\<lambda>(_, _, subjects). length subjects)") auto

definition signInBatches :: "int \<Rightarrow> string list \<Rightarrow> SignResult opr" where
  "signInBatches limit subjects =
     (if limit \<le> 0 \<or> int (length subjects) \<le> limit then SignMultiple subjects
      else signChunks (nat limit) \<lparr>srSigned = [], srNoCSR = [], srSigningErrors = []\<rparr> subjects)"

definition handlePostSign :: "Server \<Rightarrow> HttpRequest \<Rightarrow> ApiState \<Rightarrow> (httpResponse \<times> ApiState) opr" where
  "handlePostSign s r st =
     decodeJSONBody (bdCertnames (rqBody r)) st (\<lambda>names.
       if names = [] then answer 400 st
       else bindE (signInBatches (svSignBatchLimit s) names) (\<lambda>_. answer 200 st))"

definition handlePostSignAll :: "Server \<Rightarrow> ApiState \<Rightarrow> (httpResponse \<times> ApiState) opr" where
  "handlePostSignAll s st =
     bindE (attempt ListCSRs) (\<lambda>r.
     case r of
       Inl _ \<Rightarrow> answer 500 st
     | Inr queued \<Rightarrow> bindE (signInBatches (svSignBatchLimit s) queued) (\<lambda>_. answer 200 st))"

definition handlePutClean :: "clientPrincipal \<Rightarrow> HttpRequest \<Rightarrow> ApiState \<Rightarrow> (httpResponse \<times> ApiState) opr" where
  "handlePutClean p r st =
     decodeJSONBody (bdCertnames (rqBody r)) st (\<lambda>names.
       if names = [] then answer 400 st
       else
         bindE (CleanMultiple names) (\<lambda>_.
         bindE (recordDestructive p st) (\<lambda>st'. answer 200 st')))"

section \<open>The other endpoints\<close>

definition IsReady :: "bool opr" where
  "IsReady = withMu (getsE (\<lambda>w. CACert (wCA w) \<noteq> None \<and> CAKey (wCA w) \<noteq> None))"

definition handleReady :: "ApiState \<Rightarrow> (httpResponse \<times> ApiState) opr" where
  "handleReady st = bindE IsReady (\<lambda>ready. if ready then answer 200 st else answer 503 st)"

definition handleGetExpirations :: "ApiState \<Rightarrow> (httpResponse \<times> ApiState) opr" where
  "handleGetExpirations st =
     bindE IsReady (\<lambda>ready.
     if \<not> ready then answer 503 st
     else bindE (attempt GetCACert) (\<lambda>_. bindE (attempt GetCRL) (\<lambda>_. answer 200 st)))"

definition answerOCSP :: "Server \<Rightarrow> ocspReqDER \<Rightarrow> ApiState \<Rightarrow> (httpResponse \<times> ApiState) opr" where
  "answerOCSP s der st =
     bindE (attempt (AnswerOCSP (svHashing s) der)) (\<lambda>r.
     case r of Inr _ \<Rightarrow> answer 200 st | Inl e \<Rightarrow> answer (fst (ocspErrorResponse e)) st)"

definition handleOCSP :: "Server \<Rightarrow> HttpRequest \<Rightarrow> ApiState \<Rightarrow> (httpResponse \<times> ApiState) opr" where
  "handleOCSP s r st =
     (if rqMethod r = ''GET'' then (case rqOCSPPath r of None \<Rightarrow> answer 400 st | Some der \<Rightarrow> answerOCSP s der st)
      else if rqMethod r = ''POST'' then (if bdRead (rqBody r) then answerOCSP s (bdOCSP (rqBody r)) st else answer 500 st)
      else answer 405 st)"

section \<open>Routing\<close>

datatype pat = Lit string | Wild

datatype handler =
    HGetStatus | HPutStatus | HDeleteStatus | HPutStatusBySerial | HGetStatuses | HGetRequest | HPutRequest
  | HDeleteRequest | HGetCert | HPutCert | HGetCRL | HReissueCRL | HOCSP | HExpirations | HSign | HSignAll
  | HClean | HGenerate | HRenewal | HLive | HReady

type_synonym route = "string \<times> pat list \<times> handler"

definition baseRoutes :: "route list" where
  "baseRoutes =
     [(''GET'', [Lit ''certificate_status'', Wild], HGetStatus),
      (''PUT'', [Lit ''certificate_status'', Wild], HPutStatus),
      (''DELETE'', [Lit ''certificate_status'', Wild], HDeleteStatus),
      (''PUT'', [Lit ''certificate_status_by_serial'', Wild], HPutStatusBySerial),
      (''GET'', [Lit ''certificate_statuses'', Wild], HGetStatuses),
      (''GET'', [Lit ''certificate_request'', Wild], HGetRequest),
      (''PUT'', [Lit ''certificate_request'', Wild], HPutRequest),
      (''DELETE'', [Lit ''certificate_request'', Wild], HDeleteRequest),
      (''GET'', [Lit ''certificate'', Wild], HGetCert),
      (''PUT'', [Lit ''certificate'', Wild], HPutCert),
      (''GET'', [Lit ''certificate_revocation_list'', Lit ''ca''], HGetCRL),
      (''PUT'', [Lit ''certificate_revocation_list'', Lit ''ca''], HReissueCRL),
      (''POST'', [Lit ''ocsp''], HOCSP),
      (''GET'', [Lit ''ocsp'', Wild], HOCSP),
      (''GET'', [Lit ''expirations''], HExpirations),
      (''POST'', [Lit ''sign''], HSign),
      (''POST'', [Lit ''sign'', Lit ''all''], HSignAll),
      (''PUT'', [Lit ''clean''], HClean),
      (''POST'', [Lit ''generate'', Wild], HGenerate),
      (''POST'', [Lit ''certificate_renewal''], HRenewal)]"

definition Routes :: "route list" where
  "Routes = baseRoutes
     @ map (\<lambda>(m, ps, h). (m, Lit ''puppet-ca'' # Lit ''v1'' # ps, h)) baseRoutes
     @ [(''GET'', [Lit ''healthz'', Lit ''live''], HLive),
        (''GET'', [Lit ''healthz'', Lit ''ready''], HReady),
        (''GET'', [Lit ''healthz'', Lit ''startup''], HReady)]"

text \<open>A wildcard matches one segment that is not empty; the answer is its value.\<close>

fun matchPath :: "pat list \<Rightarrow> string list \<Rightarrow> string list option" where
  "matchPath [] [] = Some []"
| "matchPath (Lit l # ps) (s # ss) = (if l = s then matchPath ps ss else None)"
| "matchPath (Wild # ps) (s # ss) = (if s \<noteq> [] then map_option (Cons s) (matchPath ps ss) else None)"
| "matchPath _ _ = None"

definition methodMatches :: "string \<Rightarrow> string \<Rightarrow> bool" where
  "methodMatches pattern method = (pattern = method \<or> (pattern = ''GET'' \<and> method = ''HEAD''))"

definition serves :: "HttpRequest \<Rightarrow> route \<Rightarrow> bool" where
  "serves r row = (case row of (m, ps, h) \<Rightarrow> methodMatches m (rqMethod r) \<and> matchPath ps (rqSegments r) \<noteq> None)"

definition handle :: "Server \<Rightarrow> clientPrincipal \<Rightarrow> HttpRequest \<Rightarrow> handler \<Rightarrow> string \<Rightarrow> ApiState \<Rightarrow> (httpResponse \<times> ApiState) opr" where
  "handle s p r h x st =
     (case h of
        HGetStatus \<Rightarrow> handleGetStatus x st
      | HPutStatus \<Rightarrow> handlePutStatus p (rqBody r) x st
      | HDeleteStatus \<Rightarrow> handleDeleteStatus p x st
      | HPutStatusBySerial \<Rightarrow> handlePutStatusBySerial p (rqBody r) x st
      | HGetStatuses \<Rightarrow> handleGetStatuses r st
      | HGetRequest \<Rightarrow> handleGetRequest x st
      | HPutRequest \<Rightarrow> handlePutRequest r x st
      | HDeleteRequest \<Rightarrow> handleDeleteRequest x st
      | HGetCert \<Rightarrow> handleGetCert x st
      | HPutCert \<Rightarrow> handlePutCert (rqBody r) x st
      | HGetCRL \<Rightarrow> handleGetCRL st
      | HReissueCRL \<Rightarrow> handleReissueCRL st
      | HOCSP \<Rightarrow> handleOCSP s r st
      | HExpirations \<Rightarrow> handleGetExpirations st
      | HSign \<Rightarrow> handlePostSign s r st
      | HSignAll \<Rightarrow> handlePostSignAll s st
      | HClean \<Rightarrow> handlePutClean p r st
      | HGenerate \<Rightarrow> handlePostGenerate s r x st
      | HRenewal \<Rightarrow> handlePostCertificateRenewal r st
      | HLive \<Rightarrow> answer 200 st
      | HReady \<Rightarrow> handleReady st)"

definition mux :: "Server \<Rightarrow> clientPrincipal \<Rightarrow> HttpRequest \<Rightarrow> ApiState \<Rightarrow> (httpResponse \<times> ApiState) opr" where
  "mux s p r st =
     (if \<not> rqCanonical r then answer 301 st
      else case find (serves r) Routes of
        Some (m, ps, h) \<Rightarrow>
          handle s p r h (case matchPath ps (rqSegments r) of Some (x # _) \<Rightarrow> x | _ \<Rightarrow> []) st
      | None \<Rightarrow>
          if list_ex (\<lambda>(m, ps, h). matchPath ps (rqSegments r) \<noteq> None) Routes then answer 405 st else answer 404 st)"

definition ServeHTTP :: "Server \<Rightarrow> HttpRequest \<Rightarrow> ApiState \<Rightarrow> (httpResponse \<times> ApiState) opr" where
  "ServeHTTP s r st =
     bindE (newAuthMiddleware (svChecks s) (svAuthConfig s) (rqMethod r) (rqPath r) (rqPeers r)) (\<lambda>v.
     case v of
       Denied \<Rightarrow> answer 403 st
     | Admitted p \<Rightarrow> mux s (clientOf p r) r st)"

section \<open>Signing in batches\<close>

lemma merge_facts:
  "mergeResults \<lparr>srSigned = [], srNoCSR = [], srSigningErrors = []\<rparr> a = a"
  "mergeResults a \<lparr>srSigned = [], srNoCSR = [], srSigningErrors = []\<rparr> = a"
  "mergeResults (mergeResults a b) c = mergeResults a (mergeResults b c)"
  by (simp_all add: mergeResults_def)

lemma merge_upd:
  "(mergeResults a b)\<lparr>srNoCSR := srNoCSR (mergeResults a b) @ [x]\<rparr> = mergeResults a (b\<lparr>srNoCSR := srNoCSR b @ [x]\<rparr>)"
  "(mergeResults a b)\<lparr>srSigned := srSigned (mergeResults a b) @ [x]\<rparr> = mergeResults a (b\<lparr>srSigned := srSigned b @ [x]\<rparr>)"
  "(mergeResults a b)\<lparr>srSigningErrors := srSigningErrors (mergeResults a b) @ [x]\<rparr>
     = mergeResults a (b\<lparr>srSigningErrors := srSigningErrors b @ [x]\<rparr>)"
  by (simp_all add: mergeResults_def)

lemma signEach_from:
  "signEach (mergeResults a b) ss = bindE (signEach b ss) (\<lambda>c. ok (mergeResults a c))"
proof (induction ss arbitrary: b)
  case Nil
  then show ?case by (intro state.expand) (simp add: fun_eq_iff run_bindE)
next
  case (Cons x ss)
  show ?case
    by (intro state.expand ext) (simp add: run_bindE run_attempt Cons.IH merge_upd split: prod.split sum.split)
qed

lemma signEach_append: "signEach r (xs @ ys) = bindE (signEach r xs) (\<lambda>r'. signEach r' ys)"
proof (induction r xs rule: signEach.induct)
  case (1 r)
  then show ?case by (intro state.expand) (simp add: fun_eq_iff run_bindE)
next
  case (2 r x xs)
  show ?case
    by (intro state.expand ext) (simp add: run_bindE run_attempt 2 split: prod.split sum.split)
qed

lemma signChunks_whole: "limit \<noteq> 0 \<Longrightarrow> signChunks limit merged ss = signEach merged ss"
proof (induction limit merged ss rule: signChunks.induct)
  case (1 limit merged ss)
  show ?case
  proof (cases "ss = []")
    case False
    let ?z = "\<lparr>srSigned = [], srNoCSR = [], srSigningErrors = []\<rparr>"
    have "signEach merged (take limit ss) = bindE (SignMultiple (take limit ss)) (\<lambda>batch. ok (mergeResults merged batch))"
      using signEach_from [of merged ?z] by (simp add: merge_facts SignMultiple_def)
    then have "signEach merged ss = bindE (SignMultiple (take limit ss)) (\<lambda>batch. signEach (mergeResults merged batch) (drop limit ss))"
      using signEach_append [of merged "take limit ss" "drop limit ss"]
      by (simp add: bindE_assoc) (intro state.expand ext, simp add: run_bindE split: prod.split sum.split)
    then show ?thesis using False 1 by simp
  qed simp
qed

text \<open>
  C28. Signing in batches is signing.  Whatever the batch limit, signing a list of
  subjects in batches has the effects and the merged result of signing it in one go.
\<close>

theorem batches_agree: "signInBatches limit subjects = SignMultiple subjects"
  by (simp add: signInBatches_def SignMultiple_def signChunks_whole del: signChunks.simps)

section \<open>Handlers that only read\<close>

definition storeSame :: "world \<Rightarrow> world \<Rightarrow> bool" where
  "storeSame w v = (wStore v = wStore w)"

interpretation sto: step_relation storeSame
  by unfold_locales (auto simp: storeSame_def sameState_def)

lemma sto_quiet: "state_io_rel quiet m \<Longrightarrow> state_io_rel storeSame m"
  unfolding state_io_rel_def storeSame_def by (auto simp: quiet_def)

lemma sto_reads:
  "state_io_rel storeSame GetCRL" "state_io_rel storeSame GetCACert" "state_io_rel storeSame (GetCert s)"
  "state_io_rel storeSame (GetCSR s)" "state_io_rel storeSame ListCSRs" "state_io_rel storeSame ListCerts"
  using quiet_reads by (auto intro!: sto_quiet simp: ListCerts_def intro: qt.io)

lemma sto_answer: "state_io_rel storeSame (answer c st)"
  unfolding answer_def by (intro sto.io)

lemma sto_ocsp: "state_io_rel storeSame (AnswerOCSP dep der)"
  using answer_step(4) unfolding state_io_rel_def storeSame_def by (metis prod.collapse)

lemma sto_scan: "state_io_rel storeSame (scanCerts f certs)" "state_io_rel storeSame (scanCSRs f seen csrs)"
proof -
  have "state_io_rel storeSame (certState s)" for s
    unfolding certState_def IsRevoked_def by (auto intro!: sto.io sto_reads split: sum.split pem.split option.split)
  then show "state_io_rel storeSame (scanCerts f certs)"
    by (induction certs) (auto intro!: sto.io sto_reads split: sum.split)
  show "state_io_rel storeSame (scanCSRs f seen csrs)"
    by (induction csrs) (auto intro!: sto.io sto_reads split: sum.split)
qed

definition reader :: "handler \<Rightarrow> bool" where
  "reader h = (h \<in> {HGetStatus, HGetStatuses, HGetRequest, HGetCert, HGetCRL, HOCSP, HExpirations, HLive, HReady})"

lemma reader_reads: "reader h \<Longrightarrow> state_io_rel storeSame (handle s p r h x st)"
  unfolding reader_def
  by (elim insertE emptyE)
    (auto simp: handle_def handleGetStatus_def handleGetStatuses_def handleGetRequest_def handleGetCert_def handleGetCRL_def
      handleOCSP_def handleGetExpirations_def handleReady_def answerOCSP_def readOr404_def certState_def IsRevoked_def IsReady_def
      intro!: sto.io sto_reads sto_answer sto_scan sto_ocsp split: sum.split pem.split option.split)

lemma same_attribute: "state_io_rel sameState (attribute checks domains cert presented)"
  by (induction domains) (auto intro!: ss.io split: list.split)

lemma same_middleware: "state_io_rel sameState (newAuthMiddleware checks cfg method path peers)"
  unfolding newAuthMiddleware_def clearOfRevocation_def IsRevokedSerial_def Let_def
  by (auto intro!: ss.io same_attribute split: option.split list.split prod.split)

section \<open>What the operations keep, every request keeps\<close>

text \<open>
  The interface between the package ca and its HTTP front end: a relation on worlds that
  each operation the handlers call establishes.  Serving a request then establishes it.
\<close>

locale ca_operations = step_relation +
  assumes saves: "state_io_rel R (SaveRequest s q)" "state_io_rel R (DeleteRequest s)"
    and signs: "state_io_rel R (SignWithTTL s ttl)" "state_io_rel R (Sign s)" "state_io_rel R (SignMultiple ss)"
    and renews: "state_io_rel R (Renew s q p)" "state_io_rel R (AutoRenew p)"
    and revokes: "state_io_rel R (Revoke s)" "state_io_rel R (RevokeSerial k force)" "state_io_rel R (Clean s)"
      "state_io_rel R (CleanMultiple ss)" "state_io_rel R ReissueCRL"
    and enrols: "state_io_rel R (ImportCertificate s pem another)" "state_io_rel R (GenerateWithOptions s opts)"
    and looks: "state_io_rel R (AnswerOCSP dep der)" "state_io_rel R (LatestSerialForSubject s)"
begin

lemma same_io: "state_io_rel sameState m \<Longrightarrow> state_io_rel R m"
  unfolding state_io_rel_def using same by blast

lemma reads: "state_io_rel R GetCRL" "state_io_rel R GetCACert" "state_io_rel R (GetCert s)" "state_io_rel R (GetCSR s)"
  "state_io_rel R ListCSRs" "state_io_rel R ListCerts" "state_io_rel R (IsRevoked s)" "state_io_rel R (certState s)"
  "state_io_rel R IsReady"
  unfolding GetCRL_def GetCACert_def GetCert_def GetCSR_def ListCSRs_def ListCerts_def certState_def IsReady_def IsRevoked_def
  by (auto intro!: io split: sum.split pem.split option.split)

lemma answers: "state_io_rel R (answer c st)" "state_io_rel R (recordDestructive p st)" "state_io_rel R (limitCSR ip st)"
  unfolding answer_def recordDestructive_def limitCSR_def by (auto intro!: io split: option.split)

lemma batches: "state_io_rel R (signInBatches limit ss)"
  using signs(3) by (simp add: signInBatches_def signChunks_whole SignMultiple_def del: signChunks.simps)

lemma scans: "state_io_rel R (scanCerts f certs)" "state_io_rel R (scanCSRs f seen csrs)"
  by (induction certs, auto intro!: io reads split: sum.split) (induction csrs, auto intro!: io reads split: sum.split)

lemmas every = io reads answers batches scans saves signs renews revokes enrols looks

lemma statuses:
  "state_io_rel R (handleGetStatus x st)" "state_io_rel R (handlePutStatus p body x st)"
  "state_io_rel R (handlePutStatusBySerial p body x st)" "state_io_rel R (handleDeleteStatus p x st)"
  "state_io_rel R (handleGetStatuses r st)"
  unfolding handleGetStatus_def handlePutStatus_def handlePutStatusBySerial_def handleDeleteStatus_def handleGetStatuses_def
    putSigned_def putRevoked_def answerSignWithoutCSR_def subjectIssued_def decodeJSONBody_def
  by (auto intro!: every split: sum.split decoded.split option.split err.split)

lemma artefacts:
  "state_io_rel R (handleGetCert x st)" "state_io_rel R (handlePutCert body x st)" "state_io_rel R (handleGetCRL st)"
  "state_io_rel R (handleReissueCRL st)" "state_io_rel R (handleGetRequest x st)" "state_io_rel R (handleDeleteRequest x st)"
  unfolding handleGetCert_def handlePutCert_def handleGetCRL_def handleReissueCRL_def handleGetRequest_def
    handleDeleteRequest_def readOr404_def
  by (auto intro!: every split: sum.split)

lemma submissions: "state_io_rel R (handlePutRequest r x st)"
  unfolding handlePutRequest_def by (auto intro!: every split: sum.split)

lemma bulk:
  "state_io_rel R (handlePostGenerate s r x st)" "state_io_rel R (handlePostCertificateRenewal r st)"
  "state_io_rel R (handlePostSign s r st)" "state_io_rel R (handlePostSignAll s st)" "state_io_rel R (handlePutClean p r st)"
  "state_io_rel R (handleReady st)" "state_io_rel R (handleGetExpirations st)" "state_io_rel R (handleOCSP s r st)"
  unfolding handlePostGenerate_def handlePostCertificateRenewal_def handlePostSign_def handlePostSignAll_def handlePutClean_def
    handleReady_def handleGetExpirations_def handleOCSP_def answerOCSP_def Generate_def Let_def decodeJSONBody_def
  by (auto intro!: every split: sum.split list.split pem.split decoded.split option.split)

lemma serving: "state_io_rel R (ServeHTTP s r st)"
  unfolding ServeHTTP_def mux_def handle_def
  by (auto intro!: every statuses artefacts submissions bulk same_io [OF same_middleware] split: verdict.split option.split handler.split)

end

section \<open>Routes and tiers\<close>

definition isPath :: "HttpRequest \<Rightarrow> string list \<Rightarrow> bool" where
  "isPath r segments = (rqSegments r = segments \<or> rqSegments r = ''puppet-ca'' # ''v1'' # segments)"

fun fits :: "pat list \<Rightarrow> string list \<Rightarrow> bool" where
  "fits [] ss = (ss = [])"
| "fits (Lit l # ps) ss = (\<exists>rest. ss = l # rest \<and> fits ps rest)"
| "fits (Wild # ps) ss = (\<exists>s rest. ss = s # rest \<and> s \<noteq> [] \<and> fits ps rest)"

lemma fits_nil: "fits (p # ps) [] = False"
  by (cases p) auto

lemma fits_match: "(matchPath ps ss \<noteq> None) = fits ps ss"
  by (induction ps ss rule: matchPath.induct) (auto simp: fits_nil)

definition tierOk :: "string \<Rightarrow> string list \<Rightarrow> handler \<Rightarrow> bool \<Rightarrow> bool" where
  "tierOk method segments h b =
     (reader h
      \<or> (h = HPutRequest \<and> method = ''PUT'' \<and> (\<exists>x. segments = [''certificate_request'', x] \<or> segments = [''puppet-ca'', ''v1'', ''certificate_request'', x]))
      \<or> (h = HRenewal \<and> method = ''POST'' \<and> (segments = [''certificate_renewal''] \<or> segments = [''puppet-ca'', ''v1'', ''certificate_renewal''])
         \<and> lookupTier method (concat (map (\<lambda>s. ''/'' @ s) segments)) b = tierOwnClient)
      \<or> lookupTier method (concat (map (\<lambda>s. ''/'' @ s) segments)) b = tierAdminOnly)"

lemma base_tiers:
  "list_all (\<lambda>(m, ps, h). \<forall>method ss. methodMatches m method \<longrightarrow> fits ps ss \<longrightarrow> tierOk method ss h b) baseRoutes"
  unfolding baseRoutes_def list.pred_inject prod.case
  by (intro conjI allI impI TrueI; force simp: tierOk_def reader_def methodMatches_def lookupTier_def TrimPrefix_def)

lemma prefixed_tiers:
  "list_all (\<lambda>(m, ps, h). \<forall>method ss. methodMatches m method \<longrightarrow> fits ps ss \<longrightarrow> tierOk method (''puppet-ca'' # ''v1'' # ss) h b) baseRoutes"
  unfolding baseRoutes_def list.pred_inject prod.case
  by (intro conjI allI impI TrueI; force simp: tierOk_def reader_def methodMatches_def lookupTier_def TrimPrefix_def)

lemma route_tiers:
  assumes "(m, ps, h) \<in> set Routes" "serves r (m, ps, h)"
  shows "tierOk (rqMethod r) (rqSegments r) h b"
proof -
  have f: "methodMatches m (rqMethod r)" "fits ps (rqSegments r)" using assms(2) by (auto simp: serves_def simp flip: fits_match)
  consider "(m, ps, h) \<in> set baseRoutes" | qs where "(m, qs, h) \<in> set baseRoutes" "ps = Lit ''puppet-ca'' # Lit ''v1'' # qs" | "reader h"
    using assms(1) by (auto simp: Routes_def reader_def)
  then show ?thesis
  proof cases
    case 1
    then show ?thesis using base_tiers [of b] f by (auto simp: list_all_iff)
  next
    case 2
    then obtain ss where "rqSegments r = ''puppet-ca'' # ''v1'' # ss" "fits qs ss" using f(2) by auto
    then show ?thesis using prefixed_tiers [of b] f(1) 2(1) by (auto simp: list_all_iff)
  qed (simp add: tierOk_def)
qed

text \<open>
  C5. Only the entitled change the store.  With authorisation configured, take any request,
  with any method, path, body and client certificates, on any replica and whatever calls
  fail.  If serving it leaves the store different, then it is the submission of a
  certificate request, or the middleware admitted it and vouched for the first peer
  certificate: it heads a chain to an anchor of a configured domain, in force at a reading
  of the clock taken while the middleware decided, and not found revoked; and either it is
  an administrator of that domain, or it comes from our own domain and the request is a
  renewal.
\<close>

theorem only_the_entitled_change_the_store:
  assumes "run_state (ServeHTTP s r st) w = (res, v)" "svAuthConfig s = Some cfg" "wStore v \<noteq> wStore w"
  shows "(rqMethod r = ''PUT'' \<and> (\<exists>x. isPath r [''certificate_request'', x]))
     \<or> (\<exists>p u cert d. run_state (newAuthMiddleware (svChecks s) (Some cfg) (rqMethod r) (rqPath r) (rqPeers r)) w = (Inr (Admitted p), u)
          \<and> vouchedFor cfg w u (rqPeers r) cert d
          \<and> (isAdmin d cert (nmCommonName (certSubject cert))
             \<or> tdOwn d \<and> rqMethod r = ''POST'' \<and> isPath r [''certificate_renewal'']))"
proof -
  let ?mw = "newAuthMiddleware (svChecks s) (Some cfg) (rqMethod r) (rqPath r) (rqPeers r)"
  have run: "run_state (bindE ?mw (\<lambda>q. case q of Denied \<Rightarrow> answer 403 st | Admitted p \<Rightarrow> mux s (clientOf p r) r st)) w = (res, v)"
    using assms(1,2) by (simp add: ServeHTTP_def)
  obtain q u where q: "run_state ?mw w = (q, u)" by fastforce
  have same: "sameState w u" using state_io_relD [OF same_middleware q] .
  have code: "wStore v = wStore u" if "run_state (answer c st) u = (res, v)" for c
    using that by (simp add: answer_def)
  obtain p where p: "q = Inr (Admitted p)" "run_state (mux s (clientOf p r) r st) u = (res, v)"
    using run q same assms(3) code
    by (cases q) (auto simp: run_bindE sameState_def split: verdict.splits)
  then obtain m ps h x where h: "find (serves r) Routes = Some (m, ps, h)" "run_state (handle s (clientOf p r) r h x st) u = (res, v)"
    using same assms(3) code by (fastforce simp: mux_def sameState_def split: if_splits option.splits)
  have row: "(m, ps, h) \<in> set Routes" "serves r (m, ps, h)"
    using h(1) by (auto simp: find_Some_iff in_set_conv_nth)
  have nr: "\<not> reader h"
    using state_io_relD [OF reader_reads h(2)] same assms(3) by (auto simp: storeSame_def sameState_def)
  let ?tier = "lookupTier (rqMethod r) (rqPath r) (acAllowPublicStatus cfg)"
  consider "rqMethod r = ''PUT'' \<and> (\<exists>x. isPath r [''certificate_request'', x])"
    | "rqMethod r = ''POST'' \<and> isPath r [''certificate_renewal'']" "?tier = tierOwnClient" | "?tier = tierAdminOnly"
    using route_tiers [OF row, of "acAllowPublicStatus cfg"] nr by (auto simp: tierOk_def isPath_def rqPath_def)
  then show ?thesis
  proof cases
    case 2
    then obtain cert d where "vouchedFor cfg w u (rqPeers r) cert d" "tdOwn d"
      using middleware_admits [OF q [unfolded p(1)] refl] by auto
    then show ?thesis using q [unfolded p(1)] 2(1) by blast
  next
    case 3
    then obtain cert d where "vouchedFor cfg w u (rqPeers r) cert d" "isAdmin d cert (nmCommonName (certSubject cert))"
      using middleware_admits [OF q [unfolded p(1)] refl] by auto
    then show ?thesis using q [unfolded p(1)] by blast
  qed simp
qed

definition demoServer :: Server where
  "demoServer = \<lparr>svChecks = laxChecks, svHashing = sampleHashing, svAuthConfig = Some demoAuth, svPlainHTTP = False, svSignBatchLimit = 10\<rparr>"

definition demoCall :: "string \<Rightarrow> string list \<Rightarrow> HttpRequest" where
  "demoCall method segments = \<lparr>rqMethod = method, rqSegments = segments, rqCanonical = True, rqPeers = [sampleLeaf 9],
     rqIP = ''10.0.0.1'', rqDNS = [], rqState = [], rqOCSPPath = None,
     rqBody = \<lparr>bdRead = True, bdBlank = True, bdStatus = Malformed, bdBySerial = Malformed, bdCertnames = Malformed,
       bdCSR = PEM sampleCSR, bdCert = PEM (sampleLeaf 9), bdAnother = False,
       bdOCSP = \<lparr>odParsed = Inl (ErrOther []), odExtensions = None\<rparr>\<rparr>\<rparr>"

definition demoApi :: ApiState where
  "demoApi = \<lparr>csrLimiter = None, destructiveOps = newDestructiveOpTracker 10 (60 * second)\<rparr>"

lemma demo_delete:
  "\<exists>v. run_state (ServeHTTP demoServer (demoCall ''DELETE'' [''certificate_request'', ''a'']) demoApi) sample
     = (Inr (Code 204, demoApi), v) \<and> stCSRs (wStore v) = []"
proof -
  let ?r = "demoCall ''DELETE'' [''certificate_request'', ''a'']"
  have "lookupTier ''DELETE'' ''/certificate_request/a'' False = tierAdminOnly" by (simp add: lookupTier_def TrimPrefix_def)
  from demo_admitted [OF this] obtain p u where
    u: "run_state (newAuthMiddleware laxChecks (Some demoAuth) ''DELETE'' ''/certificate_request/a'' [sampleLeaf 9]) sample = (Inr (Admitted p), u)"
       "sameState sample u" "faultless u" by blast
  have f: "find (serves ?r) Routes = Some (''DELETE'', [Lit ''certificate_request'', Wild], HDeleteRequest)"
    by (simp add: Routes_def baseRoutes_def serves_def methodMatches_def demoCall_def)
  have st: "wStore u = sampleStore" using u(2) by (simp add: sameState_def)
  have "\<exists>v. run_state (mux demoServer q ?r demoApi) u = (Inr (Code 204, demoApi), v) \<and> stCSRs (wStore v) = []" for q
    unfolding mux_def f using u(3) st
    by (simp add: demoCall_def handle_def handleDeleteRequest_def DeleteRequest_def DeleteCSR_def run_bindE run_attempt live_lock
        live_write deleteE_def answer_def sampleStore_def)
  then show ?thesis
    using u(1) by (simp add: ServeHTTP_def demoServer_def demoCall_def rqPath_def run_bindE)
qed

theorem only_the_entitled_change_the_store_witness:
  "\<exists>u v d. run_state (ServeHTTP demoServer (demoCall ''DELETE'' [''certificate_request'', ''a'']) demoApi) sample
     = (Inr (Code 204, demoApi), v) \<and> wStore v \<noteq> wStore sample
     \<and> vouchedFor demoAuth sample u [sampleLeaf 9] (sampleLeaf 9) d \<and> isAdmin d (sampleLeaf 9) ''a''"
proof -
  let ?r = "demoCall ''DELETE'' [''certificate_request'', ''a'']"
  obtain v where v: "run_state (ServeHTTP demoServer ?r demoApi) sample = (Inr (Code 204, demoApi), v)" "wStore v \<noteq> wStore sample"
    using demo_delete by (fastforce simp: sampleStore_def)
  have "svAuthConfig demoServer = Some demoAuth" by (simp add: demoServer_def)
  moreover have r: "rqMethod ?r = ''DELETE''" "rqPeers ?r = [sampleLeaf 9]" by (simp_all add: demoCall_def)
  ultimately obtain u cert d where c: "vouchedFor demoAuth sample u [sampleLeaf 9] cert d" "isAdmin d cert (nmCommonName (certSubject cert))"
    using only_the_entitled_change_the_store [OF v(1) _ v(2)] by auto
  then have "cert = sampleLeaf 9" by (simp add: vouchedFor_def)
  with v c show ?thesis by auto
qed

end
