(* ===== verification/Cluster.thy ===== *)
theory Cluster
  imports Api
begin

text \<open>
  Several replicas over one store.  Each replica has its own copy of the state a CA
  instance keeps in memory and its own configuration; the store is shared.  A step is one
  request served by one replica, with any clock, randomness and backend faults, and the
  requests are the public operations of the package ca, the periodic passes among them, and
  any HTTP request to any server in front of the replica.
  An operation is one step here; the two places where the code lets go of its lock on
  purpose, between reading the inventory and installing the index and between signing an
  OCSP answer and storing it, are covered by the theory SerialIndex and by the request
  that stores an answer signed earlier.
\<close>

record cluster =
  clStore :: store
  clReplicas :: "(CA \<times> config) list"

datatype request =
    RqSave string "CertificateRequest pem" | RqDelete string
  | RqSign string duration | RqSignMultiple "string list" | RqSignAll
  | RqRenew string "CertificateRequest pem" "Certificate option" | RqAutoRenew "Certificate option"
  | RqRevoke string | RqRevokeSerial string bool | RqClean string | RqCleanMultiple "string list"
  | RqReissue | RqRefresh duration | RqSyncCRL | RqChainFile | RqReconcile | RqSyncIndex
  | RqOCSP ocspHashing ocspReqDER | RqStoreOCSP OCSPRequest "bytes option" gotime ocspStatus
  | RqCleanup duration | RqImport string "Certificate pem" bool | RqGenerate string GenerateOptions
  | RqHTTP Server HttpRequest ApiState

definition outcomeOf :: "'a opr \<Rightarrow> unit opr" where
  "outcomeOf m = bindE m (\<lambda>_. ok ())"

fun serve :: "request \<Rightarrow> unit opr" where
  "serve (RqSave s q) = outcomeOf (SaveRequest s q)"
| "serve (RqDelete s) = DeleteRequest s"
| "serve (RqSign s ttl) = outcomeOf (SignWithTTL s ttl)"
| "serve (RqSignMultiple ss) = outcomeOf (SignMultiple ss)"
| "serve RqSignAll = outcomeOf SignAll"
| "serve (RqRenew s q p) = outcomeOf (Renew s q p)"
| "serve (RqAutoRenew p) = outcomeOf (AutoRenew p)"
| "serve (RqRevoke s) = Revoke s"
| "serve (RqRevokeSerial s force) = RevokeSerial s force"
| "serve (RqClean s) = Clean s"
| "serve (RqCleanMultiple ss) = outcomeOf (CleanMultiple ss)"
| "serve RqReissue = ReissueCRL"
| "serve (RqRefresh d) = outcomeOf (RefreshCRLIfDue d)"
| "serve RqSyncCRL = outcomeOf SyncCRLCache"
| "serve RqChainFile = outcomeOf RefreshCRLChainFile"
| "serve RqReconcile = outcomeOf ReconcileSuperseded"
| "serve RqSyncIndex = outcomeOf SyncSerialIndex"
| "serve (RqOCSP dep der) = outcomeOf (AnswerOCSP dep der)"
| "serve (RqStoreOCSP req nonce now status) =
     outcomeOf (ocspStore req nonce (ocspTemplate req nonce now status, now))"
| "serve (RqCleanup retain) = outcomeOf (CleanupExpiredCerts retain)"
| "serve (RqImport s q another) = outcomeOf (ImportCertificate s q another)"
| "serve (RqGenerate s opts) = outcomeOf (GenerateWithOptions s opts)"
| "serve (RqHTTP server r st) = outcomeOf (ServeHTTP server r st)"

text \<open>The serials whose revocation a request may forget: those a cleanup finds expired.\<close>

fun forgets :: "request \<Rightarrow> world \<Rightarrow> int set" where
  "forgets (RqCleanup retain) w = expiredSerials (cleanupCutoff retain w) (wStore w)"
| "forgets _ w = {}"

definition replicaWorld :: "store \<Rightarrow> CA \<times> config \<Rightarrow> env \<Rightarrow> world" where
  "replicaWorld st x env = \<lparr>wStore = st, wCA = fst x, wConfig = snd x, wEnv = env\<rparr>"

definition absorb :: "cluster \<Rightarrow> nat \<Rightarrow> world \<Rightarrow> cluster" where
  "absorb cl i v = \<lparr>clStore = wStore v, clReplicas = (clReplicas cl)[i := (wCA v, wConfig v)]\<rparr>"

inductive clusterStep :: "cluster \<Rightarrow> int set \<Rightarrow> cluster \<Rightarrow> bool" where
  served: "\<lbrakk>i < length (clReplicas cl); run_state (serve rq) (replicaWorld (clStore cl) (clReplicas cl ! i) env) = (r, v)\<rbrakk>
    \<Longrightarrow> clusterStep cl (forgets rq (replicaWorld (clStore cl) (clReplicas cl ! i) env)) (absorb cl i v)"

text \<open>A run of the cluster, with the serials its cleanups found expired.\<close>

inductive clusterRun :: "cluster \<Rightarrow> int set \<Rightarrow> cluster \<Rightarrow> bool" where
  start: "clusterRun cl {} cl"
| more: "\<lbrakk>clusterRun cl E cl'; clusterStep cl' F cl''\<rbrakk> \<Longrightarrow> clusterRun cl (E \<union> F) cl''"

inductive_cases stepE: "clusterStep cl F cl'"

section \<open>One request\<close>

definition keeps :: "int set \<Rightarrow> world \<Rightarrow> world \<Rightarrow> bool" where
  "keeps D w v = (crlStep D w v \<and> wfKept w v \<and> inventoryKept w v \<and> queueKept w v)"

definition keepsAll :: "world \<Rightarrow> world \<Rightarrow> bool" where
  "keepsAll w v = (owes w v \<and> wfKept w v \<and> inventoryKept w v \<and> queueKept w v)"

interpretation ka: step_relation keepsAll
  using ow.trans wk.trans ik.trans qk.trans ow.same wk.same ik.same qk.same
  unfolding keepsAll_def by unfold_locales blast+

lemma keepsAll_each: "keepsAll w v \<Longrightarrow> keeps D w v"
  by (simp add: keepsAll_def keeps_def owes_def)

lemma run_outcomeOf: "run_state (outcomeOf m) w = (r, v) \<Longrightarrow> \<exists>q. run_state m w = (q, v)"
  by (auto simp: outcomeOf_def run_bindE split: prod.splits sum.splits)

lemma all_of:
  "\<lbrakk>state_io_rel owes m; state_io_rel cacheShrinks m; state_io_rel inventoryKept m; state_io_rel queueKept m\<rbrakk>
    \<Longrightarrow> state_io_rel keepsAll m"
  using wk_shrinks [of m] unfolding state_io_rel_def keepsAll_def by blast

lemma all_outcome: "state_io_rel keepsAll m \<Longrightarrow> state_io_rel keepsAll (outcomeOf m)"
  unfolding outcomeOf_def by (intro ka.io)

lemma all_store:
  "\<lbrakk>\<And>w r v. run_state m w = (r, v) \<Longrightarrow> owes w v \<and> wfKept w v \<and> wStore v = wStore w\<rbrakk> \<Longrightarrow> state_io_rel keepsAll m"
  unfolding state_io_rel_def keepsAll_def inventoryKept_def queueKept_def by (metis prod.collapse)

lemma owes_crl: "state_io_rel owes ReissueCRL" "state_io_rel owes (RefreshCRLIfDue d)"
  "state_io_rel owes RefreshCRLChainFile" "state_io_rel owes SyncCRLCache"
proof -
  have "state_io_rel otherSame ReissueCRL" "state_io_rel otherSame (RefreshCRLIfDue d)"
    "state_io_rel otherSame RefreshCRLChainFile"
    unfolding ReissueCRL_def RefreshCRLIfDue_def RefreshCRLChainFile_def reissueCRLLocked_def withCRLLockCounted_def
    by (auto intro!: os.io quiet_other [OF quiet_upstream] quiet_other [OF quiet_readStored]
        quiet_reads [THEN quiet_other] quiet_count [THEN quiet_other] other_sign other_changeCA
        split: sum.splits)
  then show "state_io_rel owes ReissueCRL" "state_io_rel owes (RefreshCRLIfDue d)"
    "state_io_rel owes RefreshCRLChainFile" "state_io_rel owes SyncCRLCache"
    by (auto intro!: owes_other step_ReissueCRL step_RefreshCRLIfDue step_RefreshCRLChainFile step_SyncCRLCache
        other_SyncCRLCache)
qed

lemma all_each:
  "state_io_rel keepsAll (SaveRequest s q)" "state_io_rel keepsAll (DeleteRequest s)"
  "state_io_rel keepsAll (SignWithTTL s ttl)" "state_io_rel keepsAll (Renew s q p)" "state_io_rel keepsAll (AutoRenew p)"
  "state_io_rel keepsAll (Revoke s)" "state_io_rel keepsAll (RevokeSerial k force)" "state_io_rel keepsAll (Clean s)"
  "state_io_rel keepsAll ReissueCRL" "state_io_rel keepsAll (RefreshCRLIfDue d)" "state_io_rel keepsAll SyncCRLCache"
  "state_io_rel keepsAll RefreshCRLChainFile" "state_io_rel keepsAll ReconcileSuperseded"
  "state_io_rel keepsAll (ImportCertificate s pem another)" "state_io_rel keepsAll (GenerateWithOptions s opts)"
  by (auto intro!: all_of owes_issue issue_SaveRequest issue_DeleteRequest issue_Sign owes_Renew owes_AutoRenew
      owes_Revoke owes_RevokeSerial owes_Clean owes_crl owes_Reconcile owes_Import owes_Generate
      ck_requests ck_Sign ck_renewals ck_Revoke ck_Clean ck_crl ck_sync ck_Reconcile ck_Import ck_Generate
      ik_requests ik_Sign ik_renewals ik_Revoke ik_Clean ik_crl ik_sync ik_Reconcile ik_Import ik_Generate
      queue_SaveRequest queue_DeleteRequest queue_Sign queue_renewals queue_Revoke queue_Clean queue_crl queue_Reconcile
      queue_Import queue_Generate)

lemma all_many: "state_io_rel keepsAll (SignMultiple ss)" "state_io_rel keepsAll (CleanMultiple ss)"
  unfolding SignMultiple_def CleanMultiple_def
  by (rule all_of [OF owes_issue [OF issue_signEach] ck_many(1) ik_many(1) queue_many(1)])
    (rule all_of [OF owes_cleanEach ck_many(2) ik_many(2) queue_many(2)])

lemma all_SignAll: "state_io_rel keepsAll SignAll"
proof -
  have "state_io_rel keepsAll ListCSRs"
    using quiet_reads by (intro all_of owes_quiet ck_quiet ik_quiet queue_quiet)
  then show ?thesis unfolding SignAll_def by (intro ka.io all_many)
qed

lemma all_passes:
  "state_io_rel keepsAll SyncSerialIndex" "state_io_rel keepsAll (AnswerOCSP dep der)"
  "state_io_rel keepsAll (ocspStore req nonce (ocspTemplate req nonce now status, now))"
  using state_io_relD [OF owes_SyncSerialIndex] state_io_relD [OF wk_SyncSerialIndex] same_store_SyncIndex
    answer_step store_step
  by (auto intro!: all_store)

lemma all_latest: "state_io_rel keepsAll (LatestSerialForSubject s)"
  using inv_latest by (intro all_of owes_inv ck_inv ik_latest queue_inv)

lemma all_Sign: "state_io_rel keepsAll (Sign s)"
  by (intro all_of owes_issue issue_Sign ck_Sign ik_Sign queue_Sign)

text \<open>What the operations keep, a request that reaches them over HTTP keeps.\<close>

interpretation front: ca_operations keepsAll
  by unfold_locales (auto intro: all_each all_many all_passes all_latest all_Sign)

lemma serve_all: "(\<forall>retain. rq \<noteq> RqCleanup retain) \<Longrightarrow> state_io_rel keepsAll (serve rq)"
  by (cases rq) (auto intro!: all_outcome all_each all_many all_SignAll all_passes front.serving)

lemma serve_keeps:
  assumes "run_state (serve rq) w = (r, v)" "forgets rq w \<subseteq> D"
  shows "keeps D w v"
proof (cases "\<exists>retain. rq = RqCleanup retain")
  case True
  then obtain retain where rq: "rq = RqCleanup retain" by blast
  then obtain q where "run_state (CleanupExpiredCerts retain) w = (q, v)" using assms(1) run_outcomeOf by fastforce
  from cleanup_step [OF this] assms(2) rq show ?thesis by (simp add: keeps_def queuesSame_def queueKept_def queueOk_def)
next
  case False
  then show ?thesis using state_io_relD [OF serve_all assms(1)] keepsAll_each by blast
qed

section \<open>The invariant\<close>

definition replicaOk :: "Certificate option \<Rightarrow> int set \<Rightarrow> store \<Rightarrow> CA \<times> config \<Rightarrow> bool" where
  "replicaOk cert E st x = (CACert (fst x) = cert \<and> keyOk (fst x) \<and> ocspOk (fst x) \<and> ocspWf (fst x)
     \<and> (\<forall>env. cacheOk E (replicaWorld st x env)))"

definition clusterOk :: "Certificate option \<Rightarrow> int set \<Rightarrow> cluster \<Rightarrow> bool" where
  "clusterOk cert E cl = (inventoryOk (clStore cl) \<and> queueOk (clStore cl)
     \<and> (\<forall>x \<in> set (clReplicas cl). replicaOk cert E (clStore cl) x))"

text \<open>The stored list moves forward, and loses at most the serials of a set.\<close>

definition listForward :: "Certificate option \<Rightarrow> int set \<Rightarrow> store \<Rightarrow> store \<Rightarrow> bool" where
  "listForward cert D a b = (\<exists>l l'. ownOf cert (stCRL a) = Some l \<and> ownOf cert (stCRL b) = Some l'
     \<and> (l' = l \<or> newerCRL l' l) \<and> revokedSerials l - D \<subseteq> revokedSerials l')"

definition listedIn :: "Certificate option \<Rightarrow> store \<Rightarrow> int \<Rightarrow> bool" where
  "listedIn cert st n = (\<exists>l. ownOf cert (stCRL st) = Some l \<and> n \<in> revokedSerials l)"

lemma replicaWorld_parts [simp]:
  "wStore (replicaWorld st x env) = st" "wCA (replicaWorld st x env) = fst x" "wConfig (replicaWorld st x env) = snd x"
  by (simp_all add: replicaWorld_def)

lemma absorb_parts [simp]:
  "clStore (absorb cl i v) = wStore v" "clReplicas (absorb cl i v) = (clReplicas cl)[i := (wCA v, wConfig v)]"
  by (simp_all add: absorb_def)

lemma cacheOk_mono: "cacheOk D w \<Longrightarrow> D \<subseteq> E \<Longrightarrow> cacheOk E w"
  unfolding cacheOk_def by (meson Diff_mono order.refl order.trans)

lemma cacheOk_cong: "wStore v = wStore w \<Longrightarrow> wCA v = wCA w \<Longrightarrow> cacheOk D v = cacheOk D w"
  by (simp add: cacheOk_def leadTyped_def storedOwn_def)

lemma forward_trans: "listForward cert D a b \<Longrightarrow> listForward cert E b c \<Longrightarrow> listForward cert (D \<union> E) a c"
proof -
  assume "listForward cert D a b" "listForward cert E b c"
  then obtain k l m where l: "ownOf cert (stCRL a) = Some k" "ownOf cert (stCRL b) = Some l" "l = k \<or> newerCRL l k"
    "revokedSerials k - D \<subseteq> revokedSerials l" "ownOf cert (stCRL c) = Some m" "m = l \<or> newerCRL m l"
    "revokedSerials l - E \<subseteq> revokedSerials m"
    unfolding listForward_def by auto
  have "m = k \<or> newerCRL m k" using l(3,6) newerCRL_trans by blast
  moreover have "revokedSerials k - (D \<union> E) \<subseteq> revokedSerials m" using l(4,7) by blast
  ultimately show ?thesis using l unfolding listForward_def by blast
qed

lemma listed_forward: "listForward cert D a b \<Longrightarrow> listedIn cert a n \<Longrightarrow> n \<notin> D \<Longrightarrow> listedIn cert b n"
  unfolding listForward_def listedIn_def by auto

text \<open>The list a replica holds stays behind the stored one while others advance that.\<close>

lemma bystander_ok:
  assumes "replicaOk cert E a x" "listForward cert D a b" "E \<subseteq> D"
    and "\<forall>blob. stCRL b = Some blob \<longrightarrow> cbBlocks blob \<noteq> [] \<longrightarrow> blkType (hd (cbBlocks blob)) = crlType"
  shows "replicaOk cert D b x"
proof -
  have x: "CACert (fst x) = cert" "cacheOk E (replicaWorld a x env)" for env
    using assms(1) by (simp_all add: replicaOk_def)
  from assms(2) obtain l l' where l: "ownOf cert (stCRL a) = Some l" "ownOf cert (stCRL b) = Some l'"
    "l' = l \<or> newerCRL l' l" "revokedSerials l - D \<subseteq> revokedSerials l'"
    unfolding listForward_def by blast
  have k: "ownsCRL cert k" "k = l \<or> newerCRL l k" "revokedSerials k - E \<subseteq> revokedSerials l"
    if "cachedCRL (fst x) = Some k" for k
    using x l(1) that by (auto simp: cacheOk_def storedOwn_def)
  have "k = l' \<or> newerCRL l' k" "revokedSerials k - D \<subseteq> revokedSerials l'" if "cachedCRL (fst x) = Some k" for k
    using k [OF that] l(3,4) newerCRL_trans assms(3) by blast+
  then have "cacheOk D (replicaWorld b x env)" for env
    using k l(2) x(1) assms(4) by (auto simp: cacheOk_def storedOwn_def leadTyped_def)
  then show ?thesis using assms(1) by (simp add: replicaOk_def)
qed

text \<open>What one request does, on the replica that serves it and on the others.\<close>

lemma step_forward:
  assumes "run_state (serve rq) (replicaWorld st x env) = (r, v)" "replicaOk cert E st x"
    and "forgets rq (replicaWorld st x env) = F"
  shows "listForward cert F st (wStore v)" "replicaOk cert (E \<union> F) (wStore v) (wCA v, wConfig v)"
    "cacheForward (E \<union> F) (replicaWorld st x env) v" "wConfig v = snd x" "leadTyped v"
proof -
  let ?w = "replicaWorld st x env"
  have k: "keeps F ?w v" "keeps (E \<union> F) ?w v" using serve_keeps [OF assms(1)] assms(3) by auto
  have x: "keyOk (wCA ?w)" "CACert (wCA ?w) = cert" "cacheOk (E \<union> F) ?w" "cacheOk E ?w" "ocspOk (wCA ?w)" "ocspWf (wCA ?w)"
    using assms(2) cacheOk_mono [of E ?w "E \<union> F"] by (auto simp: replicaOk_def)
  have id: "sameId ?w v" using k(1) by (simp add: keeps_def crlStep_def)
  then have own: "storedOwn v = ownOf cert (stCRL (wStore v))" "storedOwn ?w = ownOf cert (stCRL st)" "CACert (wCA v) = cert"
    using x(2) by (auto simp: sameId_def storedOwn_def)
  have c: "advanced F ?w v" "cacheOk (E \<union> F) v" "cacheForward (E \<union> F) ?w v" "ocspOk (wCA v)" "ocspWf (wCA v)" "keyOk (wCA v)"
    using k x sameId_keyOk [OF id] by (auto simp: keeps_def crlStep_def wfKept_def)
  obtain l where l: "ownOf cert (stCRL st) = Some l" using x(4) own(2) by (auto simp: cacheOk_def)
  show "listForward cert F st (wStore v)"
  proof (cases "stCRL (wStore v) = stCRL st")
    case False
    then obtain l l' where "storedOwn ?w = Some l" "storedOwn v = Some l'" "newerCRL l' l" "revokedSerials l - F \<subseteq> revokedSerials l'"
      using c(1) unfolding advanced_def by auto
    then show ?thesis unfolding listForward_def own(1,2) by blast
  qed (simp add: listForward_def l)
  show "replicaOk cert (E \<union> F) (wStore v) (wCA v, wConfig v)"
    using c(4-6) own(3) iffD2 [OF cacheOk_cong c(2)] by (simp add: replicaOk_def)
  show "cacheForward (E \<union> F) ?w v" "wConfig v = snd x" "leadTyped v"
    using c(2,3) id by (simp_all add: sameId_def cacheOk_def)
qed

lemma clusterOk_step:
  assumes "clusterStep cl F cl'" "clusterOk cert E cl"
  shows "clusterOk cert (E \<union> F) cl' \<and> listForward cert F (clStore cl) (clStore cl')"
  using assms(1)
proof (cases rule: clusterStep.cases)
  case (served i rq env r v)
  let ?x = "clReplicas cl ! i"
  let ?w = "replicaWorld (clStore cl) ?x env"
  have x: "replicaOk cert E (clStore cl) ?x" using assms(2) served(3) by (simp add: clusterOk_def)
  note f = step_forward [OF served(4) x served(1) [symmetric]]
  have "keeps F ?w v" using serve_keeps [OF served(4)] served(1) by simp
  then have st: "inventoryOk (wStore v)" "queueOk (wStore v)"
    using assms(2) by (simp_all add: keeps_def inventoryKept_def queueKept_def clusterOk_def)
  have wide: "listForward cert (E \<union> F) (clStore cl) (wStore v)"
    using f(1) unfolding listForward_def by blast
  have "replicaOk cert (E \<union> F) (wStore v) y" if "y \<in> set (clReplicas cl)" for y
    using bystander_ok [OF _ wide, of E y] that assms(2) f(5) by (simp add: clusterOk_def leadTyped_def)
  then have "replicaOk cert (E \<union> F) (wStore v) y" if "y \<in> set (clReplicas cl')" for y
    using that served(2) f(2) set_update_subset_insert by fastforce
  then show ?thesis using st f(1) served(2) by (simp add: clusterOk_def)
qed

lemma clusterRun_from:
  assumes "clusterRun cl E cl'" "clusterOk cert D cl"
  shows "clusterOk cert (D \<union> E) cl'"
  using assms
proof (induction rule: clusterRun.induct)
  case (more cl E cl' F cl'')
  then show ?case using clusterOk_step [of cl' F cl'' cert "D \<union> E"] by (simp add: Un_assoc)
qed simp

lemma clusterRun_ok: "\<lbrakk>clusterRun cl E cl'; clusterOk cert {} cl\<rbrakk> \<Longrightarrow> clusterOk cert E cl'"
  using clusterRun_from [of cl E cl' cert "{}"] by simp

lemma clusterRun_forward:
  assumes "clusterRun cl E cl'" "clusterOk cert D cl" "clReplicas cl \<noteq> []"
  shows "listForward cert E (clStore cl) (clStore cl')"
  using assms
proof (induction rule: clusterRun.induct)
  case (start cl)
  then obtain x where "replicaOk cert D (clStore cl) x" by (cases "clReplicas cl") (auto simp: clusterOk_def)
  then have "cacheOk D (replicaWorld (clStore cl) x undefined)" "CACert (fst x) = cert" by (simp_all add: replicaOk_def)
  then show ?case by (auto simp: listForward_def cacheOk_def storedOwn_def)
next
  case (more cl E cl' F cl'')
  then show ?case using clusterOk_step clusterRun_from forward_trans by metis
qed

text \<open>What a replica holds moves forward too.\<close>

definition heldForward :: "int set \<Rightarrow> CA \<Rightarrow> CA \<Rightarrow> bool" where
  "heldForward D a b = (\<forall>k. cachedCRL a = Some k \<longrightarrow> (\<exists>k'. cachedCRL b = Some k' \<and> (k' = k \<or> newerCRL k' k)
     \<and> revokedSerials k - D \<subseteq> revokedSerials k'))"

lemma held_trans: "heldForward D a b \<Longrightarrow> heldForward E b c \<Longrightarrow> D \<subseteq> E \<Longrightarrow> heldForward E a c"
proof -
  assume h: "heldForward D a b" "heldForward E b c" "D \<subseteq> E"
  show ?thesis
    unfolding heldForward_def
  proof (intro allI impI)
    fix k assume "cachedCRL a = Some k"
    then obtain l where l: "cachedCRL b = Some l" "l = k \<or> newerCRL l k" "revokedSerials k - D \<subseteq> revokedSerials l"
      using h(1) unfolding heldForward_def by blast
    then obtain m where m: "cachedCRL c = Some m" "m = l \<or> newerCRL m l" "revokedSerials l - E \<subseteq> revokedSerials m"
      using h(2) unfolding heldForward_def by blast
    have "m = k \<or> newerCRL m k" "revokedSerials k - E \<subseteq> revokedSerials m"
      using l(2,3) m(2,3) h(3) newerCRL_trans by blast+
    then show "\<exists>k'. cachedCRL c = Some k' \<and> (k' = k \<or> newerCRL k' k) \<and> revokedSerials k - E \<subseteq> revokedSerials k'"
      using m(1) by blast
  qed
qed

lemma clusterStep_held:
  assumes "clusterStep cl F cl'" "clusterOk cert E cl" "j < length (clReplicas cl)"
  shows "heldForward (E \<union> F) (fst (clReplicas cl ! j)) (fst (clReplicas cl' ! j)) \<and> length (clReplicas cl') = length (clReplicas cl)"
  using assms(1)
proof (cases rule: clusterStep.cases)
  case (served i rq env r v)
  have x: "replicaOk cert E (clStore cl) (clReplicas cl ! i)" using assms(2) served(3) by (simp add: clusterOk_def)
  have "heldForward (E \<union> F) (fst (clReplicas cl ! i)) (wCA v)"
    using step_forward(3) [OF served(4) x served(1) [symmetric]] by (simp add: heldForward_def cacheForward_def)
  moreover have "heldForward (E \<union> F) a a" for a by (auto simp: heldForward_def)
  ultimately show ?thesis using served(2,3) by (cases "i = j") simp_all
qed

lemma clusterRun_held:
  assumes "clusterRun cl E cl'" "clusterOk cert {} cl" "j < length (clReplicas cl)"
  shows "heldForward E (fst (clReplicas cl ! j)) (fst (clReplicas cl' ! j)) \<and> length (clReplicas cl') = length (clReplicas cl)"
  using assms
proof (induction rule: clusterRun.induct)
  case (start cl)
  then show ?case by (auto simp: heldForward_def)
next
  case (more cl E cl' F cl'')
  then have "clusterOk cert E cl'" "j < length (clReplicas cl')" using clusterRun_ok by auto
  then have "heldForward (E \<union> F) (fst (clReplicas cl' ! j)) (fst (clReplicas cl'' ! j))"
    "length (clReplicas cl'') = length (clReplicas cl')"
    using clusterStep_held [OF more(2)] by blast+
  then show ?case using more.IH [OF more.prems] held_trans [OF _ _ Un_upper1] by metis
qed

text \<open>What is owed a revocation stays owed until it is listed.\<close>

definition owedIn :: "store \<Rightarrow> supersededEntry set" where
  "owedIn st = (case stSuperseded st of None \<Rightarrow> {} | Some b \<Rightarrow> set (sbEntries b))"

definition settled :: "Certificate option \<Rightarrow> int set \<Rightarrow> store \<Rightarrow> supersededEntry \<Rightarrow> bool" where
  "settled cert E st e = (\<exists>n. (set_string16 (seSerial e) = Some n \<or> NormaliseSerial (seSerial e) = Inr (serialHexStr n))
     \<and> (listedIn cert st n \<or> n \<in> E))"

lemma settled_forward: "settled cert E a e \<Longrightarrow> listForward cert F a b \<Longrightarrow> settled cert (E \<union> F) b e"
  unfolding settled_def using listed_forward by blast

lemma clusterStep_owed:
  assumes "clusterStep cl F cl'" "clusterOk cert E cl" "e \<in> owedIn (clStore cl)"
  shows "e \<in> owedIn (clStore cl') \<or> settled cert F (clStore cl') e \<or> malformed e"
  using assms(1)
proof (cases rule: clusterStep.cases)
  case (served i rq env r v)
  let ?w = "replicaWorld (clStore cl) (clReplicas cl ! i) env"
  have x: "keyOk (wCA ?w)" "CACert (wCA ?w) = cert"
    using assms(2) served(3) by (simp_all add: clusterOk_def replicaOk_def)
  have p: "set (pending u) = owedIn (wStore u)" for u by (simp add: pending_def owedIn_def split: option.splits)
  show ?thesis
  proof (cases "\<exists>retain. rq = RqCleanup retain")
    case True
    then obtain retain q where "run_state (CleanupExpiredCerts retain) ?w = (q, v)"
      using served(4) run_outcomeOf by fastforce
    from cleanup_step(4) [OF this subset_refl] show ?thesis using assms(3) served(2) by (simp add: queuesSame_def owedIn_def)
  next
    case False
    then have o: "owes ?w v" using state_io_relD [OF serve_all served(4)] by (simp add: keepsAll_def)
    then have "CACert (wCA v) = cert" using x(2) by (auto simp: owes_def crlStep_def sameId_def)
    then have "settled cert F (wStore v) e" if "entryRevoked v e"
      using that unfolding entryRevoked_def settled_def onList_def listedIn_def storedOwn_def by blast
    moreover have "e \<in> set (pending v) \<or> entryRevoked v e \<or> malformed e"
      using o x(1) assms(3) p [of ?w] by (simp add: owes_def accounted_def)
    ultimately show ?thesis using p [of v] served(2) by auto
  qed
qed

lemma clusterRun_owed:
  assumes "clusterRun cl E cl'" "clusterOk cert {} cl" "e \<in> owedIn (clStore cl)"
  shows "e \<in> owedIn (clStore cl') \<or> settled cert E (clStore cl') e \<or> malformed e"
  using assms
proof (induction rule: clusterRun.induct)
  case (more cl E cl' F cl'')
  have ok: "clusterOk cert E cl'" using clusterRun_ok [OF more.hyps(1) more.prems(1)] .
  have "settled cert (E \<union> F) (clStore cl'') e" if "settled cert F (clStore cl'') e"
    using that unfolding settled_def by blast
  then show ?case
    using more.IH [OF more.prems] clusterStep_owed [OF more.hyps(2) ok] settled_forward clusterOk_step [OF more.hyps(2) ok]
    by blast
qed simp

section \<open>A cluster of two replicas\<close>

text \<open>
  The first replica has the list with serial 1 on it, the second has an older list.  The
  second cluster owes the revocation of serial 9 as well.
\<close>

definition sampleCluster :: "supersededBlob option \<Rightarrow> cluster" where
  "sampleCluster b = \<lparr>clStore = (wStore (sampleIssued 2 [1]))\<lparr>stSuperseded := b\<rparr>,
     clReplicas = [(wCA (sampleWith 2 [1]), sampleConfig), (wCA (sampleWith 1 []), sampleConfig)]\<rparr>"

lemma sampleCluster_ok: "clusterOk (Some sampleCACert) {} (sampleCluster b)"
proof -
  have nw: "newerCRL (sampleCRL 2 [1]) (sampleCRL 1 [])" by (simp add: newerCRL_def sampleCRL_def)
  have rs: "revokedSerials (sampleCRL n ss) = set ss" for n ss by (simp add: revokedSerials_def sampleCRL_def image_image)
  let ?st = "clStore (sampleCluster b)"
  have crl: "stCRL ?st = Some (encodeCRLChain [sampleCRL 2 [1]])" by (simp add: sampleCluster_def sampleIssued_parts)
  have own: "ownOf (Some sampleCACert) (stCRL ?st) = Some (sampleCRL 2 [1])" by (simp add: crl ownOf_def parse_encoded)
  have lead: "leadTyped (replicaWorld ?st x env)" for x env by (simp add: leadTyped_def crl encodeCRLChain_def)
  have "replicaOk (Some sampleCACert) {} ?st (wCA (sampleWith n ss), sampleConfig)"
    if "sampleCRL n ss = sampleCRL 2 [1] \<or> newerCRL (sampleCRL 2 [1]) (sampleCRL n ss)" "set ss \<subseteq> {1}" for n ss
    using that own lead sampleWith_ok(1) [of n ss]
    by (auto simp: replicaOk_def cacheOk_def storedOwn_def ocspOk_def ocspWf_def sampleWith_def sampleCA_def
        rs)
  then have r: "replicaOk (Some sampleCACert) {} ?st (wCA (sampleWith 2 [1]), sampleConfig)"
    "replicaOk (Some sampleCACert) {} ?st (wCA (sampleWith 1 []), sampleConfig)" using nw by simp_all
  have "storeEntries ?st = [demoEntry 1 ''a'']" "storeBlob ?st = storeBlob (wStore (sampleIssued 2 [1]))"
    using sampleIssued_parts(1) by (simp_all add: sampleCluster_def storeEntries_def storeBlob_def)
  moreover have "storeBlob (wStore (sampleIssued 2 [1])) = []" by (simp add: sampleIssued_def storeBlob_def)
  moreover have "entryOk (demoEntry 1 ''a'')" by (rule demoEntry_ok)
  ultimately have "inventoryOk ?st" by (simp add: inventoryOk_def invOk_def terminated_def)
  moreover have "queueOk ?st" by (simp add: queueOk_def sampleCluster_def sampleIssued_def sampleWith_def sampleStore_def)
  ultimately show ?thesis using r by (simp add: clusterOk_def) (simp add: sampleCluster_def)
qed

text \<open>The first replica serves a revocation, and the second one can then adopt the stored list.\<close>

lemma sampleCluster_step:
  obtains v where "clusterRun (sampleCluster None) {} (absorb (sampleCluster None) 0 v)"
    "stCRL (wStore v) = Some (encodeCRLChain [sampleCRL 2 [1]])"
proof -
  have w: "replicaWorld (clStore (sampleCluster None)) (clReplicas (sampleCluster None) ! 0) sampleEnv = sampleIssued 2 [1]"
    by (simp add: replicaWorld_def sampleCluster_def sampleIssued_def sampleWith_def sample_def sampleStore_def)
  obtain v where v: "run_state (Revoke ''a'') (sampleIssued 2 [1]) = (Inr (), v)"
    "stCRL (wStore v) = Some (encodeCRLChain [sampleCRL 2 [1]])" by (rule sampleIssued_listed)
  have "clusterStep (sampleCluster None) {} (absorb (sampleCluster None) 0 v)"
    using clusterStep.served [of 0 "sampleCluster None" "RqRevoke ''a''" sampleEnv "Inr ()" v] v(1)
    by (simp only: w serve.simps forgets.simps) (simp add: sampleCluster_def)
  then have "clusterRun (sampleCluster None) ({} \<union> {}) (absorb (sampleCluster None) 0 v)"
    by (rule clusterRun.more [OF clusterRun.start])
  then show ?thesis using that v(2) by simp
qed

lemma sampleCluster_syncs:
  assumes "stCRL (wStore v) = Some (encodeCRLChain [sampleCRL 2 [1]])"
  obtains b where "run_state SyncCRLCache (replicaWorld (clStore (absorb (sampleCluster None) 0 v))
      (clReplicas (absorb (sampleCluster None) 0 v) ! 1) sampleEnv) = (Inr True, b)"
proof -
  let ?b = "replicaWorld (clStore (absorb (sampleCluster None) 0 v)) (clReplicas (absorb (sampleCluster None) 0 v) ! 1) sampleEnv"
  have ca: "CACert (wCA ?b) = Some sampleCACert" "cachedCRL (wCA ?b) = Some (sampleCRL 1 [])"
    by (simp_all add: sampleCluster_def) (simp_all add: sampleWith_def sampleCA_def)
  have f: "faultless ?b" by (simp add: faultless_def replicaWorld_def sampleEnv_def)
  have nw: "newerCRL (sampleCRL 2 [1]) (sampleCRL 1 [])" by (simp add: newerCRL_def sampleCRL_def)
  show ?thesis using that live_adopt [OF _ _ ca(2,1) sample_owns nw] f assms by (auto simp: faultless_def sampleCRL_def)
qed

lemma sampleCluster_owes:
  obtains v where "clusterRun (sampleCluster b) {} (absorb (sampleCluster b) 1 v)"
proof -
  let ?w = "replicaWorld (clStore (sampleCluster b)) (clReplicas (sampleCluster b) ! 1) sampleEnv"
  obtain r v where "run_state (serve RqReconcile) ?w = (r, v)" by fastforce
  then have "clusterStep (sampleCluster b) (forgets RqReconcile ?w) (absorb (sampleCluster b) 1 v)"
    by (intro clusterStep.served) (simp add: sampleCluster_def)
  then have "clusterRun (sampleCluster b) ({} \<union> forgets RqReconcile ?w) (absorb (sampleCluster b) 1 v)"
    by (rule clusterRun.more [OF clusterRun.start])
  then show ?thesis using that by simp
qed

text \<open>A serial on the stored list is rejected by every replica that synchronises, at the end of a run.\<close>

lemma cacheOk_listed: "cacheOk D w \<Longrightarrow> onList w n \<Longrightarrow> cacheOk (D - {n}) w"
  unfolding cacheOk_def onList_def by fastforce

lemma clusterRun_length: "clusterRun cl E cl' \<Longrightarrow> length (clReplicas cl') = length (clReplicas cl)"
  by (induction rule: clusterRun.induct) (auto elim!: clusterStep.cases)

lemma listed_rejects:
  assumes "clusterRun cl E cl'" "clusterOk cert D cl" "listedIn cert (clStore cl) n" "n \<notin> E"
    and "j < length (clReplicas cl)" "run_state SyncCRLCache (replicaWorld (clStore cl') (clReplicas cl' ! j) env) = (Inr x, b)"
  shows "rejects n b"
proof -
  let ?w = "replicaWorld (clStore cl') (clReplicas cl' ! j) env"
  have "clReplicas cl \<noteq> []" using assms(5) by auto
  then have l: "listedIn cert (clStore cl') n"
    using clusterRun_forward [OF assms(1,2)] listed_forward assms(3,4) by blast
  have "replicaOk cert (D \<union> E) (clStore cl') (clReplicas cl' ! j)"
    using clusterRun_from [OF assms(1,2)] clusterRun_length [OF assms(1)] assms(5) by (simp add: clusterOk_def)
  then have r: "CACert (wCA ?w) = cert" "keyOk (wCA ?w)" "cacheOk (D \<union> E) ?w" "ocspOk (wCA ?w)" "ocspWf (wCA ?w)"
    by (simp_all add: replicaOk_def)
  have o: "onList ?w n" using l r(1) by (simp add: listedIn_def onList_def storedOwn_def)
  show ?thesis by (rule synced_rejects [OF o refl refl r(2) cacheOk_listed [OF r(3) o] _ r(4,5) assms(6)]) simp
qed

end
