(* ===== verification/Spec2Isabelle.thy ===== *)
theory Spec2Isabelle
  imports Cluster
begin

text \<open>
  Verification library of openvox-ca, the certificate authority for OpenVox agents.

  \<^bold>\<open>The program.\<close>  The package ca (internal/ca) holds a CA certificate with its key, signs
  leaf certificates, revokes them on a CRL and answers OCSP requests.  What it keeps is in
  a storage service (internal/storage): the queue of requests, the issued certificates, the
  CRL with the lists of the CA's ancestors, the list of replaced certificates that still
  wait for their revocation, and the inventory of everything issued, as the text file of
  OpenVox Server or as a table, with a keyed integrity value.  The package api
  (internal/api) puts HTTP in front: it attributes the client's certificate to a trust
  domain, decides by the tier of the route, and calls ca.  Several replicas of the server
  can share one store; each keeps the CRL, the serials it answers OCSP for and the signed
  OCSP answers in memory and synchronises them by periodic passes.

  \<^bold>\<open>The state and its operations.\<close>  The theory World has the records: \<^typ>\<open>store\<close> (what the
  backend keeps), \<^typ>\<open>CA\<close> (what one replica keeps in memory), \<^typ>\<open>config\<close> and the
  environment: the clock, the random source, the faults to come and the locks held.  An
  operation is a state transformer with an error, \<open>opr\<close>.  Every call of the backend
  takes the next fault from the environment: it may succeed, fail before its effect, or
  report a failure after it took effect.  The theorems that do not say that the backend
  answers hold for every such sequence.  A locked section of the sources is one sequence of
  such calls, entered and left by \<open>WithLock\<close> and \<open>withMu\<close>.  A reading of the clock returns the time
  the environment holds, which never steps back within an operation.

  \<^bold>\<open>The theories,\<close> in the order of their imports.
  \<^item> Prelude, GoTime, X509: the functions of Go's standard library the sources call
    (strings, white space in runes, hexadecimal numbers, dates and times, 64-bit durations
    that wrap), the error values, and certificates, requests and lists as records of their
    fields.  A signature is the key it was made with; a PEM block holds its parsed
    content or is unreadable.
  \<^item> Serial, Oids, Subject: NormaliseSerial and the spellings of serial numbers
    (storage.go), the authorisation arc and grants (oids.go, authgrant.go), ValidateSubject
    and the checks on names (signing.go).
  \<^item> Inventory: the text form and the table (storage.go, sql_inventory.go), the integrity
    chain and the line formats.  The locale \<open>inventory_form\<close> is what both promise; each is
    an interpretation, so one sequence of appends and prunes has the same results on both.
  \<^item> CrlChain, Crl: the stored chain of lists and the upstream file (crlchain.go,
    crlchainfile.go), signing, installing and synchronising the list (crl.go, crlsync.go).
    The locale \<open>recency\<close> holds the order of lists.
  \<^item> Autosign: CheckAutosign with filepath.Match written out (autosign.go).
  \<^item> World, Sample, Storage: the state, the monad with its faults, a concrete CA for the
    examples, and the typed operations of storage.go.  The locale \<open>step_relation\<close> of World
    is the proof method of the library: a relation between states that is reflexive,
    transitive and blind to the environment is kept by an operation as soon as its calls
    keep it.  Its interpretations name what operations keep: the cached list
    (Crl), the obligations (Revoke), the inventory and the queue (Frames), and more.
  \<^item> Revoke, Supersede, Signing: revoke.go, supersede.go and signing.go, operation by
    operation, with what each keeps.
  \<^item> Issuance, Revocation: the properties of signing, renewing and revoking.
  \<^item> SerialIndex, Ocsp: serialsync.go and ocsp.go.  An index pass and an OCSP answer let go
    of their lock in the middle; both are split there, and the theorems allow anything in
    between.
  \<^item> Cleanup, Enrol: cleanup.go; generate.go, importcert.go and keys.go.
  \<^item> Frames: what every public operation keeps.
  \<^item> ClientCrl, RateLimit, Access, Api: clientcrl.go with the reload of
    cmd/openvox-ca/clientca.go, ratelimit.go, auth.go with trustdomain.go and principal.go,
    and handlers.go with the routes.  The locale \<open>ca_operations\<close> of Api is what the handlers
    ask of the package ca; from it follows what serving any request keeps.
  \<^item> Cluster: replicas over one store.  \<open>clusterStep\<close> is one request on one replica, be it a
    call of ca, a periodic pass or an HTTP request; \<open>clusterRun\<close> is any sequence of them,
    and collects the serials that cleanups found expired.

  \<^bold>\<open>What is shown.\<close>  Of the cluster, below: it stays sound, lists only move forward, a
  revocation is permanent and reaches every replica that synchronises, and what is owed a
  revocation is not forgotten.  Of the API: only an entitled client changes the store, an
  admitted client was vouched for by a verified chain at a reading of the clock, a foreign
  client that passes is not revoked, reloads of the CRL file do not go back, and the
  limiter bounds every interval.  Of issuance: a signed request confers no authority and
  names its subject only, a renewal was entitled, a revoked or replaced certificate is not
  renewed, a good request is signed and recorded, generation retires the old certificate,
  an import is vouched for.  Of revocation: success means listed, revocation goes through
  when the backend answers, revoking by serial spares the certificate in use.  Of OCSP:
  answers tell the truth of what the replica holds, and a late store does no harm.  Of
  storage: a record is appended or nothing happens, a verified read returns what was
  recorded or exhibits a failure of the hash, both forms of the inventory agree, lines and
  serials are read back.  Cleanup removes what expired and nothing else.

  \<^bold>\<open>Bounds.\<close>  No operation needs fuel: the loops of the sources run over lists, and the search
  for chains of crypto/x509 has the limit on signature checks of that package.
  Durations are taken modulo 64 bits where the sources multiply them.

  \<^bold>\<open>Parameters.\<close>  HMAC-SHA256, the digests of an OCSP request, the remaining checks of
  crypto/x509 on a chain, what the autosign executable answers and the content of the
  upstream CRL file are arguments.

  \<^bold>\<open>What is not modelled.\<close>  The clients of the backends and the locks on files: the store is
  what they promise, a call is atomic, and a short write does not occur.  Of the
  structured inventories only the rows and statements of the SQL one are written out,
  without its retries, its projection columns and the batch forms of etcd and Redis; the
  status listing is the one without these columns.  A private key is represented by its
  public half and stored on the disk of the replica that made it.  A step of
  the cluster is a whole operation, apart from the two split ones; operations on one
  subject exclude each other by a lock in the sources, and the one place that does not
  take it, the deletion in a cleanup, is atomic here.  A reload of the client
  CRLs reports every anchor that went back where the code stops at the first.  Bootstrap and
  import of CA material, key encryption, remote signers, configuration, metrics, Kubernetes,
  the control command and the build are outside: they surround the parts above.
\<close>

section \<open>What a cluster promises\<close>

text \<open>
  C2. The cluster stays sound.  Whatever requests its replicas serve, in any order and with
  any faults, each replica keeps holding a list of its own CA that is not ahead of the
  stored one, caches no good answer for a serial on the list it holds, and keeps its cached
  answers well formed; the inventory stays well formed with no serial twice, and every
  queued request carries the name it is filed under.  What the lists may have lost is what
  cleanups found expired.
\<close>

theorem cluster_stays_sound:
  assumes "clusterRun cl E cl'" "clusterOk cert {} cl"
  shows "clusterOk cert E cl'"
  by (rule clusterRun_ok [OF assms])

theorem cluster_stays_sound_witness:
  "\<exists>cl'. clusterRun (sampleCluster None) {} cl' \<and> clusterOk (Some sampleCACert) {} cl'"
proof -
  obtain v where "clusterRun (sampleCluster None) {} (absorb (sampleCluster None) 0 v)" by (rule sampleCluster_step)
  with cluster_stays_sound [OF this sampleCluster_ok] show ?thesis by blast
qed

text \<open>
  C3. Revocation lists only move forward.  Over any run of the cluster the stored list is
  the same or a newer one, and so is the list every replica holds, and no serial leaves
  either list but those cleanups found expired.
\<close>

theorem cluster_lists_move_forward:
  assumes "clusterRun cl E cl'" "clusterOk cert {} cl" "j < length (clReplicas cl)"
  shows "listForward cert E (clStore cl) (clStore cl') \<and> heldForward E (fst (clReplicas cl ! j)) (fst (clReplicas cl' ! j))"
proof -
  have "clReplicas cl \<noteq> []" using assms(3) by auto
  then show ?thesis using clusterRun_forward [OF assms(1,2)] clusterRun_held [OF assms] by blast
qed

theorem cluster_lists_move_forward_witness:
  "\<exists>cl'. clusterRun (sampleCluster None) {} cl'
     \<and> listForward (Some sampleCACert) {} (clStore (sampleCluster None)) (clStore cl')"
proof -
  obtain v where r: "clusterRun (sampleCluster None) {} (absorb (sampleCluster None) 0 v)" by (rule sampleCluster_step)
  have "0 < length (clReplicas (sampleCluster None))" by (simp add: sampleCluster_def)
  from cluster_lists_move_forward [OF r sampleCluster_ok this] r show ?thesis by blast
qed

text \<open>
  C1. A revocation is for good.  If a serial is on the stored list, then however long the
  cluster runs, as long as no cleanup found its certificate expired, any replica that
  synchronises with the store treats it as revoked.
\<close>

theorem cluster_revocation_is_permanent:
  assumes "clusterRun cl E cl'" "clusterOk cert {} cl" "listedIn cert (clStore cl) n" "n \<notin> E"
    and "j < length (clReplicas cl)" "run_state SyncCRLCache (replicaWorld (clStore cl') (clReplicas cl' ! j) env) = (Inr x, b)"
  shows "rejects n b"
  by (rule listed_rejects [OF assms])

theorem cluster_revocation_is_permanent_witness:
  "\<exists>cl' b. clusterRun (sampleCluster None) {} cl'
     \<and> run_state SyncCRLCache (replicaWorld (clStore cl') (clReplicas cl' ! 1) sampleEnv) = (Inr True, b) \<and> rejects 1 b"
proof -
  obtain v where r: "clusterRun (sampleCluster None) {} (absorb (sampleCluster None) 0 v)"
    and v: "stCRL (wStore v) = Some (encodeCRLChain [sampleCRL 2 [1]])" by (rule sampleCluster_step)
  let ?cl = "absorb (sampleCluster None) 0 v"
  let ?b = "replicaWorld (clStore ?cl) (clReplicas ?cl ! 1) sampleEnv"
  obtain b where b: "run_state SyncCRLCache ?b = (Inr True, b)" using sampleCluster_syncs [OF v] .
  have l: "listedIn (Some sampleCACert) (clStore (sampleCluster None)) 1"
    by (simp add: listedIn_def sampleCluster_def sampleIssued_parts ownOf_def parse_encoded)
  have "1 < length (clReplicas (sampleCluster None))" by (simp add: sampleCluster_def)
  from cluster_revocation_is_permanent [OF r sampleCluster_ok l _ this b] r b show ?thesis by blast
qed

text \<open>
  C14. A revocation reaches every replica.  Let a cluster run from a sound start, let one of
  its replicas then revoke a subject with success, and let the cluster run on.  Any replica
  that synchronises its list with the store afterwards reports the certificate the
  inventory listed last for the subject as revoked, refuses to renew it by either path, and
  does not answer good for it, however far it lagged behind and whatever the cleanups
  before the revocation had dropped, as long as no cleanup after the revocation found the
  certificate expired.
\<close>

theorem revocation_reaches_every_replica:
  assumes "clusterRun cl0 D cl" "clusterOk cert {} cl0" "i < length (clReplicas cl)"
    and "run_state (Revoke subject) (replicaWorld (clStore cl) (clReplicas cl ! i) env) = (Inr (), v)"
    and "latestSerial (storeEntries (clStore cl)) subject = Inr s" "set_string16 s = Some n"
    and "clusterRun (absorb cl i v) E cl'" "n \<notin> E" "j < length (clReplicas cl)"
    and "run_state SyncCRLCache (replicaWorld (clStore cl') (clReplicas cl' ! j) env') = (Inr x, b)"
  shows "rejects n b"
proof -
  let ?w = "replicaWorld (clStore cl) (clReplicas cl ! i) env"
  have sv: "run_state (serve (RqRevoke subject)) ?w = (Inr (), v)" using assms(4) by simp
  have ok: "clusterOk cert D cl" by (rule clusterRun_ok [OF assms(1,2)])
  have step: "clusterStep cl (forgets (RqRevoke subject) ?w) (absorb cl i v)" by (rule clusterStep.served [OF assms(3) sv])
  then have "clusterOk cert D (absorb cl i v)" using clusterOk_step [OF step ok] by simp
  moreover have x: "replicaOk cert D (clStore cl) (clReplicas cl ! i)" using ok assms(3) by (simp add: clusterOk_def)
  then have k: "keyOk (wCA ?w)" "CACert (wCA v) = cert"
    using step_forward(2) [OF sv x refl] by (simp_all add: replicaOk_def)
  from assms(4) k(1) obtain s' n' where "latestSerial (storeEntries (clStore cl)) subject = Inr s'" "set_string16 s' = Some n'"
    "onList v n'" using Revoke_ok by (metis replicaWorld_parts(1))
  then have "listedIn cert (clStore (absorb cl i v)) n"
    using assms(5,6) k(2) by (simp add: listedIn_def onList_def storedOwn_def)
  moreover have "j < length (clReplicas (absorb cl i v))" using assms(9) by simp
  ultimately show ?thesis using assms(7,8,10) listed_rejects by blast
qed

text \<open>The second replica of the example still holds an empty list.\<close>

theorem revocation_reaches_every_replica_witness:
  "\<exists>v b. run_state (Revoke ''a'') (replicaWorld (clStore (sampleCluster None)) (clReplicas (sampleCluster None) ! 0) sampleEnv) = (Inr (), v)
     \<and> cachedCRL (fst (clReplicas (absorb (sampleCluster None) 0 v) ! 1)) = Some (sampleCRL 1 [])
     \<and> run_state SyncCRLCache (replicaWorld (wStore v) (clReplicas (absorb (sampleCluster None) 0 v) ! 1) sampleEnv) = (Inr True, b)
     \<and> rejects 1 b"
proof -
  let ?cl = "sampleCluster None"
  have w: "replicaWorld (clStore ?cl) (clReplicas ?cl ! 0) sampleEnv = sampleIssued 2 [1]"
    by (simp add: replicaWorld_def sampleCluster_def sampleIssued_def sampleWith_def sample_def sampleStore_def)
  obtain v where v: "run_state (Revoke ''a'') (replicaWorld (clStore ?cl) (clReplicas ?cl ! 0) sampleEnv) = (Inr (), v)"
    "stCRL (wStore v) = Some (encodeCRLChain [sampleCRL 2 [1]])" unfolding w by (rule sampleIssued_listed)
  let ?cl' = "absorb ?cl 0 v"
  obtain b where b: "run_state SyncCRLCache (replicaWorld (clStore ?cl') (clReplicas ?cl' ! 1) sampleEnv) = (Inr True, b)"
    using sampleCluster_syncs [OF v(2)] by metis
  have e: "latestSerial (storeEntries (clStore ?cl)) ''a'' = Inr (serialHexStr 1)"
    using sampleIssued_parts(1) [of 2 "[1]"] sampleIssued_parts(6) by (simp add: sampleCluster_def storeEntries_def)
  have "0 < length (clReplicas ?cl)" "1 < length (clReplicas ?cl)" by (simp_all add: sampleCluster_def)
  with revocation_reaches_every_replica [OF clusterRun.start sampleCluster_ok _ v(1) e sampleIssued_parts(7) clusterRun.start _ _ b]
  have "rejects 1 b" by simp
  moreover have "cachedCRL (fst (clReplicas ?cl' ! 1)) = Some (sampleCRL 1 [])"
    by (simp add: sampleCluster_def) (simp add: sampleWith_def sampleCA_def)
  ultimately show ?thesis using v(1) b by auto
qed

text \<open>
  C4. Nothing owed a revocation is forgotten.  A replaced certificate waiting for its
  revocation keeps waiting, over any run of the cluster, until its serial is on the stored
  list, unless its serial is unreadable or a cleanup found the certificate expired.
\<close>

theorem cluster_settles_what_it_owes:
  assumes "clusterRun cl E cl'" "clusterOk cert {} cl" "e \<in> owedIn (clStore cl)"
  shows "e \<in> owedIn (clStore cl') \<or> settled cert E (clStore cl') e \<or> malformed e"
  by (rule clusterRun_owed [OF assms])

theorem cluster_settles_what_it_owes_witness:
  "\<exists>e cl'. clusterRun (sampleCluster (Some \<lparr>sbEntries = [e], sbCorrupt = False\<rparr>)) {} cl' \<and> seSerial e = ''0009''
     \<and> (e \<in> owedIn (clStore cl') \<or> settled (Some sampleCACert) {} (clStore cl') e)"
proof -
  let ?e = "\<lparr>seSerial = ''0009'', seSubject = ''a'', seRevokeAt = 0\<rparr>"
  let ?b = "Some \<lparr>sbEntries = [?e], sbCorrupt = False\<rparr>"
  obtain v where r: "clusterRun (sampleCluster ?b) {} (absorb (sampleCluster ?b) 1 v)" by (rule sampleCluster_owes)
  have "NormaliseSerial ''0009'' = Inr (serialHexStr 9)" by code_simp
  then have "\<not> malformed ?e" by (simp add: malformed_def)
  moreover have "?e \<in> owedIn (clStore (sampleCluster ?b))" by (simp add: owedIn_def sampleCluster_def)
  ultimately have "?e \<in> owedIn (clStore (absorb (sampleCluster ?b) 1 v))
      \<or> settled (Some sampleCACert) {} (clStore (absorb (sampleCluster ?b) 1 v)) ?e"
    using cluster_settles_what_it_owes [OF r sampleCluster_ok] by blast
  moreover have "seSerial ?e = ''0009''" by simp
  ultimately show ?thesis using r by blast
qed

end
